(* ===== verification/Prelude.thy ===== *)
theory Prelude
  imports Complex_Main "HOL-Library.Word" "HOL-Library.Monad_Syntax" "HOL-Library.Code_Target_Nat"
begin

unbundle bit_operations_syntax

text \<open>
  The vocabulary every component theory shares: the machine words of the C++ sources,
  unsigned arithmetic on natural numbers with the wrap-around written out, bounds-checked
  reads of a word buffer, loops that can fail (a fold in the option monad), ordered
  associative containers (\<open>std::map\<close>) as sorted association lists, and the few
  \<open>std::string\<close> and stream-formatting operations the sources use.
\<close>

section \<open>Lemma collections\<close>

named_theorems wrap_simps \<open>unsigned arithmetic that does not wrap\<close>
named_theorems inv_intros \<open>invariant preservation, one fact per operation\<close>

section \<open>Machine words\<close>

type_synonym u8 = "8 word"
type_synonym u16 = "16 word"
type_synonym u32 = "32 word"
type_synonym u64 = "64 word"
type_synonym bitrange = "nat \<times> nat"

text \<open>
  Unsigned C++ arithmetic whose operands are counts or offsets is done on \<open>nat\<close>, with
  the reduction modulo the width applied where the source's type applies it.
\<close>

definition w16 :: "nat \<Rightarrow> nat" where
  "w16 n = n mod 2 ^ 16"

definition w32 :: "nat \<Rightarrow> nat" where
  "w32 n = n mod 2 ^ 32"

definition w64 :: "nat \<Rightarrow> nat" where
  "w64 n = n mod 2 ^ 64"

definition sub32 :: "nat \<Rightarrow> nat \<Rightarrow> nat" where
  "sub32 a b = (a + 2 ^ 32 - b) mod 2 ^ 32"

definition s64 :: "nat \<Rightarrow> int" where
  "s64 n = (int n + 2 ^ 63) mod 2 ^ 64 - 2 ^ 63"

lemma w16_id [wrap_simps]: "n < 2 ^ 16 \<Longrightarrow> w16 n = n"
  by (simp add: w16_def)

lemma w32_id [wrap_simps]: "n < 2 ^ 32 \<Longrightarrow> w32 n = n"
  by (simp add: w32_def)

lemma w64_id [wrap_simps]: "n < 2 ^ 64 \<Longrightarrow> w64 n = n"
  by (simp add: w64_def)

lemma sub32_id [wrap_simps]: "b \<le> a \<Longrightarrow> a < 2 ^ 32 \<Longrightarrow> sub32 a b = a - b"
proof -
  assume le: "b \<le> a" and lt: "a < 2 ^ 32"
  have "a + 2 ^ 32 - b = (a - b) + 2 ^ 32" using le by (rule add_diff_assoc2 [symmetric])
  then have "sub32 a b = (a - b) mod 2 ^ 32" by (simp only: sub32_def mod_add_self2)
  then show ?thesis using lt by simp
qed

lemma s64_id [wrap_simps]: "n < 2 ^ 63 \<Longrightarrow> s64 n = int n"
  by (simp add: s64_def)

lemma w16_less [simp]: "w16 n < 65536"
  by (simp add: w16_def)

lemma w32_less [simp]: "w32 n < 4294967296"
  by (simp add: w32_def)

lemma w64_less [simp]: "w64 n < 18446744073709551616"
  by (simp add: w64_def)

lemma unat_u32_less [simp]: "unat (w :: u32) < 4294967296"
  using unsigned_less [of w] by simp

lemma unat_u8_less [simp]: "unat (w :: u8) < 256"
  using unsigned_less [of w] by simp

lemma unat_and_mask_less:
  "unat (w AND (push_bit n 1 - 1) :: u32) < 2 ^ n"
proof -
  have "w AND (push_bit n 1 - 1) = take_bit n w"
    by (simp add: take_bit_eq_mask mask_eq_exp_minus_1 push_bit_eq_mult)
  then show ?thesis
    by (metis less_exp take_bit_nat_less_exp unsigned_take_bit_eq)
qed

lemma bit_nat_less: "(m :: nat) < 2 ^ n \<Longrightarrow> bit m i \<Longrightarrow> i < n"
  by (metis bit_take_bit_iff take_bit_nat_eq_self)

section \<open>Bounds-checked buffer reads\<close>

text \<open>
  A read of a word buffer is \<open>None\<close> when the index is outside it: the C++ read there is
  undefined behaviour. A function of the model that returns \<open>None\<close> has made such a read
  (or does not return), so a theorem that it returns \<open>Some\<close> is memory safety.
\<close>

definition rd :: "u32 list \<Rightarrow> nat \<Rightarrow> u32 option" where
  "rd buf i = (if i < length buf then Some (buf ! i) else None)"

lemma rd_Some [simp]: "i < length buf \<Longrightarrow> rd buf i = Some (buf ! i)"
  by (simp add: rd_def)

lemma rd_append1: "i < length xs \<Longrightarrow> rd (xs @ ys) i = rd xs i"
  by (simp add: rd_def nth_append)

text \<open>Reading \<open>n\<close> consecutive words from \<open>i\<close> on.\<close>

fun rd_list :: "u32 list \<Rightarrow> nat \<Rightarrow> nat \<Rightarrow> u32 list option" where
  "rd_list buf i 0 = Some []"
| "rd_list buf i (Suc n) =
     do { w \<leftarrow> rd buf i; ws \<leftarrow> rd_list buf (w32 (i + 1)) n; Some (w # ws) }"

lemma rd_list_total:
  "i + n \<le> length buf \<Longrightarrow> length buf < 2 ^ 32 \<Longrightarrow> rd_list buf i n = Some (take n (drop i buf))"
proof (induction n arbitrary: i)
  case 0
  then show ?case by simp
next
  case (Suc n)
  then have i: "i < length buf" and w: "w32 (i + 1) = Suc i"
    by (simp_all add: w32_id)
  with Suc show ?case
    by (simp add: Cons_nth_drop_Suc [symmetric])
qed

section \<open>Loops that can fail\<close>

text \<open>\<open>for (x : xs) s = body(s, x)\<close>, left at the first failing step.\<close>

fun foldM :: "('s \<Rightarrow> 'a \<Rightarrow> 's option) \<Rightarrow> 's \<Rightarrow> 'a list \<Rightarrow> 's option" where
  "foldM f s [] = Some s"
| "foldM f s (x # xs) = do { s' \<leftarrow> f s x; foldM f s' xs }"

lemma foldM_append:
  "foldM f s (xs @ ys) = do { s' \<leftarrow> foldM f s xs; foldM f s' ys }"
  by (induction xs arbitrary: s) (auto split: Option.bind_split)

lemma bind_total:
  "m = Some x \<Longrightarrow> \<exists>s. f x = Some s \<and> P s \<Longrightarrow> \<exists>s. (m \<bind> f) = Some s \<and> P s"
  by simp

lemma if_total:
  "(b \<Longrightarrow> \<exists>s. x = Some s \<and> P s) \<Longrightarrow> (\<not> b \<Longrightarrow> \<exists>s. y = Some s \<and> P s) \<Longrightarrow>
     \<exists>s. (if b then x else y) = Some s \<and> P s"
  by simp

lemma bind_SomeE:
  "(m \<bind> f) = Some s \<Longrightarrow> (\<And>x. m = Some x \<Longrightarrow> f x = Some s \<Longrightarrow> P) \<Longrightarrow> P"
  by (cases m) auto

lemma if_SomeE:
  "(if b then x else y) = Some s \<Longrightarrow> (b \<Longrightarrow> x = Some s \<Longrightarrow> P) \<Longrightarrow> (\<not> b \<Longrightarrow> y = Some s \<Longrightarrow> P) \<Longrightarrow> P"
  by (cases b) auto

text \<open>An early return in front of the rest of the body.\<close>

lemma guard_SomeE:
  "(if b then Some t else m \<bind> f) = Some s \<Longrightarrow> (b \<Longrightarrow> s = t \<Longrightarrow> P) \<Longrightarrow>
     (\<not> b \<Longrightarrow> (m \<bind> f) = Some s \<Longrightarrow> P) \<Longrightarrow> P"
  by (cases b) auto

text \<open>Total correctness of such a loop: an invariant that every step keeps, with no step failing.\<close>

lemma foldM_total:
  assumes "I s" and "\<And>s x. x \<in> set xs \<Longrightarrow> I s \<Longrightarrow> \<exists>s'. f s x = Some s' \<and> I s'"
  shows "\<exists>s'. foldM f s xs = Some s' \<and> I s'"
  using assms
proof (induction xs arbitrary: s)
  case Nil
  then show ?case by simp
next
  case (Cons x xs)
  from Cons.prems(2) [of x s] Cons.prems(1)
  obtain t where t: "f s x = Some t" "I t" by auto
  from Cons.IH [OF t(2)] Cons.prems(2)
  obtain s' where "foldM f t xs = Some s'" "I s'" by auto
  with t show ?case by auto
qed

lemma foldM_cong:
  assumes "\<And>s x. x \<in> set xs \<Longrightarrow> f s x = g s x"
  shows "foldM f s xs = foldM g s xs"
  using assms by (induction xs arbitrary: s) (auto split: Option.bind_split)

lemma foldM_Some:
  assumes "\<And>s x. x \<in> set xs \<Longrightarrow> f s x = Some (g s x)"
  shows "foldM f s xs = Some (foldl g s xs)"
  using assms by (induction xs arbitrary: s) auto

text \<open>Keys without repetitions select one element.\<close>

lemma filter_key_unique:
  "distinct (map f xs) \<Longrightarrow> x \<in> set xs \<Longrightarrow> filter (\<lambda>y. f y = f x) xs = [x]"
proof (induction xs)
  case (Cons a xs)
  have "x = a \<Longrightarrow> filter (\<lambda>y. f y = f x) xs = []"
    using Cons.prems(1) by (auto simp: filter_empty_conv) (metis image_eqI)
  moreover have "x \<noteq> a \<Longrightarrow> f a \<noteq> f x" using Cons.prems by (auto simp: rev_image_eqI)
  ultimately show ?case using Cons by auto
qed simp

section \<open>Strings\<close>

text \<open>
  \<open>s.find(needle) != npos\<close>: the needle is a prefix of some suffix of the string.
\<close>

fun is_prefix :: "string \<Rightarrow> string \<Rightarrow> bool" where
  "is_prefix [] s = True"
| "is_prefix (c # cs) [] = False"
| "is_prefix (c # cs) (d # ds) = (c = d \<and> is_prefix cs ds)"

fun str_contains :: "string \<Rightarrow> string \<Rightarrow> bool" where
  "str_contains [] needle = is_prefix needle []"
| "str_contains (c # cs) needle = (is_prefix needle (c # cs) \<or> str_contains cs needle)"

lemma is_prefix_iff: "is_prefix n s \<longleftrightarrow> (\<exists>r. s = n @ r)"
  by (induction n s rule: is_prefix.induct) auto

lemma str_contains_iff: "str_contains s n \<longleftrightarrow> (\<exists>a b. s = a @ n @ b)"
proof (induction s)
  case Nil
  show ?case by (cases n) auto
next
  case (Cons c cs)
  have "(\<exists>a b. c # cs = a @ n @ b) \<longleftrightarrow> (\<exists>b. c # cs = n @ b) \<or> (\<exists>a b. cs = a @ n @ b)"
    by (metis append_Cons append_Nil list.exhaust list.inject)
  with Cons.IH show ?case by (simp add: is_prefix_iff)
qed

text \<open>Decimal output of an unsigned number (\<open>std::to_string\<close>, \<open>operator<<\<close>).\<close>

fun nat_str :: "nat \<Rightarrow> string" where
  "nat_str n = (if n < 10 then [char_of (48 + n)] else nat_str (n div 10) @ [char_of (48 + n mod 10)])"

declare nat_str.simps [simp del]

definition str_nat :: "string \<Rightarrow> nat" where
  "str_nat s = foldl (\<lambda>a c. a * 10 + (of_char c - 48)) 0 s"

lemma of_char_digit: "d < 10 \<Longrightarrow> of_char (char_of (48 + d :: nat)) = 48 + d"
  by simp

lemma str_nat_nat_str [simp]: "str_nat (nat_str n) = n"
proof (induction n rule: nat_str.induct)
  case (1 n)
  show ?case
  proof (cases "n < 10")
    case True
    then show ?thesis by (subst nat_str.simps) (simp add: str_nat_def)
  next
    case False
    have "nat_str n = nat_str (n div 10) @ [char_of (48 + n mod 10)]"
      using False by (subst nat_str.simps) simp
    then show ?thesis using 1 [OF False] by (simp add: str_nat_def)
  qed
qed

lemma nat_str_inj: "nat_str m = nat_str n \<longleftrightarrow> m = n"
  by (metis str_nat_nat_str)

lemma nat_str_digits: "c \<in> set (nat_str n) \<Longrightarrow> \<exists>d < 10. c = char_of (48 + d :: nat)"
proof (induction n rule: nat_str.induct)
  case (1 n)
  show ?case
  proof (cases "n < 10")
    case True
    then show ?thesis using 1(2) by (subst (asm) nat_str.simps) auto
  next
    case False
    then have "c \<in> set (nat_str (n div 10)) \<or> c = char_of (48 + n mod 10)"
      using 1(2) by (subst (asm) nat_str.simps) auto
    moreover have "n mod 10 < 10" by simp
    ultimately show ?thesis using 1(1) [OF False] by blast
  qed
qed

end
