(* ===== verification/Data_Frame.thy ===== *)
theory Data_Frame
  imports Prelude
begin

text \<open>
  The vendored RUReader format classes (vendor/rureader): bit extraction (\<open>Utils.h\<close>), the
  two bit-table builders (\<open>DataFrameBuilderPHA.cc\<close>, \<open>DataFrameBuilderPSD.cc\<close>) and
  \<open>DataFrame\<close>, which turns the data format word of a channel aggregate into the
  \<open>DataLayout\<close> the unpackers walk the events with. The tables are association lists in
  the order the source fills its maps; only lookups and emptiness are used of them.
\<close>

section \<open>Bit extraction\<close>

definition ExtractBits :: "u32 \<Rightarrow> nat \<Rightarrow> nat \<Rightarrow> u32" where
  "ExtractBits word lo hi =
     (let width = hi - lo + 1 in
      if width \<ge> 32 then drop_bit lo word
      else drop_bit lo word AND (push_bit width 1 - 1))"

definition ExtractBits_range :: "u32 \<Rightarrow> bitrange \<Rightarrow> u32" where
  "ExtractBits_range word rng = ExtractBits word (fst rng) (snd rng)"

definition RangeWidth :: "bitrange \<Rightarrow> nat" where
  "RangeWidth rng = snd rng - fst rng + 1"

lemma ExtractBits_take:
  "ExtractBits w lo hi = take_bit (hi - lo + 1) (drop_bit lo w)"
proof -
  have m: "push_bit n 1 - 1 = (mask n :: u32)" for n
    by (simp add: mask_eq_exp_minus_1 push_bit_eq_mult)
  have t: "n \<ge> 32 \<Longrightarrow> take_bit n (v :: u32) = v" for n v
    by (simp add: take_bit_word_eq_self)
  show ?thesis
    unfolding ExtractBits_def Let_def m
    by (simp add: take_bit_eq_mask [symmetric] t)
qed

lemma ExtractBits_unat:
  "unat (ExtractBits w lo hi) = unat w div 2 ^ lo mod 2 ^ (hi - lo + 1)"
proof -
  have "take_bit 32 (unat w) = unat w"
    by (simp add: take_bit_eq_mod)
  then show ?thesis
    unfolding ExtractBits_take unsigned_take_bit_eq unsigned_drop_bit_eq
    by (simp add: take_bit_eq_mod drop_bit_eq_div)
qed

lemma ExtractBits_less: "unat (ExtractBits w lo hi) < 2 ^ (hi - lo + 1)"
  by (simp add: ExtractBits_unat)

section \<open>Firmware types and layouts\<close>

datatype CAEN_DGTZ_DPPFirmware =
    DPPFirmware_PHA | DPPFirmware_PSD | DPPFirmware_CI | DPPFirmware_ZLE
  | DPPFirmware_QDC | DPPFirmware_DAW | NotDPPFirmware

record DataLayout =
  evtSize :: nat
  numSamples :: nat
  dualTrace :: bool
  hasTrace :: bool
  hasTS :: bool
  hasEnergy :: bool
  hasCharge :: bool
  hasExtras :: bool
  hasChannelBit :: bool
  extrasConfig :: bool
  extrasMode :: nat
  fmtTS :: bitrange
  fmtExtras :: bitrange
  fmtSample :: bitrange
  fmtDP1 :: bitrange
  fmtDP2 :: bitrange
  tsBits :: nat
  resTS :: u32
  resEnergy :: u32

definition DataLayout_init :: DataLayout where
  "DataLayout_init =
     \<lparr> evtSize = 0, numSamples = 0, dualTrace = False, hasTrace = False, hasTS = False,
       hasEnergy = False, hasCharge = False, hasExtras = False, hasChannelBit = False,
       extrasConfig = False, extrasMode = 0, fmtTS = (0, 30), fmtExtras = (0, 31),
       fmtSample = (0, 13), fmtDP1 = (14, 14), fmtDP2 = (15, 15), tsBits = 31,
       resTS = 0, resEnergy = 0 \<rparr>"

section \<open>The DPP-PHA bit tables\<close>

definition PHA_IsX730Family :: "string \<Rightarrow> bool" where
  "PHA_IsX730Family name = (str_contains name ''730'' \<or> str_contains name ''725'')"

definition PHA_IsX724Family :: "string \<Rightarrow> bool" where
  "PHA_IsX724Family name =
     (str_contains name ''724'' \<or> str_contains name ''781'' \<or> str_contains name ''782'')"

definition PHA_ProduceNumSamples :: "string \<Rightarrow> nat" where
  "PHA_ProduceNumSamples name =
     (if PHA_IsX730Family name then 8 else if PHA_IsX724Family name then 2 else 0)"

definition PHA_ProduceFlags :: "string \<Rightarrow> (string \<times> nat) list" where
  "PHA_ProduceFlags name =
     (if PHA_IsX730Family name then
        [(''DT'', 31), (''Energy'', 30), (''TS'', 29), (''Extras'', 28), (''Trace'', 27)]
      else if PHA_IsX724Family name then
        [(''DT'', 31), (''Trace'', 30), (''Energy'', 29), (''TS'', 28)]
      else [])"

definition PHA_ProduceConfigs :: "string \<Rightarrow> (string \<times> bitrange) list" where
  "PHA_ProduceConfigs name =
     (if PHA_IsX730Family name then
        [(''Extras'', (24, 26)), (''AnaProbe1'', (22, 23)), (''AnaProbe2'', (20, 21)),
         (''DigProbe'', (16, 19)), (''NumSamples'', (0, 15))]
      else if PHA_IsX724Family name then
        [(''AnaProbe'', (22, 23)), (''DigProbe1'', (20, 21)), (''DigProbe2'', (16, 19)),
         (''NumSamples'', (0, 15))]
      else [])"

definition PHA_ProduceFormats :: "string \<Rightarrow> (string \<times> bitrange) list" where
  "PHA_ProduceFormats name =
     (if PHA_IsX730Family name then
        [(''Size'', (0, 30)), (''Energy'', (0, 14)), (''Extras'', (16, 20)), (''TS'', (0, 30)),
         (''CH'', (31, 31)), (''Sample'', (0, 13)), (''DP1'', (14, 14)), (''DP2'', (15, 15))]
      else if PHA_IsX724Family name then
        [(''Size'', (0, 20)), (''Energy'', (0, 14)), (''Extras'', (16, 23)), (''TS'', (0, 29)),
         (''RO'', (31, 31)), (''Sample'', (0, 13)), (''DP1'', (14, 14)), (''DP2'', (15, 15))]
      else [])"

section \<open>The DPP-PSD bit tables\<close>

definition PSD_IsX730Family :: "string \<Rightarrow> bool" where
  "PSD_IsX730Family name = (str_contains name ''730'' \<or> str_contains name ''725'')"

definition PSD_IsX720Family :: "string \<Rightarrow> bool" where
  "PSD_IsX720Family name = str_contains name ''720''"

definition PSD_ProduceNumSamples :: "string \<Rightarrow> nat" where
  "PSD_ProduceNumSamples name =
     (if PSD_IsX730Family name \<or> PSD_IsX720Family name then 8 else 0)"

definition PSD_ProduceFlags :: "string \<Rightarrow> (string \<times> nat) list" where
  "PSD_ProduceFlags name =
     (if PSD_IsX730Family name then
        [(''DT'', 31), (''Charge'', 30), (''TS'', 29), (''Extras'', 28), (''Trace'', 27)]
      else if PSD_IsX720Family name then
        [(''DT'', 31), (''Charge'', 30), (''TS'', 29), (''Extras'', 28), (''Trace'', 27),
         (''EP'', 26), (''EET'', 22)]
      else [])"

definition PSD_ProduceConfigs :: "string \<Rightarrow> (string \<times> bitrange) list" where
  "PSD_ProduceConfigs name =
     (if PSD_IsX730Family name then
        [(''Extras'', (24, 26)), (''AnaProbe'', (22, 23)), (''DigProbe1'', (16, 18)),
         (''DigProbe2'', (19, 21)), (''NumSamples'', (0, 15))]
      else if PSD_IsX720Family name then
        [(''TrgMd'', (24, 25)), (''DigProbe3'', (19, 21)), (''DigProbe4'', (16, 18)),
         (''NumSamples'', (0, 11))]
      else [])"

definition PSD_ProduceFormats :: "string \<Rightarrow> (string \<times> bitrange) list" where
  "PSD_ProduceFormats name =
     (if PSD_IsX730Family name then
        [(''Size'', (0, 21)), (''Charge1'', (0, 14)), (''Charge2'', (16, 31)),
         (''Extras'', (0, 31)), (''TS'', (0, 30)), (''CH'', (31, 31)), (''Sample'', (0, 13)),
         (''DP1'', (14, 14)), (''DP2'', (15, 15))]
      else if PSD_IsX720Family name then
        [(''Size'', (0, 23)), (''Charge1'', (0, 14)), (''Charge2'', (16, 31)),
         (''Extras'', (0, 31)), (''TS'', (0, 31)), (''Sample'', (0, 11)), (''DP1'', (12, 12)),
         (''DP2'', (13, 13)), (''DP3'', (14, 14)), (''DP4'', (15, 15))]
      else [])"

section \<open>DataFrame\<close>

text \<open>The concrete class behind the \<open>DataFrameBuilder\<close> pointer; it keeps the board name.\<close>

datatype DataFrameBuilder = BuilderPHA string | BuilderPSD string

fun GetNumSamples :: "DataFrameBuilder \<Rightarrow> nat" where
  "GetNumSamples (BuilderPHA name) = PHA_ProduceNumSamples name"
| "GetNumSamples (BuilderPSD name) = PSD_ProduceNumSamples name"

fun GetFlags :: "DataFrameBuilder \<Rightarrow> (string \<times> nat) list" where
  "GetFlags (BuilderPHA name) = PHA_ProduceFlags name"
| "GetFlags (BuilderPSD name) = PSD_ProduceFlags name"

fun GetConfigs :: "DataFrameBuilder \<Rightarrow> (string \<times> bitrange) list" where
  "GetConfigs (BuilderPHA name) = PHA_ProduceConfigs name"
| "GetConfigs (BuilderPSD name) = PSD_ProduceConfigs name"

fun GetFormat :: "DataFrameBuilder \<Rightarrow> (string \<times> bitrange) list" where
  "GetFormat (BuilderPHA name) = PHA_ProduceFormats name"
| "GetFormat (BuilderPSD name) = PSD_ProduceFormats name"

record DataFrame =
  fBuilder :: "DataFrameBuilder option"
  fNumSamples :: nat
  fFlags :: "(string \<times> nat) list"
  fConfigs :: "(string \<times> bitrange) list"
  fFormats :: "(string \<times> bitrange) list"
  fDppType :: CAEN_DGTZ_DPPFirmware
  fDataFormat :: u32
  fFormatSet :: bool
  fSizeFormat :: bitrange
  fDgtzName :: string
  fLayout :: DataLayout

definition DataFrame_new :: "CAEN_DGTZ_DPPFirmware \<Rightarrow> string \<Rightarrow> DataFrame" where
  "DataFrame_new dppType dgtzName =
     \<lparr> fBuilder = (case dppType of
           DPPFirmware_PHA \<Rightarrow> Some (BuilderPHA dgtzName)
         | DPPFirmware_PSD \<Rightarrow> Some (BuilderPSD dgtzName)
         | _ \<Rightarrow> None),
       fNumSamples = 0, fFlags = [], fConfigs = [], fFormats = [], fDppType = dppType,
       fDataFormat = 0, fFormatSet = False, fSizeFormat = (0, 31), fDgtzName = dgtzName,
       fLayout = DataLayout_init \<rparr>"

definition Enabled :: "DataFrame \<Rightarrow> string \<Rightarrow> bool" where
  "Enabled f key = (case map_of (fFlags f) key of
       None \<Rightarrow> False
     | Some b \<Rightarrow> drop_bit b (fDataFormat f) AND 1 \<noteq> 0)"

definition HasConfig :: "DataFrame \<Rightarrow> string \<Rightarrow> bool" where
  "HasConfig f key = (map_of (fConfigs f) key \<noteq> None)"

definition Config :: "DataFrame \<Rightarrow> string \<Rightarrow> nat" where
  "Config f key = (case map_of (fConfigs f) key of
       None \<Rightarrow> 0
     | Some rng \<Rightarrow>
         let value = unat (ExtractBits_range (fDataFormat f) rng) in
         if key = ''NumSamples'' then w16 (w32 (value * fNumSamples f)) else w16 value)"

definition HasFormat :: "DataFrame \<Rightarrow> string \<Rightarrow> bool" where
  "HasFormat f key = (map_of (fFormats f) key \<noteq> None)"

definition Format :: "DataFrame \<Rightarrow> string \<Rightarrow> bitrange \<Rightarrow> bitrange" where
  "Format f key fallback = (case map_of (fFormats f) key of None \<Rightarrow> fallback | Some rng \<Rightarrow> rng)"

definition Build :: "DataFrame \<Rightarrow> DataFrame" where
  "Build f = (case fBuilder f of
       None \<Rightarrow> f
     | Some b \<Rightarrow>
         let f = f\<lparr> fFlags := GetFlags b, fConfigs := GetConfigs b, fFormats := GetFormat b,
                    fNumSamples := GetNumSamples b \<rparr>
         in f\<lparr> fSizeFormat := Format f ''Size'' (0, 31) \<rparr>)"

definition IsSupported :: "DataFrame \<Rightarrow> bool" where
  "IsSupported f = (fBuilder f \<noteq> None \<and> fFlags f \<noteq> [] \<and> fFormats f \<noteq> [])"

definition ResolveLayout :: "DataFrame \<Rightarrow> DataLayout" where
  "ResolveLayout f =
     (let extrasWordAvailable = \<not> str_contains (fDgtzName f) ''724'' \<and>
                                \<not> str_contains (fDgtzName f) ''781'' \<and>
                                \<not> str_contains (fDgtzName f) ''782'';
          ns = Config f ''NumSamples'';
          trace = Enabled f ''Trace'';
          extras = Enabled f ''Extras'' \<and> extrasWordAvailable;
          ec = HasConfig f ''Extras'';
          ts = Format f ''TS'' (0, 30);
          x724 = str_contains (fDgtzName f) ''724'' \<or> str_contains (fDgtzName f) ''781'' \<or>
                 str_contains (fDgtzName f) ''782'';
          res = x724 \<and> fDppType f = DPPFirmware_PHA;
          size = (0 :: nat);
          size = (if Enabled f ''Energy'' then w16 (size + 1) else size);
          size = (if Enabled f ''Charge'' then w16 (size + 1) else size);
          size = (if Enabled f ''TS'' then w16 (size + 1) else size);
          size = (if extras then w16 (size + 1) else size);
          size = (if trace then w16 (size + ns div 2) else size)
      in \<lparr> evtSize = size,
           numSamples = ns,
           dualTrace = Enabled f ''DT'',
           hasTrace = trace,
           hasTS = Enabled f ''TS'',
           hasEnergy = Enabled f ''Energy'',
           hasCharge = Enabled f ''Charge'',
           hasExtras = extras,
           hasChannelBit = HasFormat f ''CH'',
           extrasConfig = ec,
           extrasMode = (if ec then Config f ''Extras'' mod 256 else 0),
           fmtTS = ts,
           fmtExtras = Format f ''Extras'' (0, 31),
           fmtSample = Format f ''Sample'' (0, 13),
           fmtDP1 = (if HasFormat f ''DP1'' then Format f ''DP1'' (14, 14)
                     else Format f ''DP'' (14, 14)),
           fmtDP2 = (if HasFormat f ''DP2'' then Format f ''DP2'' (15, 15)
                     else Format f ''TR'' (15, 15)),
           tsBits = RangeWidth ts,
           resTS = (if res then 0x80000000 else 0),
           resEnergy = (if res then 0xF3000000 else 0) \<rparr>)"

definition SetDataFormat :: "DataFrame \<Rightarrow> u32 \<Rightarrow> DataFrame \<times> bool" where
  "SetDataFormat f form =
     (if fFormatSet f \<and> form = fDataFormat f then (f, False)
      else let f = f\<lparr> fDataFormat := form, fFormatSet := True \<rparr>
           in (f\<lparr> fLayout := ResolveLayout f \<rparr>, True))"

section \<open>The layout invariant\<close>

text \<open>
  The event size is exactly the number of words the present fields occupy: the sixteen-bit
  sum in \<open>ResolveLayout\<close> cannot wrap, since a trace is at most 32767 words.
\<close>

definition layout_ok :: "DataLayout \<Rightarrow> bool" where
  "layout_ok l \<longleftrightarrow>
     evtSize l = of_bool (hasEnergy l) + of_bool (hasCharge l) + of_bool (hasTS l) +
                 of_bool (hasExtras l) + (if hasTrace l then numSamples l div 2 else 0) \<and>
     numSamples l < 2 ^ 16"

lemma Config_less: "Config f key < 2 ^ 16"
  by (auto simp: Config_def Let_def w16_def split: option.splits)

lemma layout_ok_ResolveLayout: "layout_ok (ResolveLayout f)"
proof -
  have "Config f ''NumSamples'' div 2 < 2 ^ 15"
    using Config_less [of f "''NumSamples''"] by simp
  then show ?thesis
    using Config_less [of f "''NumSamples''"]
    by (auto simp: layout_ok_def ResolveLayout_def Let_def w16_def)
qed

lemma layout_ok_evtSize: "layout_ok l \<Longrightarrow> evtSize l < 2 ^ 16"
  by (auto simp: layout_ok_def)

text \<open>Only the two families of boards send a word with every reserved bit known to be zero.\<close>

lemma resTS_ResolveLayout:
  "resTS (ResolveLayout f) \<noteq> 0 \<longleftrightarrow>
     fDppType f = DPPFirmware_PHA \<and> PHA_IsX724Family (fDgtzName f)"
  by (auto simp: ResolveLayout_def Let_def PHA_IsX724Family_def)

text \<open>A frame whose layout, if a format word was seen, is the one of that word.\<close>

definition frame_ok :: "DataFrame \<Rightarrow> bool" where
  "frame_ok f \<longleftrightarrow> (fFormatSet f \<longrightarrow> fLayout f = ResolveLayout f)"

lemma layout_inputs [simp]:
  "Enabled (f\<lparr> fLayout := l \<rparr>) k = Enabled f k"
  "Enabled (f\<lparr> fFormatSet := b \<rparr>) k = Enabled f k"
  "Config (f\<lparr> fLayout := l \<rparr>) k = Config f k"
  "Config (f\<lparr> fFormatSet := b \<rparr>) k = Config f k"
  "HasConfig (f\<lparr> fLayout := l \<rparr>) k = HasConfig f k"
  "HasConfig (f\<lparr> fFormatSet := b \<rparr>) k = HasConfig f k"
  "HasFormat (f\<lparr> fLayout := l \<rparr>) k = HasFormat f k"
  "HasFormat (f\<lparr> fFormatSet := b \<rparr>) k = HasFormat f k"
  "Format (f\<lparr> fLayout := l \<rparr>) k d = Format f k d"
  "Format (f\<lparr> fFormatSet := b \<rparr>) k d = Format f k d"
  by (simp_all add: Enabled_def Config_def HasConfig_def HasFormat_def Format_def Let_def
      cong: option.case_cong if_cong)

lemma layout_inputs_fields [simp]:
  "fDgtzName (f\<lparr> fLayout := l \<rparr>) = fDgtzName f" "fDppType (f\<lparr> fLayout := l \<rparr>) = fDppType f"
  "fDgtzName (f\<lparr> fFormatSet := b \<rparr>) = fDgtzName f" "fDppType (f\<lparr> fFormatSet := b \<rparr>) = fDppType f"
  by simp_all

lemma ResolveLayout_updates [simp]:
  "ResolveLayout (f\<lparr> fLayout := l \<rparr>) = ResolveLayout f"
  "ResolveLayout (f\<lparr> fFormatSet := b \<rparr>) = ResolveLayout f"
  by (simp_all only: ResolveLayout_def layout_inputs layout_inputs_fields)

lemma frame_ok_new [inv_intros]: "frame_ok (DataFrame_new d n)"
  by (simp add: frame_ok_def DataFrame_new_def)

lemma frame_ok_Build [inv_intros]: "fFormatSet f = False \<Longrightarrow> frame_ok (Build f)"
  by (auto simp: frame_ok_def Build_def Let_def split: option.splits)

lemma frame_ok_SetDataFormat [inv_intros]: "frame_ok f \<Longrightarrow> frame_ok (fst (SetDataFormat f w))"
  by (auto simp: frame_ok_def SetDataFormat_def Let_def)

lemma SetDataFormat_fields [simp]:
  "fSizeFormat (fst (SetDataFormat f w)) = fSizeFormat f"
  "fDgtzName (fst (SetDataFormat f w)) = fDgtzName f"
  "fFlags (fst (SetDataFormat f w)) = fFlags f"
  "fFormats (fst (SetDataFormat f w)) = fFormats f"
  "fConfigs (fst (SetDataFormat f w)) = fConfigs f"
  "fNumSamples (fst (SetDataFormat f w)) = fNumSamples f"
  "fDppType (fst (SetDataFormat f w)) = fDppType f"
  "fFormatSet (fst (SetDataFormat f w))"
  "fDataFormat (fst (SetDataFormat f w)) = w"
  by (auto simp: SetDataFormat_def Let_def)

text \<open>
  The cached layout is always the layout of the word just set, so skipping the recomputation
  for a repeated word (the optimisation in \<open>SetDataFormat\<close>) is never observable.
\<close>

lemma fLayout_SetDataFormat:
  "frame_ok f \<Longrightarrow> fLayout (fst (SetDataFormat f w)) =
     ResolveLayout (f\<lparr> fDataFormat := w, fFormatSet := True \<rparr>)"
  by (cases "fFormatSet f \<and> w = fDataFormat f") (auto simp: SetDataFormat_def frame_ok_def Let_def)

lemma layout_ok_SetDataFormat:
  "frame_ok f \<Longrightarrow> layout_ok (fLayout (fst (SetDataFormat f w)))"
  by (simp add: fLayout_SetDataFormat layout_ok_ResolveLayout)

lemma IsSupported_new_Build:
  "IsSupported (Build (DataFrame_new DPPFirmware_PHA n)) \<longleftrightarrow>
     PHA_IsX730Family n \<or> PHA_IsX724Family n"
  "IsSupported (Build (DataFrame_new DPPFirmware_PSD n)) \<longleftrightarrow>
     PSD_IsX730Family n \<or> PSD_IsX720Family n"
  by (auto simp: IsSupported_def Build_def DataFrame_new_def Let_def PHA_ProduceFlags_def
      PHA_ProduceFormats_def PSD_ProduceFlags_def PSD_ProduceFormats_def)

end
