(* ===== verification/Board_Model.thy ===== *)
theory Board_Model
  imports Prelude
begin

text \<open>
  The data every component exchanges: the board identity (\<open>BoardInfo.hpp\<close>), the connection
  parameters and start modes of \<open>IDigitizer.hpp\<close>, the decoded event
  (\<open>DecodedEvent.hpp\<close>) and the raw block (\<open>RawBlock.hpp\<close>).
\<close>

section \<open>Board identity\<close>

datatype DppType = NotDpp | Std | PHA | PSD | CI | ZLE | QDC | DAW

fun dpp_code :: "DppType \<Rightarrow> u32" where
  "dpp_code NotDpp = 0xFFFFFFFF"
| "dpp_code Std = 0"
| "dpp_code PHA = 1"
| "dpp_code PSD = 2"
| "dpp_code CI = 3"
| "dpp_code ZLE = 4"
| "dpp_code QDC = 5"
| "dpp_code DAW = 6"

datatype SyncRole = Independent | Master | Slave

fun toString :: "SyncRole \<Rightarrow> string" where
  "toString Master = ''master''"
| "toString Slave = ''slave''"
| "toString Independent = ''independent''"

record BoardInfo =
  modelName :: string
  model :: u32
  familyCode :: u32
  formFactor :: u32
  bi_channels :: u32
  adcNBits :: u32
  serialNumber :: u32
  pcbRevision :: u32
  boardRegId :: u32
  dppType :: DppType
  nsPerSample :: u8
  nsPerTimetag :: u8
  rocFirmware :: string
  amcFirmware :: string
  license :: string
  channelEnableMask :: u32
  acquisitionControl :: u32
  boardConfiguration :: u32
  frontPanelIOControl :: u32
  globalTriggerMask :: u32
  trgOutEnableMask :: u32
  runDelay :: u32
  syncRole :: SyncRole
  bi_connType :: int
  bi_linkNum :: int
  bi_node :: int
  bi_vmeBase :: u32

definition BoardInfo_init :: BoardInfo where
  "BoardInfo_init =
     \<lparr> modelName = '''', model = 0, familyCode = 0, formFactor = 0, bi_channels = 0,
       adcNBits = 0, serialNumber = 0, pcbRevision = 0, boardRegId = 0, dppType = NotDpp,
       nsPerSample = 0, nsPerTimetag = 0, rocFirmware = '''', amcFirmware = '''',
       license = '''', channelEnableMask = 0, acquisitionControl = 0, boardConfiguration = 0,
       frontPanelIOControl = 0, globalTriggerMask = 0, trgOutEnableMask = 0, runDelay = 0,
       syncRole = Independent, bi_connType = 0, bi_linkNum = 0, bi_node = 0, bi_vmeBase = 0 \<rparr>"

section \<open>Connection parameters and start modes\<close>

record BoardParams =
  bp_name :: string
  connType :: int
  linkNum :: int
  node :: int
  vmeBase :: u32
  configPath :: string

definition kStartModeSW :: u32 where "kStartModeSW = 0"
definition kStartModeSInGpi :: u32 where "kStartModeSInGpi = 1"
definition kStartModeFirstTrig :: u32 where "kStartModeFirstTrig = 2"
definition kStartModeLVDS :: u32 where "kStartModeLVDS = 3"

section \<open>Decoded events and raw blocks\<close>

text \<open>
  \<open>WaveView\<close> is a pointer into the decoder's trace buffer and a length, valid during the
  callback; the model carries the samples, \<open>[]\<close> standing for no trace (a null pointer or
  length 0, which every consumer treats alike).
\<close>

record DecodedEvent =
  ev_board :: nat
  ev_channel :: nat
  timestamp :: nat
  timePs :: int
  energy :: nat
  qshort :: nat
  qlong :: nat
  pileup :: bool
  lost :: bool
  satu :: bool
  wave :: "u16 list"

definition DecodedEvent_init :: DecodedEvent where
  "DecodedEvent_init =
     \<lparr> ev_board = 0, ev_channel = 0, timestamp = 0, timePs = 0, energy = 0, qshort = 0,
       qlong = 0, pileup = False, lost = False, satu = False, wave = [] \<rparr>"

text \<open>The ranges the \<open>uint16_t\<close> fields of the struct impose.\<close>

definition fields16 :: "DecodedEvent \<Rightarrow> bool" where
  "fields16 e \<longleftrightarrow> ev_board e < 2 ^ 16 \<and> ev_channel e < 2 ^ 16 \<and> energy e < 2 ^ 16 \<and>
     qshort e < 2 ^ 16 \<and> qlong e < 2 ^ 16"

text \<open>A \<open>RawBlock\<close> owns a copy of the bytes; sharing it between consumers is not observable.\<close>

type_synonym RawBlock = "u8 list"

section \<open>Little-endian words\<close>

definition le_word :: "u8 \<Rightarrow> u8 \<Rightarrow> u8 \<Rightarrow> u8 \<Rightarrow> u32" where
  "le_word a b c d =
     ucast a OR push_bit 8 (ucast b) OR push_bit 16 (ucast c) OR push_bit 24 (ucast d)"

definition le_bytes :: "u32 \<Rightarrow> u8 list" where
  "le_bytes w = [ucast w, ucast (drop_bit 8 w), ucast (drop_bit 16 w), ucast (drop_bit 24 w)]"

text \<open>\<open>reinterpret_cast<const uint32_t*>\<close> of a byte buffer; a last partial word is not read.\<close>

fun words_of_bytes :: "u8 list \<Rightarrow> u32 list" where
  "words_of_bytes (a # b # c # d # bs) = le_word a b c d # words_of_bytes bs"
| "words_of_bytes _ = []"

definition bytes_of_words :: "u32 list \<Rightarrow> u8 list" where
  "bytes_of_words ws = concat (map le_bytes ws)"

lemma le_word_bytes:
  "le_word (ucast w) (ucast (drop_bit 8 w)) (ucast (drop_bit 16 w)) (ucast (drop_bit 24 w)) = w"
proof (rule bit_word_eqI)
  fix n
  assume "n < LENGTH(32)"
  then have n: "n < 32" by simp
  consider "n < 8" | "8 \<le> n" "n < 16" | "16 \<le> n" "n < 24" | "24 \<le> n" by linarith
  then show "bit (le_word (ucast w) (ucast (drop_bit 8 w)) (ucast (drop_bit 16 w))
      (ucast (drop_bit 24 w))) n = bit w n"
    using n by cases (auto simp: le_word_def bit_simps)
qed

lemma le_word_le_bytes:
  "le_bytes w = [a, b, c, d] \<Longrightarrow> le_word a b c d = w"
  by (auto simp: le_bytes_def le_word_bytes)

lemma words_of_bytes_of_words [simp]: "words_of_bytes (bytes_of_words ws @ bs) = ws @ words_of_bytes bs"
proof (induction ws)
  case Nil
  then show ?case by (simp add: bytes_of_words_def)
next
  case (Cons w ws)
  obtain a b c d where w: "le_bytes w = [a, b, c, d]"
    by (simp add: le_bytes_def)
  with Cons show ?case
    by (simp add: bytes_of_words_def le_word_le_bytes)
qed

lemma length_words_of_bytes: "length (words_of_bytes bs) = length bs div 4"
  by (induction bs rule: words_of_bytes.induct) auto

lemma length_bytes_of_words [simp]: "length (bytes_of_words ws) = 4 * length ws"
  by (induction ws) (auto simp: bytes_of_words_def le_bytes_def)

lemma bytes_of_words_append [simp]:
  "bytes_of_words (xs @ ys) = bytes_of_words xs @ bytes_of_words ys"
  by (simp add: bytes_of_words_def)

end
