(* ===== verification/Ordered_Map.thy ===== *)
theory Ordered_Map
  imports Prelude
begin

text \<open>
  \<open>std::map\<close>: the store interface its clients rely on, and the model of it used in this
  development, an association list kept sorted by key (iteration over a \<open>std::map\<close> is in
  key order). \<open>operator[]\<close> creates a missing entry from a default value.
\<close>

locale keyed_store =
  fixes lookup :: "'m \<Rightarrow> 'k::linorder \<Rightarrow> 'v option"
    and store :: "'k \<Rightarrow> 'v \<Rightarrow> 'm \<Rightarrow> 'm"
    and empty :: "'m"
    and keys :: "'m \<Rightarrow> 'k list"
    and invar :: "'m \<Rightarrow> bool"
  assumes invar_empty: "invar empty"
    and invar_store: "invar m \<Longrightarrow> invar (store k v m)"
    and lookup_empty: "lookup empty k = None"
    and lookup_store: "invar m \<Longrightarrow> lookup (store k v m) k' = (if k' = k then Some v else lookup m k')"
    and keys_sorted: "invar m \<Longrightarrow> sorted (keys m) \<and> distinct (keys m)"
    and keys_lookup: "invar m \<Longrightarrow> k \<in> set (keys m) \<longleftrightarrow> lookup m k \<noteq> None"
begin

text \<open>A client that folds a sequence of get-or-create updates over the store.\<close>

lemma foldl_update_invar:
  "invar m \<Longrightarrow> invar (foldl (\<lambda>m x. store (key x) (upd x (lookup m (key x))) m) m xs)"
  by (induction xs arbitrary: m) (simp_all add: invar_store)

lemma foldl_update_lookup:
  "invar m \<Longrightarrow>
     lookup (foldl (\<lambda>m x. store (key x) (upd x (lookup m (key x))) m) m xs) k =
     foldl (\<lambda>v x. Some (upd x v)) (lookup m k) (filter (\<lambda>x. key x = k) xs)"
  by (induction xs arbitrary: m) (simp_all add: invar_store lookup_store)

lemma foldl_update_keys:
  assumes "invar m"
  shows "set (keys (foldl (\<lambda>m x. store (key x) (upd x (lookup m (key x))) m) m xs)) =
         set (keys m) \<union> key ` set xs"
proof -
  have some: "foldl (\<lambda>v x. Some (upd x v)) v ys = None \<longleftrightarrow> v = None \<and> ys = []" for v ys
    by (induction ys arbitrary: v) auto
  show ?thesis
    using assms
    by (auto simp: keys_lookup foldl_update_invar foldl_update_lookup some filter_empty_conv)
qed

end

section \<open>The sorted association list\<close>

type_synonym ('k, 'v) omap = "('k \<times> 'v) list"

abbreviation omap_lookup :: "('k, 'v) omap \<Rightarrow> 'k \<Rightarrow> 'v option" where
  "omap_lookup \<equiv> map_of"

fun omap_store :: "'k::linorder \<Rightarrow> 'v \<Rightarrow> ('k, 'v) omap \<Rightarrow> ('k, 'v) omap" where
  "omap_store k v [] = [(k, v)]"
| "omap_store k v ((k', v') # m) =
     (if k < k' then (k, v) # (k', v') # m
      else if k = k' then (k, v) # m
      else (k', v') # omap_store k v m)"

abbreviation omap_keys :: "('k, 'v) omap \<Rightarrow> 'k list" where
  "omap_keys m \<equiv> map fst m"

definition omap_ok :: "('k::linorder, 'v) omap \<Rightarrow> bool" where
  "omap_ok m \<longleftrightarrow> sorted (omap_keys m) \<and> distinct (omap_keys m)"

text \<open>\<open>m[k]\<close>, creating the entry from \<open>d\<close> when there is none.\<close>

definition omap_get :: "'v \<Rightarrow> ('k, 'v) omap \<Rightarrow> 'k \<Rightarrow> 'v" where
  "omap_get d m k = (case omap_lookup m k of None \<Rightarrow> d | Some v \<Rightarrow> v)"

lemma omap_keys_store: "set (omap_keys (omap_store k v m)) = insert k (set (omap_keys m))"
  by (induction k v m rule: omap_store.induct) auto

lemma omap_ok_empty [simp]: "omap_ok []"
  by (simp add: omap_ok_def)

lemma omap_ok_store [simp]: "omap_ok m \<Longrightarrow> omap_ok (omap_store k v m)"
proof (induction k v m rule: omap_store.induct)
  case (2 k v k' v' m)
  then show ?case
    using omap_keys_store [of k v m] by (auto simp: omap_ok_def)
qed (simp add: omap_ok_def)

lemma omap_lookup_store [simp]:
  "omap_ok m \<Longrightarrow> omap_lookup (omap_store k v m) k' = (if k' = k then Some v else omap_lookup m k')"
proof (induction k v m rule: omap_store.induct)
  case (2 k v k0 v0 m)
  then show ?case by (auto simp: omap_ok_def)
qed simp

interpretation omap: keyed_store omap_lookup omap_store "[]" omap_keys omap_ok
proof unfold_locales
  show "omap_ok m \<Longrightarrow> (k \<in> set (omap_keys m)) = (omap_lookup m k \<noteq> None)"
    for m :: "('k::linorder, 'v) omap" and k
    by (auto simp: map_of_eq_None_iff)
qed (simp_all, simp add: omap_ok_def)

end
