(* ===== verification/Aggregate_Decoder.thy ===== *)
theory Aggregate_Decoder
  imports Data_Frame Board_Model Ordered_Map
begin

text \<open>
  \<open>AggregateDecoder\<close>: walks a raw CAEN readout buffer and emits \<open>DecodedEvent\<close>s. Every
  word is read through \<open>rd\<close>, so a read outside the buffer makes the result \<open>None\<close>; so does
  a walk that never ends (the outer loop is a \<^theory_text>\<open>partial_function\<close>). Offsets are
  \<open>uint32\<close> values: every sum is reduced with \<open>w32\<close>. The reusable trace buffer \<open>wave_\<close>
  carries nothing from one event to the next and is not part of the state.
\<close>

section \<open>Constants and state\<close>

definition kAggHeaderWords :: nat where "kAggHeaderWords = 4"
definition kMaxChannels :: nat where "kMaxChannels = 16"
definition kPhaDeadTimeBit :: u32 where "kPhaDeadTimeBit = 0x01"
definition kPhaSatuBit :: u32 where "kPhaSatuBit = 0x10"
definition kPhaDoubleSatBit :: u32 where "kPhaDoubleSatBit = 0x80"
definition kPhaLostBit :: u32 where "kPhaLostBit = 0x20"
definition kPsdLostBit :: u32 where "kPsdLostBit = 0x00001000"
definition kPsdOverBit :: u32 where "kPsdOverBit = 0x00004000"

definition toCaenDpp :: "DppType \<Rightarrow> CAEN_DGTZ_DPPFirmware" where
  "toCaenDpp t = (if t = PSD then DPPFirmware_PSD else DPPFirmware_PHA)"

record ChannelClock =
  epoch :: nat
  reference :: nat
  seen :: bool

definition ChannelClock_init :: ChannelClock where
  "ChannelClock_init = \<lparr> epoch = 0, reference = 0, seen = False \<rparr>"

record BoardDec =
  frame :: DataFrame
  isPHA :: bool
  supported :: bool
  psPerTick :: nat
  clock :: ChannelClock

record DecCounters =
  dc_corrupt :: nat
  dc_boardFail :: nat
  dc_uninitialised :: nat
  dc_uninitialisedEvents :: nat
  dc_incomplete :: nat

record AggregateDecoder =
  dec_boards :: "(u32, BoardDec) omap"
  dec_counters :: DecCounters

definition AggregateDecoder_init :: AggregateDecoder where
  "AggregateDecoder_init =
     \<lparr> dec_boards = [],
       dec_counters = \<lparr> dc_corrupt = 0, dc_boardFail = 0, dc_uninitialised = 0,
                     dc_uninitialisedEvents = 0, dc_incomplete = 0 \<rparr> \<rparr>"

text \<open>Period of the time-stamp counter: the sampling clock, else a guess from the model name.\<close>

definition timeStampPs :: "BoardInfo \<Rightarrow> nat" where
  "timeStampPs bi =
     (if nsPerSample bi \<noteq> 0 then 1000 * unat (nsPerSample bi)
      else let n = modelName bi in
        if str_contains n ''724'' \<or> str_contains n ''781'' \<or> str_contains n ''782'' then 10000
        else if str_contains n ''725'' \<or> str_contains n ''720'' then 4000
        else if str_contains n ''730'' then 2000
        else 0)"

definition registerBoard ::
  "u32 \<Rightarrow> DppType \<Rightarrow> string \<Rightarrow> nat \<Rightarrow> AggregateDecoder \<Rightarrow> AggregateDecoder" where
  "registerBoard regId dpp name ps d =
     (let fr = Build (DataFrame_new (toCaenDpp dpp) name);
          bd = \<lparr> frame = fr, isPHA = (dpp \<noteq> PSD), supported = IsSupported fr,
                 psPerTick = ps, clock = ChannelClock_init \<rparr>
      in d\<lparr> dec_boards := omap_store regId bd (dec_boards d) \<rparr>)"

definition registerBoard_info :: "BoardInfo \<Rightarrow> AggregateDecoder \<Rightarrow> AggregateDecoder" where
  "registerBoard_info bi d = registerBoard (boardRegId bi) (dppType bi) (modelName bi) (timeStampPs bi) d"

section \<open>Unwrapping the time-stamp counter\<close>

text \<open>One candidate epoch: keep it if it lies strictly closer to the reference.\<close>

definition unwrap_pick :: "nat \<Rightarrow> nat \<Rightarrow> nat \<Rightarrow> nat \<times> nat \<Rightarrow> nat \<Rightarrow> nat \<times> nat" where
  "unwrap_pick raw rng ref bd cand =
     (let f = w64 (raw + w64 (cand * rng));
          d = (if f > ref then f - ref else ref - f)
      in if d < snd bd then (cand, d) else bd)"

definition unwrap :: "ChannelClock \<Rightarrow> nat \<Rightarrow> nat \<Rightarrow> nat \<times> ChannelClock" where
  "unwrap c raw width =
     (let rng = (if width \<ge> 64 then 0 else 2 ^ width);
          (full, c) =
            (if rng \<noteq> 0 then
               let lowest = (if epoch c > 0 then epoch c - 1 else 0);
                   cands = (if seen c then [lowest ..< w64 (epoch c + 1) + 1] else []);
                   best = fst (foldl (unwrap_pick raw rng (reference c))
                                     (epoch c, 2 ^ 64 - 1) cands);
                   c = (if best > epoch c then c\<lparr> epoch := best \<rparr> else c)
               in (w64 (raw + w64 (best * rng)), c)
             else (raw, c));
          c = c\<lparr> seen := True \<rparr>
      in (full, if full > reference c then c\<lparr> reference := full \<rparr> else c))"

definition setTime ::
  "BoardDec \<Rightarrow> DecodedEvent \<Rightarrow> nat \<Rightarrow> nat \<Rightarrow> nat \<Rightarrow> BoardDec \<times> DecodedEvent" where
  "setTime bd e width fineTS fineBits =
     (let (ticks, ck) = unwrap (clock bd) (timestamp e) width;
          bd = bd\<lparr> clock := ck \<rparr>
      in if psPerTick bd = 0 then (bd, e)
         else let ps = s64 (w64 (ticks * psPerTick bd));
                  ps = (if fineBits > 0
                        then ps + s64 (w64 (fineTS * psPerTick bd) div 2 ^ fineBits)
                        else ps)
              in (bd, e\<lparr> timePs := ps \<rparr>))"

section \<open>Waveforms\<close>

definition unpackWave :: "u32 list \<Rightarrow> DataLayout \<Rightarrow> nat \<Rightarrow> u16 list option" where
  "unpackWave buf l first =
     (let nWords = numSamples l div 2;
          lo = fst (fmtSample l);
          hi = snd (fmtSample l)
      in if nWords = 0 then Some []
         else do {
           ws \<leftarrow> rd_list buf first nWords;
           Some (if dualTrace l then map (\<lambda>w. ucast (ExtractBits w lo hi)) ws
                 else concat (map (\<lambda>w. [ucast (ExtractBits w lo hi),
                                        ucast (ExtractBits w (lo + 16) (hi + 16))]) ws))
         })"

section \<open>The events of one channel aggregate\<close>

text \<open>
  What the two unpackers update while they walk one board aggregate: the board's entry of the
  map, the counters, and the events emitted so far, in order.
\<close>

record DecState =
  ds_bd :: BoardDec
  ds_cnt :: DecCounters
  ds_evs :: "DecodedEvent list"

definition incr_incomplete :: "DecState \<Rightarrow> DecState" where
  "incr_incomplete s = s\<lparr> ds_cnt := (ds_cnt s)\<lparr> dc_incomplete := dc_incomplete (ds_cnt s) + 1 \<rparr> \<rparr>"

definition incr_corrupt :: "DecState \<Rightarrow> DecState" where
  "incr_corrupt s = s\<lparr> ds_cnt := (ds_cnt s)\<lparr> dc_corrupt := dc_corrupt (ds_cnt s) + 1 \<rparr> \<rparr>"

definition count_uninitialised :: "nat \<Rightarrow> DecState \<Rightarrow> DecState" where
  "count_uninitialised n s =
     s\<lparr> ds_cnt := (ds_cnt s)\<lparr> dc_uninitialised := dc_uninitialised (ds_cnt s) + 1,
                             dc_uninitialisedEvents := dc_uninitialisedEvents (ds_cnt s) + n \<rparr> \<rparr>"

definition emit :: "DecodedEvent \<Rightarrow> DecState \<Rightarrow> DecState" where
  "emit e s = s\<lparr> ds_evs := ds_evs s @ [e] \<rparr>"

definition event_channel :: "DataLayout \<Rightarrow> u32 \<Rightarrow> nat \<Rightarrow> nat" where
  "event_channel l timeWord couple =
     (if hasChannelBit l then unat (drop_bit 31 timeWord AND 1) + couple * 2 else couple)"

definition event_timestamp :: "DataLayout \<Rightarrow> nat \<Rightarrow> nat \<Rightarrow> nat \<Rightarrow> nat" where
  "event_timestamp l extendedTS extendedBits rawTS =
     (if extendedBits \<noteq> 0 then w64 (push_bit (tsBits l) extendedTS) OR rawTS else rawTS)"

text \<open>The offset of an event's last word: \<open>ev + evtSize - 1\<close>.\<close>

definition last_word :: "DataLayout \<Rightarrow> nat \<Rightarrow> nat" where
  "last_word l ev = sub32 (w32 (ev + evtSize l)) 1"

text \<open>The common end of an event: place it in time, read its trace, hand it to the callback.\<close>

definition finish_event ::
  "u32 list \<Rightarrow> DataLayout \<Rightarrow> nat \<Rightarrow> DecodedEvent \<Rightarrow> nat \<Rightarrow> nat \<Rightarrow> nat \<Rightarrow> DecState \<Rightarrow> DecState option" where
  "finish_event buf l ev e extendedBits fineTS fineBits s =
     (let (bd, e) = (if hasTS l then setTime (ds_bd s) e (tsBits l + extendedBits) fineTS fineBits
                     else (ds_bd s, e))
      in do {
           wv \<leftarrow> (if hasTrace l then unpackWave buf l (w32 (ev + (if hasTS l then 1 else 0)))
                 else Some []);
           Some (emit (e\<lparr> wave := wv \<rparr>) (s\<lparr> ds_bd := bd \<rparr>))
         })"

definition PHA_event ::
  "u32 list \<Rightarrow> u32 \<Rightarrow> nat \<Rightarrow> DataLayout \<Rightarrow> nat \<Rightarrow> DecState \<Rightarrow> nat \<Rightarrow> DecState option" where
  "PHA_event buf board couple l base s evt =
     (let ev = w32 (base + w32 (evt * evtSize l)) in do {
        timeWord \<leftarrow> (if hasTS l then rd buf ev else Some 0);
        energyWord \<leftarrow> (if hasEnergy l then rd buf (last_word l ev) else Some 0);
        let lastWords = (if hasEnergy l then 1 else 0);
        let s = (if \<not> hasTS l \<or> \<not> hasEnergy l then incr_incomplete s else s);
        let rawTS = unat (ExtractBits_range timeWord (fmtTS l));
        let channel = event_channel l timeWord couple;
        if channel \<ge> kMaxChannels then Some s
        else do {
          extras2 \<leftarrow> (if hasExtras l then rd buf (sub32 (last_word l ev) lastWords) else Some 0);
          let ext = hasExtras l \<and> extrasMode l \<le> 2;
          let fine = hasExtras l \<and> extrasMode l = 2;
          let extendedTS = (if ext then unat (drop_bit 16 extras2) else 0);
          let extendedBits = (if ext then 16 else 0);
          let fineTS = (if fine then unat (extras2 AND 0x3FF) else 0);
          let fineBits = (if fine then 10 else 0);
          let flags = ExtractBits_range energyWord (fmtExtras l);
          let e = DecodedEvent_init\<lparr>
                 ev_board := w16 (unat board),
                 ev_channel := w16 channel,
                 energy := unat (energyWord AND 0x7FFF),
                 pileup := (drop_bit 15 energyWord AND 1 \<noteq> 0),
                 satu := (flags AND (kPhaSatuBit OR kPhaDoubleSatBit) \<noteq> 0),
                 lost := (flags AND kPhaLostBit \<noteq> 0),
                 timestamp := event_timestamp l extendedTS extendedBits rawTS \<rparr>;
          finish_event buf l ev e extendedBits fineTS fineBits s
        }
      })"

definition PSD_event ::
  "u32 list \<Rightarrow> u32 \<Rightarrow> nat \<Rightarrow> DataLayout \<Rightarrow> nat \<Rightarrow> DecState \<Rightarrow> nat \<Rightarrow> DecState option" where
  "PSD_event buf board couple l base s evt =
     (let ev = w32 (base + w32 (evt * evtSize l)) in do {
        timeWord \<leftarrow> (if hasTS l then rd buf ev else Some 0);
        chargeWord \<leftarrow> (if hasCharge l then rd buf (last_word l ev) else Some 0);
        let lastWords = (if hasCharge l then 1 else 0);
        let s = (if \<not> hasTS l \<or> \<not> hasCharge l then incr_incomplete s else s);
        let rawTS = unat (ExtractBits_range timeWord (fmtTS l));
        let channel = event_channel l timeWord couple;
        if channel \<ge> kMaxChannels then Some s
        else do {
          extras2 \<leftarrow> (if hasExtras l then rd buf (sub32 (last_word l ev) lastWords) else Some 0);
          let cfg = hasExtras l \<and> extrasConfig l;
          let x720 = hasExtras l \<and> \<not> extrasConfig l;
          let ext = cfg \<and> extrasMode l \<le> 2;
          let fine = cfg \<and> extrasMode l = 2;
          let flg = cfg \<and> extrasMode l = 1;
          let extendedTS = (if ext then unat (drop_bit 16 extras2)
                            else if x720 then unat (extras2 AND 0x7FFF) else 0);
          let extendedBits = (if ext then 16 else if x720 then 15 else 0);
          let fineTS = (if fine then unat (extras2 AND 0x3FF) else 0);
          let fineBits = (if fine then 10 else 0);
          let e = DecodedEvent_init\<lparr>
                 ev_board := w16 (unat board),
                 ev_channel := w16 channel,
                 qshort := unat (chargeWord AND 0x7FFF),
                 qlong := unat (drop_bit 16 chargeWord),
                 pileup := (drop_bit 15 chargeWord AND 1 \<noteq> 0),
                 satu := (flg \<and> extras2 AND kPsdOverBit \<noteq> 0),
                 lost := (flg \<and> extras2 AND kPsdLostBit \<noteq> 0),
                 timestamp := event_timestamp l extendedTS extendedBits rawTS \<rparr>;
          finish_event buf l ev e extendedBits fineTS fineBits s
        }
      })"

text \<open>
  The uninitialised-payload scan of \<open>decodePHA\<close>: the first event with a reserved bit set
  condemns the aggregate.
\<close>

fun PHA_invalid :: "u32 list \<Rightarrow> DataLayout \<Rightarrow> nat \<Rightarrow> nat list \<Rightarrow> bool option" where
  "PHA_invalid buf l base [] = Some False"
| "PHA_invalid buf l base (evt # evts) =
     (let ev = w32 (base + w32 (evt * evtSize l)) in do {
        t \<leftarrow> rd buf ev;
        if t AND resTS l \<noteq> 0 then Some True
        else do {
          w \<leftarrow> rd buf (last_word l ev);
          if w AND resEnergy l \<noteq> 0 then Some True else PHA_invalid buf l base evts
        }
      })"

section \<open>The channel aggregates of one board aggregate\<close>

definition channel_couples :: "u32 \<Rightarrow> nat list" where
  "channel_couples chmask = filter (\<lambda>b. bit chmask b) [0..<8]"

fun PHA_couples :: "u32 list \<Rightarrow> u32 \<Rightarrow> nat \<Rightarrow> nat list \<Rightarrow> nat \<Rightarrow> DecState \<Rightarrow> DecState option" where
  "PHA_couples buf board aggEnd [] pos s = Some s"
| "PHA_couples buf board aggEnd (cpl # cpls) pos s =
     (if w32 (pos + 2) > aggEnd then Some (incr_corrupt s)
      else do {
        szw \<leftarrow> rd buf pos;
        fmtw \<leftarrow> rd buf (w32 (pos + 1));
        let coupleSize = unat (ExtractBits_range szw (fSizeFormat (frame (ds_bd s))));
        let fr = fst (SetDataFormat (frame (ds_bd s)) fmtw);
        let s = s\<lparr> ds_bd := (ds_bd s)\<lparr> frame := fr \<rparr> \<rparr>;
        let l = fLayout fr;
        if coupleSize < 2 \<or> w32 (pos + coupleSize) > aggEnd \<or> evtSize l = 0
        then Some (incr_corrupt s)
        else do {
          let nEvents = (coupleSize - 2) div evtSize l;
          let base = w32 (pos + 2);
          invalid \<leftarrow> (if resTS l \<noteq> 0 \<or> resEnergy l \<noteq> 0
                     then PHA_invalid buf l base [0..<nEvents] else Some False);
          if invalid
          then PHA_couples buf board aggEnd cpls (w32 (pos + coupleSize))
                 (count_uninitialised nEvents s)
          else do {
            s \<leftarrow> foldM (PHA_event buf board cpl l base) s [0..<nEvents];
            PHA_couples buf board aggEnd cpls (w32 (pos + coupleSize)) s
          }
        }
      })"

fun PSD_couples :: "u32 list \<Rightarrow> u32 \<Rightarrow> nat \<Rightarrow> nat list \<Rightarrow> nat \<Rightarrow> DecState \<Rightarrow> DecState option" where
  "PSD_couples buf board aggEnd [] pos s = Some s"
| "PSD_couples buf board aggEnd (cpl # cpls) pos s =
     (if w32 (pos + 2) > aggEnd then Some (incr_corrupt s)
      else do {
        szw \<leftarrow> rd buf pos;
        fmtw \<leftarrow> rd buf (w32 (pos + 1));
        let coupleSize = unat (ExtractBits_range szw (fSizeFormat (frame (ds_bd s))));
        let fr = fst (SetDataFormat (frame (ds_bd s)) fmtw);
        let s = s\<lparr> ds_bd := (ds_bd s)\<lparr> frame := fr \<rparr> \<rparr>;
        let l = fLayout fr;
        if coupleSize < 2 \<or> w32 (pos + coupleSize) > aggEnd \<or> evtSize l = 0
        then Some (incr_corrupt s)
        else do {
          let nEvents = (coupleSize - 2) div evtSize l;
          let base = w32 (pos + 2);
          s \<leftarrow> foldM (PSD_event buf board cpl l base) s [0..<nEvents];
          PSD_couples buf board aggEnd cpls (w32 (pos + coupleSize)) s
        }
      })"

definition decodePHA ::
  "u32 list \<Rightarrow> u32 \<Rightarrow> u32 \<Rightarrow> nat \<Rightarrow> nat \<Rightarrow> DecState \<Rightarrow> DecState option" where
  "decodePHA buf board chmask offset aggLen s =
     PHA_couples buf board (w32 (offset + aggLen)) (channel_couples chmask)
       (w32 (offset + kAggHeaderWords)) s"

definition decodePSD ::
  "u32 list \<Rightarrow> u32 \<Rightarrow> u32 \<Rightarrow> nat \<Rightarrow> nat \<Rightarrow> DecState \<Rightarrow> DecState option" where
  "decodePSD buf board chmask offset aggLen s =
     PSD_couples buf board (w32 (offset + aggLen)) (channel_couples chmask)
       (w32 (offset + kAggHeaderWords)) s"

section \<open>The walk over a readout buffer\<close>

definition incr_boardFail :: "AggregateDecoder \<Rightarrow> AggregateDecoder" where
  "incr_boardFail d = d\<lparr> dec_counters := (dec_counters d)\<lparr> dc_boardFail := dc_boardFail (dec_counters d) + 1 \<rparr> \<rparr>"

definition incr_corrupt_agg :: "AggregateDecoder \<Rightarrow> AggregateDecoder" where
  "incr_corrupt_agg d = d\<lparr> dec_counters := (dec_counters d)\<lparr> dc_corrupt := dc_corrupt (dec_counters d) + 1 \<rparr> \<rparr>"

text \<open>One board aggregate whose header word at \<open>offset\<close> is valid and which fits the buffer.\<close>

definition decode_aggregate ::
  "u32 list \<Rightarrow> nat \<Rightarrow> nat \<Rightarrow> AggregateDecoder \<times> DecodedEvent list
     \<Rightarrow> (AggregateDecoder \<times> DecodedEvent list) option" where
  "decode_aggregate buf offset aggLen s = do {
     h \<leftarrow> rd buf (w32 (offset + 1));
     let board = drop_bit 27 (h AND 0xF8000000);
     let chmask = h AND 0xFF;
     let d = fst s;
     let d = (if drop_bit 26 h AND 1 \<noteq> 0 then incr_boardFail d else d);
     case omap_lookup (dec_boards d) board of
       None \<Rightarrow> Some (d, snd s)
     | Some bd \<Rightarrow>
         if supported bd then do {
           let ds = \<lparr> ds_bd = bd, ds_cnt = dec_counters d, ds_evs = snd s \<rparr>;
           ds \<leftarrow> (if isPHA bd then decodePHA buf board chmask offset aggLen ds
                 else decodePSD buf board chmask offset aggLen ds);
           Some (d\<lparr> dec_boards := omap_store board (ds_bd ds) (dec_boards d), dec_counters := ds_cnt ds \<rparr>,
                 ds_evs ds)
         }
         else Some (d, snd s)
   }"

partial_function (option) decode_loop ::
  "u32 list \<Rightarrow> nat \<Rightarrow> nat \<Rightarrow> AggregateDecoder \<times> DecodedEvent list
     \<Rightarrow> (AggregateDecoder \<times> DecodedEvent list) option" where
  "decode_loop buf nwords offset s =
     (if w32 (offset + kAggHeaderWords) \<le> nwords then do {
        h \<leftarrow> rd buf offset;
        if drop_bit 28 h \<noteq> 0xA then decode_loop buf nwords (w32 (offset + 1)) s
        else do {
          let aggLen = unat (h AND 0x0FFFFFFF);
          if aggLen < kAggHeaderWords
          then decode_loop buf nwords (w32 (offset + 1)) (incr_corrupt_agg (fst s), snd s)
          else if w32 (offset + aggLen) > nwords then Some s
          else do {
            s' \<leftarrow> decode_aggregate buf offset aggLen s;
            decode_loop buf nwords (w32 (offset + aggLen)) s'
          }
        }
      }
      else Some s)"

declare decode_loop.simps [code]

definition decode ::
  "AggregateDecoder \<Rightarrow> RawBlock \<Rightarrow> (AggregateDecoder \<times> DecodedEvent list) option" where
  "decode d data =
     decode_loop (words_of_bytes data) (w32 (length data div 4)) 0 (d, [])"

section \<open>Memory safety and termination\<close>

text \<open>The event loop stays inside the channel aggregate it walks.\<close>

lemma event_offset:
  assumes "evt < n" and "base + n * sz \<le> L" and "L < 2 ^ 32"
  shows "w32 (base + w32 (evt * sz)) = base + evt * sz" and "base + evt * sz + sz \<le> L"
proof -
  have "evt * sz + sz = Suc evt * sz" by simp
  also have "\<dots> \<le> n * sz" using assms(1) by (intro mult_le_mono1) simp
  finally have le: "evt * sz + sz \<le> n * sz" .
  then show "base + evt * sz + sz \<le> L" using assms(2) by linarith
  with assms(3) show "w32 (base + w32 (evt * sz)) = base + evt * sz"
    by (simp add: w32_id)
qed

lemma last_word_eq: "evtSize l > 0 \<Longrightarrow> ev + evtSize l < 2 ^ 32 \<Longrightarrow> last_word l ev = ev + evtSize l - 1"
  by (simp add: last_word_def w32_id sub32_id)

lemma layout_sizes:
  assumes "layout_ok l"
  shows "of_bool (hasTS l) + of_bool (hasEnergy l) \<le> evtSize l"
    and "of_bool (hasTS l) + of_bool (hasCharge l) \<le> evtSize l"
    and "hasExtras l \<Longrightarrow> of_bool (hasEnergy l) + 1 \<le> evtSize l"
    and "hasExtras l \<Longrightarrow> of_bool (hasCharge l) + 1 \<le> evtSize l"
    and "hasTrace l \<Longrightarrow> of_bool (hasTS l) + numSamples l div 2 \<le> evtSize l"
  using assms by (simp_all add: layout_ok_def)

lemma unpackWave_total:
  assumes "first + numSamples l div 2 \<le> length buf" and "length buf < 2 ^ 32"
  shows "\<exists>wv. unpackWave buf l first = Some wv"
  using assms by (auto simp: unpackWave_def Let_def rd_list_total)

lemma finish_event_total:
  assumes "layout_ok l" and "ev + evtSize l \<le> length buf" and "length buf < 2 ^ 32"
  shows "\<exists>s'. finish_event buf l ev e xb ft fb s = Some s'"
proof -
  have "w32 (ev + of_bool (hasTS l)) + numSamples l div 2 \<le> length buf" if "hasTrace l"
    using layout_sizes(5) [OF assms(1) that] assms(2,3) by (simp add: w32_id)
  then have "\<exists>wv. unpackWave buf l (w32 (ev + of_bool (hasTS l))) = Some wv" if "hasTrace l"
    using unpackWave_total [OF _ assms(3)] that by blast
  then show ?thesis
    by (auto simp: finish_event_def Let_def of_bool_def split: prod.splits if_splits)
qed

text \<open>An event changes the clock of the board, never its frame.\<close>

lemma setTime_frame [simp]: "frame (fst (setTime bd e w ft fb)) = frame bd"
  by (auto simp: setTime_def Let_def split: prod.splits)

lemma setTime_frameD: "setTime bd e w ft fb = (bd', e') \<Longrightarrow> frame bd' = frame bd"
  by (metis fst_conv setTime_frame)

lemma finish_event_frame:
  "finish_event buf l ev e xb ft fb s = Some s' \<Longrightarrow> frame (ds_bd s') = frame (ds_bd s)"
  by (auto simp: finish_event_def Let_def emit_def bind_eq_Some_conv
      split: prod.splits if_splits dest: setTime_frameD)

lemma incr_simps [simp]:
  "ds_bd (incr_incomplete s) = ds_bd s" "ds_bd (incr_corrupt s) = ds_bd s"
  "ds_bd (count_uninitialised n s) = ds_bd s"
  by (simp_all add: incr_incomplete_def incr_corrupt_def count_uninitialised_def)

text \<open>The three optional words of an event are inside the buffer.\<close>

lemma event_words:
  assumes "layout_ok l" "ev + evtSize l \<le> length buf" "length buf < 2 ^ 32"
  shows "\<exists>w. (if hasTS l then rd buf ev else Some 0) = Some w"
    and "\<exists>w. (if hasEnergy l then rd buf (last_word l ev) else Some 0) = Some w"
    and "\<exists>w. (if hasCharge l then rd buf (last_word l ev) else Some 0) = Some w"
    and "\<exists>w. (if hasExtras l then rd buf (sub32 (last_word l ev) (if hasEnergy l then 1 else 0))
              else Some 0) = Some w"
    and "\<exists>w. (if hasExtras l then rd buf (sub32 (last_word l ev) (if hasCharge l then 1 else 0))
              else Some 0) = Some w"
proof -
  note sz = layout_sizes [OF assms(1)]
  have lw: "evtSize l > 0 \<Longrightarrow> last_word l ev = ev + evtSize l - 1"
    using assms by (intro last_word_eq) auto
  show "\<exists>w. (if hasTS l then rd buf ev else Some 0) = Some w"
    using sz(1) assms by (auto simp: rd_def)
  show "\<exists>w. (if hasEnergy l then rd buf (last_word l ev) else Some 0) = Some w"
    using sz(1) assms lw by (auto simp: rd_def)
  show "\<exists>w. (if hasCharge l then rd buf (last_word l ev) else Some 0) = Some w"
    using sz(2) assms lw by (auto simp: rd_def)
  have x: "\<exists>w. rd buf (sub32 (last_word l ev) k) = Some w" if "k + 1 \<le> evtSize l" for k
  proof -
    have "last_word l ev = ev + evtSize l - 1" using lw that by simp
    then have "sub32 (last_word l ev) k = ev + evtSize l - 1 - k"
      using that assms by (simp add: sub32_id)
    then show ?thesis using that assms by (simp add: rd_def)
  qed
  show "\<exists>w. (if hasExtras l then rd buf (sub32 (last_word l ev) (if hasEnergy l then 1 else 0))
              else Some 0) = Some w"
    using x [of "of_bool (hasEnergy l)"] sz(3) by (auto simp: of_bool_def split: if_splits)
  show "\<exists>w. (if hasExtras l then rd buf (sub32 (last_word l ev) (if hasCharge l then 1 else 0))
              else Some 0) = Some w"
    using x [of "of_bool (hasCharge l)"] sz(4) by (auto simp: of_bool_def split: if_splits)
qed

lemma finish_event_total_frame:
  assumes "layout_ok l" and "ev + evtSize l \<le> length buf" and "length buf < 2 ^ 32"
  shows "\<exists>s'. finish_event buf l ev e xb ft fb s = Some s' \<and> frame (ds_bd s') = frame (ds_bd s)"
  using finish_event_total [OF assms] finish_event_frame by metis

lemma PHA_event_total:
  assumes "layout_ok l" "evt < n" "base + n * evtSize l \<le> length buf" "length buf < 2 ^ 32"
  shows "\<exists>s'. PHA_event buf board cpl l base s evt = Some s' \<and> frame (ds_bd s') = frame (ds_bd s)"
proof -
  note off = event_offset [OF assms(2,3,4)]
  let ?ev = "base + evt * evtSize l"
  obtain tw ew xw where w:
    "(if hasTS l then rd buf ?ev else Some 0) = Some tw"
    "(if hasEnergy l then rd buf (last_word l ?ev) else Some 0) = Some ew"
    "(if hasExtras l then rd buf (sub32 (last_word l ?ev) (if hasEnergy l then 1 else 0))
      else Some 0) = Some xw"
    using event_words [OF assms(1) off(2) assms(4)] by blast
  have fin: "\<exists>s'. finish_event buf l ?ev e xb ft fb t = Some s' \<and> frame (ds_bd s') = frame (ds_bd s)"
    if "ds_bd t = ds_bd s" for e xb ft fb t
    using finish_event_total_frame [OF assms(1) off(2) assms(4)] that by metis
  show ?thesis
    unfolding PHA_event_def Let_def off(1)
    by (rule bind_total [OF w(1)], rule bind_total [OF w(2)], rule if_total, simp,
        rule bind_total [OF w(3)], rule fin, simp)
qed

lemma PSD_event_total:
  assumes "layout_ok l" "evt < n" "base + n * evtSize l \<le> length buf" "length buf < 2 ^ 32"
  shows "\<exists>s'. PSD_event buf board cpl l base s evt = Some s' \<and> frame (ds_bd s') = frame (ds_bd s)"
proof -
  note off = event_offset [OF assms(2,3,4)]
  let ?ev = "base + evt * evtSize l"
  obtain tw cw xw where w:
    "(if hasTS l then rd buf ?ev else Some 0) = Some tw"
    "(if hasCharge l then rd buf (last_word l ?ev) else Some 0) = Some cw"
    "(if hasExtras l then rd buf (sub32 (last_word l ?ev) (if hasCharge l then 1 else 0))
      else Some 0) = Some xw"
    using event_words [OF assms(1) off(2) assms(4)] by blast
  have fin: "\<exists>s'. finish_event buf l ?ev e xb ft fb t = Some s' \<and> frame (ds_bd s') = frame (ds_bd s)"
    if "ds_bd t = ds_bd s" for e xb ft fb t
    using finish_event_total_frame [OF assms(1) off(2) assms(4)] that by metis
  show ?thesis
    unfolding PSD_event_def Let_def off(1)
    by (rule bind_total [OF w(1)], rule bind_total [OF w(2)], rule if_total, simp,
        rule bind_total [OF w(3)], rule fin, simp)
qed

lemma PHA_invalid_total:
  assumes "layout_ok l" "evtSize l > 0" "base + n * evtSize l \<le> length buf" "length buf < 2 ^ 32"
    and "set evts \<subseteq> {..<n}"
  shows "PHA_invalid buf l base evts \<noteq> None"
  using assms(5)
proof (induction evts)
  case Nil
  then show ?case by simp
next
  case (Cons evt evts)
  then have "evt < n" by simp
  note off = event_offset [OF this assms(3,4)]
  have "last_word l (base + evt * evtSize l) = base + evt * evtSize l + evtSize l - 1"
    using off(2) assms(2,4) by (intro last_word_eq) auto
  then show ?case
    using off assms(2) Cons by (auto simp: Let_def rd_def)
qed

text \<open>
  What the walk needs of a board's entry: a frame whose cached layout is current, and a size
  field of at most 31 bits, so that \<open>pos + coupleSize\<close> does not wrap inside a buffer of
  less than 8 GiB.
\<close>

definition board_ok :: "BoardDec \<Rightarrow> bool" where
  "board_ok bd \<longleftrightarrow> frame_ok (frame bd) \<and> (supported bd \<longrightarrow> RangeWidth (fSizeFormat (frame bd)) \<le> 31)"

definition walk_ok :: "DecState \<Rightarrow> bool" where
  "walk_ok s \<longleftrightarrow> frame_ok (frame (ds_bd s)) \<and> RangeWidth (fSizeFormat (frame (ds_bd s))) \<le> 31"

lemma walk_ok_cong: "frame (ds_bd s') = frame (ds_bd s) \<Longrightarrow> walk_ok s' = walk_ok s"
  by (simp add: walk_ok_def)

lemma walk_ok_set_format:
  "walk_ok s \<Longrightarrow>
     walk_ok (s\<lparr> ds_bd := (ds_bd s)\<lparr> frame := fst (SetDataFormat (frame (ds_bd s)) w) \<rparr> \<rparr>)"
  by (simp add: walk_ok_def frame_ok_SetDataFormat)

lemma coupleSize_less:
  assumes "walk_ok s"
  shows "unat (ExtractBits_range w (fSizeFormat (frame (ds_bd s)))) < 2 ^ 31"
proof -
  let ?r = "fSizeFormat (frame (ds_bd s))"
  have "unat (ExtractBits_range w ?r) < 2 ^ (snd ?r - fst ?r + 1)"
    unfolding ExtractBits_range_def by (rule ExtractBits_less)
  also have "\<dots> \<le> 2 ^ 31"
    using assms unfolding walk_ok_def RangeWidth_def by (intro power_increasing) simp_all
  finally show ?thesis .
qed

text \<open>
  The two walks are one loop over the channel aggregates, with the check for uninitialised
  payload and the event body as its parameters; the facts about the walk are proved of it.
\<close>

fun walk_couples ::
  "(DataLayout \<Rightarrow> nat \<Rightarrow> nat list \<Rightarrow> bool option) \<Rightarrow>
   (nat \<Rightarrow> DataLayout \<Rightarrow> nat \<Rightarrow> DecState \<Rightarrow> nat \<Rightarrow> DecState option) \<Rightarrow>
   u32 list \<Rightarrow> nat \<Rightarrow> nat list \<Rightarrow> nat \<Rightarrow> DecState \<Rightarrow> DecState option" where
  "walk_couples chk ev buf aggEnd [] pos s = Some s"
| "walk_couples chk ev buf aggEnd (cpl # cpls) pos s =
     (if w32 (pos + 2) > aggEnd then Some (incr_corrupt s)
      else do {
        szw \<leftarrow> rd buf pos;
        fmtw \<leftarrow> rd buf (w32 (pos + 1));
        let coupleSize = unat (ExtractBits_range szw (fSizeFormat (frame (ds_bd s))));
        let fr = fst (SetDataFormat (frame (ds_bd s)) fmtw);
        let s = s\<lparr> ds_bd := (ds_bd s)\<lparr> frame := fr \<rparr> \<rparr>;
        let l = fLayout fr;
        if coupleSize < 2 \<or> w32 (pos + coupleSize) > aggEnd \<or> evtSize l = 0
        then Some (incr_corrupt s)
        else do {
          let nEvents = (coupleSize - 2) div evtSize l;
          let base = w32 (pos + 2);
          invalid \<leftarrow> chk l base [0..<nEvents];
          if invalid
          then walk_couples chk ev buf aggEnd cpls (w32 (pos + coupleSize))
                 (count_uninitialised nEvents s)
          else do {
            s \<leftarrow> foldM (ev cpl l base) s [0..<nEvents];
            walk_couples chk ev buf aggEnd cpls (w32 (pos + coupleSize)) s
          }
        }
      })"

definition PHA_check :: "u32 list \<Rightarrow> DataLayout \<Rightarrow> nat \<Rightarrow> nat list \<Rightarrow> bool option" where
  "PHA_check buf l base evts =
     (if resTS l \<noteq> 0 \<or> resEnergy l \<noteq> 0 then PHA_invalid buf l base evts else Some False)"

lemma PHA_couples_walk:
  "PHA_couples buf board aggEnd cpls pos =
     walk_couples (PHA_check buf) (PHA_event buf board) buf aggEnd cpls pos"
proof (induction cpls arbitrary: pos)
  case (Cons cpl cpls)
  show ?case by (rule ext) (simp add: PHA_check_def Let_def Cons.IH cong: if_cong)
qed (simp add: fun_eq_iff)

lemma PSD_couples_walk:
  "PSD_couples buf board aggEnd cpls pos =
     walk_couples (\<lambda>_ _ _. Some False) (PSD_event buf board) buf aggEnd cpls pos"
proof (induction cpls arbitrary: pos)
  case (Cons cpl cpls)
  show ?case by (rule ext) (simp add: Let_def Cons.IH cong: if_cong)
qed (simp add: fun_eq_iff)

lemma foldM_events_total:
  assumes "\<And>t evt. evt \<in> set evts \<Longrightarrow>
      \<exists>t'. ev t evt = Some t' \<and> frame (ds_bd t') = frame (ds_bd t)"
    and "walk_ok s"
  shows "\<exists>s'. foldM ev s evts = Some s' \<and> walk_ok s'"
proof (rule foldM_total [where I = walk_ok])
  show "walk_ok s" by (rule assms(2))
next
  fix t evt
  assume "evt \<in> set evts" "walk_ok t"
  then show "\<exists>t'. ev t evt = Some t' \<and> walk_ok t'"
    using assms(1) walk_ok_cong by metis
qed

text \<open>
  The events that fit a channel aggregate of \<open>coupleSize\<close> words at \<open>pos\<close> are inside it.
\<close>

lemma couple_bounds:
  assumes "2 \<le> cs" "pos + cs \<le> aggEnd" "aggEnd \<le> L" "0 < (sz :: nat)"
  shows "pos + 2 + ((cs - 2) div sz) * sz \<le> L"
  using assms div_times_less_eq_dividend [of "cs - 2" sz] by linarith

lemma walk_couples_total:
  assumes agg: "aggEnd \<le> length buf" "length buf < 2 ^ 31" "pos \<le> aggEnd" "walk_ok s"
    and chk: "\<And>l base n. layout_ok l \<Longrightarrow> 0 < evtSize l \<Longrightarrow> base + n * evtSize l \<le> length buf \<Longrightarrow>
      chk l base [0..<n] \<noteq> None"
    and evt: "\<And>l base n cpl t i. layout_ok l \<Longrightarrow> i < n \<Longrightarrow> base + n * evtSize l \<le> length buf \<Longrightarrow>
      \<exists>t'. ev cpl l base t i = Some t' \<and> frame (ds_bd t') = frame (ds_bd t)"
  shows "\<exists>s'. walk_couples chk ev buf aggEnd cpls pos s = Some s' \<and> walk_ok s'"
  using agg(3,4)
proof (induction cpls arbitrary: pos s)
  case Nil
  then show ?case by simp
next
  case (Cons cpl cpls)
  let ?fr = "frame (ds_bd s)"
  have p2: "w32 (pos + 2) = pos + 2" "w32 (pos + 1) = pos + 1"
    using Cons.prems agg by (simp_all add: w32_id)
  show ?case
  proof (cases "pos + 2 > aggEnd")
    case True
    then show ?thesis
      using Cons.prems p2 by (simp add: walk_ok_def)
  next
    case False
    then have r: "rd buf pos = Some (buf ! pos)" "rd buf (pos + 1) = Some (buf ! (pos + 1))"
      using agg by simp_all
    let ?cs = "unat (ExtractBits_range (buf ! pos) (fSizeFormat ?fr))"
    let ?f = "fst (SetDataFormat ?fr (buf ! (pos + 1)))"
    let ?s = "s\<lparr> ds_bd := (ds_bd s)\<lparr> frame := ?f \<rparr> \<rparr>"
    let ?l = "fLayout ?f"
    have ws: "walk_ok ?s" using Cons.prems(2) by (rule walk_ok_set_format)
    have lo: "layout_ok ?l"
      using Cons.prems(2) by (simp add: walk_ok_def layout_ok_SetDataFormat)
    have "pos + ?cs < 2 ^ 32"
      using coupleSize_less [OF Cons.prems(2), of "buf ! pos"] Cons.prems(1) agg by simp
    then have cs: "w32 (pos + ?cs) = pos + ?cs" by (rule w32_id)
    show ?thesis
    proof (cases "?cs < 2 \<or> pos + ?cs > aggEnd \<or> evtSize ?l = 0")
      case True
      then show ?thesis
        unfolding walk_couples.simps p2 r Let_def bind.bind_lunit cs
        using ws False by (simp add: walk_ok_def)
    next
      case ok: False
      let ?n = "(?cs - 2) div evtSize ?l"
      have b: "pos + 2 + ?n * evtSize ?l \<le> length buf"
        using ok agg(1) by (intro couple_bounds) auto
      obtain i where i: "chk ?l (pos + 2) [0..<?n] = Some i"
        using chk [OF lo _ b] ok by auto
      obtain s' where s': "foldM (ev cpl ?l (pos + 2)) ?s [0..<?n] = Some s'" "walk_ok s'"
        using foldM_events_total [of "[0..<?n]" "ev cpl ?l (pos + 2)" ?s] evt [OF lo _ b] ws
        by auto
      have IH: "\<exists>s''. walk_couples chk ev buf aggEnd cpls (pos + ?cs) t = Some s'' \<and> walk_ok s''"
        if "walk_ok t" for t
        using ok that by (intro Cons.IH) auto
      have "walk_ok (count_uninitialised ?n ?s)" using ws by (simp add: walk_ok_def)
      then show ?thesis
        unfolding walk_couples.simps p2 r Let_def bind.bind_lunit cs i
        using ok False s' IH by simp
    qed
  qed
qed

lemma PHA_check_total:
  assumes "layout_ok l" "0 < evtSize l" "base + n * evtSize l \<le> length buf" "length buf < 2 ^ 32"
  shows "PHA_check buf l base [0..<n] \<noteq> None"
  using PHA_invalid_total [OF assms, of "[0..<n]"] by (simp add: PHA_check_def atLeast0LessThan del: not_None_eq)

lemma decodePHA_total:
  assumes "offset + aggLen \<le> length buf" "length buf < 2 ^ 31" "4 \<le> aggLen" "walk_ok s"
  shows "\<exists>s'. decodePHA buf board m offset aggLen s = Some s' \<and> walk_ok s'"
proof -
  have "w32 (offset + aggLen) = offset + aggLen" "w32 (offset + 4) = offset + 4"
    using assms by (simp_all add: w32_id)
  then show ?thesis
    unfolding decodePHA_def PHA_couples_walk kAggHeaderWords_def
    using assms by (intro walk_couples_total PHA_check_total) (auto intro!: PHA_event_total)
qed

lemma decodePSD_total:
  assumes "offset + aggLen \<le> length buf" "length buf < 2 ^ 31" "4 \<le> aggLen" "walk_ok s"
  shows "\<exists>s'. decodePSD buf board m offset aggLen s = Some s' \<and> walk_ok s'"
proof -
  have "w32 (offset + aggLen) = offset + aggLen" "w32 (offset + 4) = offset + 4"
    using assms by (simp_all add: w32_id)
  then show ?thesis
    unfolding decodePSD_def PSD_couples_walk kAggHeaderWords_def
    using assms by (intro walk_couples_total) (auto intro!: PSD_event_total)
qed

text \<open>The decoder's invariant: sorted board map, every registered board fit for the walk.\<close>

definition decoder_ok :: "AggregateDecoder \<Rightarrow> bool" where
  "decoder_ok d \<longleftrightarrow> omap_ok (dec_boards d) \<and>
     (\<forall>b bd. omap_lookup (dec_boards d) b = Some bd \<longrightarrow> board_ok bd)"

lemma decoder_ok_init [inv_intros]: "decoder_ok AggregateDecoder_init"
  by (simp add: decoder_ok_def AggregateDecoder_init_def)

lemma RangeWidth_Size_new:
  assumes "IsSupported (Build (DataFrame_new (toCaenDpp dpp) n))"
  shows "RangeWidth (fSizeFormat (Build (DataFrame_new (toCaenDpp dpp) n))) \<le> 31"
  using assms
  by (auto simp: toCaenDpp_def Build_def DataFrame_new_def Let_def Format_def IsSupported_def
      PHA_ProduceFormats_def PSD_ProduceFormats_def RangeWidth_def
      split: if_splits)

lemma decoder_ok_registerBoard [inv_intros]:
  assumes "decoder_ok d"
  shows "decoder_ok (registerBoard r dpp n ps d)"
proof -
  have "fFormatSet (DataFrame_new (toCaenDpp dpp) n) = False"
    by (simp add: DataFrame_new_def)
  then have "frame_ok (Build (DataFrame_new (toCaenDpp dpp) n))"
    by (rule frame_ok_Build)
  then show ?thesis
    using assms RangeWidth_Size_new [of dpp n]
    by (auto simp: decoder_ok_def registerBoard_def Let_def board_ok_def)
qed

lemma decoder_ok_counters [simp]: "decoder_ok (d\<lparr> dec_counters := c \<rparr>) = decoder_ok d"
  by (simp add: decoder_ok_def)

lemma decoder_ok_incr [simp]:
  "decoder_ok (incr_boardFail d) = decoder_ok d" "decoder_ok (incr_corrupt_agg d) = decoder_ok d"
  by (simp_all add: incr_boardFail_def incr_corrupt_agg_def)

lemma decoder_ok_store:
  "decoder_ok d \<Longrightarrow> board_ok bd \<Longrightarrow> decoder_ok (d\<lparr> dec_boards := omap_store b bd (dec_boards d) \<rparr>)"
  by (auto simp: decoder_ok_def)

lemma decode_aggregate_total:
  assumes "offset + aggLen \<le> length buf" "length buf < 2 ^ 31" "4 \<le> aggLen" "decoder_ok (fst s)"
  shows "\<exists>s'. decode_aggregate buf offset aggLen s = Some s' \<and> decoder_ok (fst s')"
proof -
  have o: "w32 (offset + 1) = offset + 1" and r: "offset + 1 < length buf"
    using assms by (simp_all add: w32_id)
  let ?h = "buf ! (offset + 1)"
  let ?board = "drop_bit 27 (?h AND 0xF8000000)"
  let ?d = "if drop_bit 26 ?h AND 1 \<noteq> 0 then incr_boardFail (fst s) else fst s"
  have d: "decoder_ok ?d" using assms(4) by simp
  show ?thesis
  proof (cases "omap_lookup (dec_boards ?d) ?board")
    case None
    then show ?thesis
      unfolding decode_aggregate_def o rd_Some [OF r] bind.bind_lunit Let_def
      using d by simp
  next
    case (Some bd)
    show ?thesis
    proof (cases "supported bd")
      case False
      with Some show ?thesis
        unfolding decode_aggregate_def o rd_Some [OF r] bind.bind_lunit Let_def
        using d by simp
    next
      case True
      let ?ds = "\<lparr> ds_bd = bd, ds_cnt = dec_counters ?d, ds_evs = snd s \<rparr>"
      have bd: "board_ok bd" using d Some by (auto simp: decoder_ok_def)
      then have w: "walk_ok ?ds" using True by (simp add: walk_ok_def board_ok_def)
      let ?m = "?h AND 0xFF"
      obtain ds where ds: "(if isPHA bd then decodePHA buf ?board ?m offset aggLen ?ds
                 else decodePSD buf ?board ?m offset aggLen ?ds) = Some ds" "walk_ok ds"
        using decodePHA_total [OF assms(1,2,3) w] decodePSD_total [OF assms(1,2,3) w] by metis
      have "board_ok (ds_bd ds)" using ds(2) by (simp add: walk_ok_def board_ok_def)
      then have "decoder_ok (?d\<lparr> dec_boards := omap_store ?board (ds_bd ds) (dec_boards ?d) \<rparr>)"
        by (rule decoder_ok_store [OF d])
      then have "decoder_ok (?d\<lparr> dec_boards := omap_store ?board (ds_bd ds) (dec_boards ?d),
          dec_counters := ds_cnt ds \<rparr>)" by simp
      then show ?thesis
        unfolding decode_aggregate_def o rd_Some [OF r] bind.bind_lunit Let_def
        using Some True ds(1) by simp
    qed
  qed
qed

text \<open>
  The rule for the walk: it returns, keeps the invariant, and carries any property of the
  state and the emitted events that the single steps keep.
\<close>

lemma decode_loop_rule:
  assumes buf: "length buf < 2 ^ 31"
    and agg: "\<And>t o' n t'. I t \<Longrightarrow> decoder_ok (fst t) \<Longrightarrow> o' + n \<le> length buf \<Longrightarrow> 4 \<le> n \<Longrightarrow>
        decode_aggregate buf o' n t = Some t' \<Longrightarrow> I t'"
    and bad: "\<And>t. I t \<Longrightarrow> I (incr_corrupt_agg (fst t), snd t)"
    and start: "decoder_ok (fst s)" "offset \<le> length buf" "I s"
  shows "\<exists>s'. decode_loop buf (length buf) offset s = Some s' \<and> decoder_ok (fst s') \<and> I s'"
  using start
proof (induction "length buf - offset" arbitrary: offset s rule: less_induct)
  case less
  show ?case
  proof (cases "offset + 4 \<le> length buf")
    case False
    then have "\<not> w32 (offset + kAggHeaderWords) \<le> length buf"
      using buf less.prems by (simp add: w32_id kAggHeaderWords_def)
    then show ?thesis using less.prems by (simp add: decode_loop.simps)
  next
    case True
    let ?h = "buf ! offset"
    let ?n = "unat (?h AND 0x0FFFFFFF)"
    have w: "w32 (offset + kAggHeaderWords) \<le> length buf" "w32 (offset + 1) = offset + 1"
      using buf True by (simp_all add: w32_id kAggHeaderWords_def)
    have step: "\<exists>s'. decode_loop buf (length buf) o' t = Some s' \<and> decoder_ok (fst s') \<and> I s'"
      if "decoder_ok (fst t)" "offset < o'" "o' \<le> length buf" "I t" for o' t
      using that by (intro less.hyps) auto
    have "?n < 2 ^ 28"
      using unat_and_mask_less [of "?h" 28] by (simp add: push_bit_eq_mult)
    then have a: "w32 (offset + ?n) = offset + ?n"
      using buf True by (simp add: w32_id)
    consider "drop_bit 28 ?h \<noteq> 0xA" | "drop_bit 28 ?h = 0xA" "?n < 4"
      | "drop_bit 28 ?h = 0xA" "4 \<le> ?n" "offset + ?n > length buf"
      | "drop_bit 28 ?h = 0xA" "4 \<le> ?n" "offset + ?n \<le> length buf" by linarith
    then show ?thesis
    proof cases
      case 1
      then show ?thesis
        using True w step [of s "offset + 1"] less.prems
        by (subst decode_loop.simps) (simp add: kAggHeaderWords_def)
    next
      case 2
      then show ?thesis
        using True w step [of "(incr_corrupt_agg (fst s), snd s)" "offset + 1"] less.prems bad
        by (subst decode_loop.simps) (simp add: kAggHeaderWords_def)
    next
      case 3
      then show ?thesis
        using True w less.prems by (subst decode_loop.simps) (simp add: a kAggHeaderWords_def)
    next
      case 4
      obtain s' where s': "decode_aggregate buf offset ?n s = Some s'" "decoder_ok (fst s')"
        using decode_aggregate_total [OF 4(3) buf 4(2) less.prems(1)] by blast
      then show ?thesis
        using 4 True w step [of s' "offset + ?n"] agg less.prems
        by (subst decode_loop.simps) (simp add: a kAggHeaderWords_def)
    qed
  qed
qed

lemma decode_rule:
  assumes "length data < 2 ^ 33" and "decoder_ok d" and "I (d, [])"
    and "\<And>t o' n t'. I t \<Longrightarrow> decoder_ok (fst t) \<Longrightarrow> 4 \<le> n \<Longrightarrow>
        decode_aggregate (words_of_bytes data) o' n t = Some t' \<Longrightarrow> I t'"
    and "\<And>t. I t \<Longrightarrow> I (incr_corrupt_agg (fst t), snd t)"
  shows "\<exists>s'. decode d data = Some s' \<and> decoder_ok (fst s') \<and> I s'"
proof -
  have n: "length (words_of_bytes data) < 2 ^ 31"
    using assms(1) by (simp add: length_words_of_bytes)
  then have "w32 (length data div 4) = length (words_of_bytes data)"
    by (simp add: length_words_of_bytes w32_id)
  then show ?thesis
    unfolding decode_def
    using decode_loop_rule [of "words_of_bytes data" I "(d, [])" 0] n assms by auto
qed

end
