(* ===== verification/Decoder_Clock.thy ===== *)
theory Decoder_Clock
  imports Aggregate_Decoder
begin

text \<open>
  The time-stamp unwrapping of \<open>AggregateDecoder::unwrap\<close>: as long as an event is less than
  half a wrap away from where the board's clock already is, the raw counter is placed at
  its true time, whatever the order of the events and however many wraps have passed.
\<close>

section \<open>Choosing the nearest epoch\<close>

definition epoch_dist :: "nat \<Rightarrow> nat \<Rightarrow> nat \<Rightarrow> nat \<Rightarrow> nat" where
  "epoch_dist raw rng ref cand =
     (let f = w64 (raw + w64 (cand * rng)) in if f > ref then f - ref else ref - f)"

lemma unwrap_pick_dist:
  "unwrap_pick raw rng ref bd cand =
     (if epoch_dist raw rng ref cand < snd bd then (cand, epoch_dist raw rng ref cand) else bd)"
  by (simp add: unwrap_pick_def epoch_dist_def Let_def)

lemma foldl_unwrap_pick:
  assumes "\<And>c. c \<in> set cs \<Longrightarrow> c \<noteq> k \<Longrightarrow> epoch_dist raw rng ref k < epoch_dist raw rng ref c"
    and "bd = (k, epoch_dist raw rng ref k) \<or> k \<in> set cs \<and> epoch_dist raw rng ref k < snd bd"
  shows "fst (foldl (unwrap_pick raw rng ref) bd cs) = k"
  using assms
proof (induction cs arbitrary: bd)
  case Nil
  then show ?case by auto
next
  case (Cons c cs)
  let ?bd = "unwrap_pick raw rng ref bd c"
  have "?bd = (k, epoch_dist raw rng ref k) \<or> k \<in> set cs \<and> epoch_dist raw rng ref k < snd ?bd"
    using Cons.prems(1) [of c] Cons.prems(2) by (cases "c = k") (auto simp: unwrap_pick_dist)
  then show ?case
    using Cons.IH [of ?bd] Cons.prems(1) by auto
qed

text \<open>Without wrap-around, the distance is the plain one.\<close>

lemma epoch_dist_plain:
  "raw + cand * rng < 2 ^ 64 \<Longrightarrow>
     epoch_dist raw rng ref cand = nat \<bar>int (raw + cand * rng) - int ref\<bar>"
  by (cases "ref < raw + cand * rng")
     (simp_all add: epoch_dist_def Let_def w64_id nat_abs_int_diff
        del: of_nat_add of_nat_mult)

text \<open>
  Two times a whole number of wraps apart: at most one of them is within half a wrap of the
  reference.
\<close>

lemma nearest_epoch:
  fixes t ref rng h c :: nat
  assumes "rng = 2 * h" and near: "\<bar>int t - int ref\<bar> < int h" and "c \<noteq> t div rng"
  shows "\<bar>int t - int ref\<bar> < \<bar>int (t mod rng + c * rng) - int ref\<bar>"
proof -
  define j where "j = int c - int (t div rng)"
  have "int (t mod rng + c * rng) = int t + j * int rng"
    unfolding j_def using div_mult_mod_eq [of t rng]
    by (simp add: algebra_simps flip: of_nat_mult of_nat_add)
  moreover consider "j \<le> -1" | "1 \<le> j" using assms(3) by (fastforce simp: j_def)
  then have "int rng \<le> j * int rng \<or> j * int rng \<le> - int rng"
  proof cases
    case 1
    then show ?thesis using mult_right_mono [of j "-1" "int rng"] by simp
  next
    case 2
    then show ?thesis using mult_right_mono [of 1 j "int rng"] by simp
  qed
  ultimately show ?thesis using near assms(1) by linarith
qed

lemma epoch_close:
  fixes t ref rng h :: nat
  assumes "rng = 2 * h" and "\<bar>int t - int ref\<bar> < int h"
  shows "t div rng \<le> ref div rng + 1" and "ref div rng \<le> t div rng + 1"
proof -
  have "t \<le> ref + rng" and "ref \<le> t + rng" using assms by auto
  then have "t div rng \<le> (ref + rng) div rng" and "ref div rng \<le> (t + rng) div rng"
    by (auto intro: div_le_mono)
  moreover have "rng > 0" using assms by auto
  ultimately show "t div rng \<le> ref div rng + 1" and "ref div rng \<le> t div rng + 1"
    by simp_all
qed

section \<open>One event\<close>

definition clock_ok :: "nat \<Rightarrow> ChannelClock \<Rightarrow> bool" where
  "clock_ok width c \<longleftrightarrow> epoch c = reference c div 2 ^ width"

lemma clock_ok_init: "clock_ok width ChannelClock_init"
  by (simp add: clock_ok_def ChannelClock_init_def)

lemma unwrap_near:
  assumes w: "0 < width" "width < 64" and ok: "clock_ok width c" and s: "seen c"
    and near: "\<bar>int t - int (reference c)\<bar> < 2 ^ (width - 1)"
    and room: "t + 2 ^ (width + 2) < 2 ^ 64"
  shows "unwrap c (t mod 2 ^ width) width =
           (t, c\<lparr> epoch := max (epoch c) (t div 2 ^ width), reference := max (reference c) t \<rparr>)"
proof -
  define rng :: nat where "rng = 2 ^ width"
  define h :: nat where "h = 2 ^ (width - 1)"
  have rh: "rng = 2 * h" using w by (cases width) (auto simp: rng_def h_def)
  have nr: "\<bar>int t - int (reference c)\<bar> < int h" using near by (simp add: h_def)
  let ?e = "epoch c" and ?k = "t div rng" and ?raw = "t mod rng"
  have e: "?e = reference c div rng" using ok by (simp add: clock_ok_def rng_def)
  have close: "?k \<le> ?e + 1" "?e \<le> ?k + 1" using epoch_close [OF rh nr] e by simp_all
  have t: "?raw + ?k * rng = t" by simp
  have "rng > 0" by (simp add: rng_def)
  have room': "t + 4 * rng < 2 ^ 64" using room by (simp add: rng_def algebra_simps)
  have "?k + 4 \<le> t + 4 * rng"
    by (rule add_le_mono [OF div_le_dividend]) (use \<open>rng > 0\<close> in simp)
  then have we: "w64 (?e + 1) = ?e + 1" using close room' by (intro w64_id) linarith
  let ?low = "if ?e > 0 then ?e - 1 else 0"
  let ?cs = "[?low ..< ?e + 2]"
  have mem: "?k \<in> set ?cs" using close by auto
  have fits: "?raw + c' * rng < 2 ^ 64" if "c' \<in> set ?cs" for c'
  proof -
    have "c' \<le> ?k + 2" using that close by auto
    then have "c' * rng \<le> ?k * rng + 2 * rng" by (metis add_mult_distrib mult_le_mono1)
    then show ?thesis using t room' by linarith
  qed
  note ed = epoch_dist_plain [OF fits]
  have edk: "epoch_dist ?raw rng (reference c) ?k = nat \<bar>int t - int (reference c)\<bar>"
    using ed [OF mem] by (simp only: t)
  have pick: "fst (foldl (unwrap_pick ?raw rng (reference c)) (?e, 2 ^ 64 - 1) ?cs) = ?k"
  proof (rule foldl_unwrap_pick)
    fix c' assume "c' \<in> set ?cs" "c' \<noteq> ?k"
    then show "epoch_dist ?raw rng (reference c) ?k < epoch_dist ?raw rng (reference c) c'"
      unfolding edk ed [OF \<open>c' \<in> set ?cs\<close>]
      using nearest_epoch [OF rh nr, of c'] by (intro nat_less_eq_zless [THEN iffD2]) simp_all
  next
    have "h < 2 ^ 64 - 1" using rh room' \<open>rng > 0\<close> by linarith
    then have "epoch_dist ?raw rng (reference c) ?k < 2 ^ 64 - 1"
      unfolding edk using nr by linarith
    then show "(?e, 2 ^ 64 - 1) = (?k, epoch_dist ?raw rng (reference c) ?k) \<or>
        ?k \<in> set ?cs \<and> epoch_dist ?raw rng (reference c) ?k < snd (?e, 2 ^ 64 - 1)"
      using mem by simp
  qed
  have full: "w64 (?raw + w64 (?k * rng)) = t"
    using t room' by (metis add_lessD1 add.commute w64_id)
  have r: "(if 64 \<le> width then 0 else rng) = rng" using w by simp
  have cs: "(if seen c then [?low ..< w64 (?e + 1) + 1] else []) = ?cs"
    unfolding we using s by simp
  have c: "c\<lparr> seen := True \<rparr> = c" using s by (cases c) simp
  show ?thesis
    unfolding unwrap_def Let_def rng_def [symmetric] r cs pick full
    using \<open>rng > 0\<close> s c by (auto simp: max_def)
qed

text \<open>The first event of a run has no reference yet: it is taken to be in epoch 0.\<close>

lemma unwrap_first:
  assumes "0 < width" "width < 64" "t < 2 ^ width" "\<not> seen c" "epoch c = 0" "reference c \<le> t"
  shows "unwrap c t width = (t, c\<lparr> reference := t, seen := True \<rparr>)"
proof -
  have "(2 :: nat) ^ width < 2 ^ 64" using assms(2) by (intro power_strict_increasing) simp_all
  then have "w64 t = t" using assms(3) by (intro w64_id) linarith
  moreover have "reference c = t" if "\<not> reference c < t" using that assms(6) by simp
  ultimately show ?thesis
    using assms by (cases c) (auto simp: unwrap_def Let_def w64_def)
qed

lemma clock_ok_near:
  "clock_ok width c \<Longrightarrow>
     clock_ok width (c\<lparr> epoch := max (epoch c) (t div 2 ^ width), reference := max (reference c) t \<rparr>)"
  using div_le_mono [of "reference c" t "2 ^ width"] div_le_mono [of t "reference c" "2 ^ width"]
  by (auto simp: clock_ok_def max_def)

section \<open>A sequence of events\<close>

text \<open>The times a board's clock gives to a sequence of raw counter values.\<close>

fun unwrap_run :: "ChannelClock \<Rightarrow> nat list \<Rightarrow> nat \<Rightarrow> nat list" where
  "unwrap_run c [] width = []"
| "unwrap_run c (raw # raws) width =
     (let (t, c') = unwrap c raw width in t # unwrap_run c' raws width)"

text \<open>
  Times each less than half a wrap from the latest one so far: out of order by less than half
  a wrap, or ahead by less than half a wrap.
\<close>

fun half_wrap_apart :: "nat \<Rightarrow> nat \<Rightarrow> nat list \<Rightarrow> bool" where
  "half_wrap_apart width ref [] = True"
| "half_wrap_apart width ref (t # ts) =
     (\<bar>int t - int ref\<bar> < 2 ^ (width - 1) \<and> t + 2 ^ (width + 2) < 2 ^ 64 \<and>
      half_wrap_apart width (max ref t) ts)"

lemma unwrap_run_near:
  assumes "0 < width" "width < 64" "clock_ok width c" "seen c"
    and "half_wrap_apart width (reference c) ts"
  shows "unwrap_run c (map (\<lambda>t. t mod 2 ^ width) ts) width = ts"
  using assms(3-5)
proof (induction ts arbitrary: c)
  case Nil
  then show ?case by simp
next
  case (Cons t ts)
  let ?c = "c\<lparr> epoch := max (epoch c) (t div 2 ^ width), reference := max (reference c) t \<rparr>"
  have "unwrap c (t mod 2 ^ width) width = (t, ?c)"
    using Cons.prems assms(1,2) by (intro unwrap_near) auto
  moreover have "unwrap_run ?c (map (\<lambda>t. t mod 2 ^ width) ts) width = ts"
    using Cons.prems by (intro Cons.IH clock_ok_near) auto
  ultimately show ?case by simp
qed

section \<open>Properties\<close>

text \<open>
  C4. The decoder places every event of a board at its true time: whatever the width of the
  counter, if the first event falls in the first wrap and each later event is less than half
  a wrap away from the latest time seen so far, then the sequence of unwrapped times is the
  sequence of true times, of which only the value modulo the wrap was transmitted. Events may
  arrive out of order, and any number of wraps may pass.
\<close>

theorem unwrap_recovers_true_times:
  assumes "0 < width" and "width < 62" and "t0 < 2 ^ width"
    and "half_wrap_apart width t0 ts"
  shows "unwrap_run ChannelClock_init (map (\<lambda>t. t mod 2 ^ width) (t0 # ts)) width = t0 # ts"
proof -
  let ?c = "ChannelClock_init\<lparr> reference := t0, seen := True \<rparr>"
  have "unwrap ChannelClock_init t0 width = (t0, ?c)"
    using assms by (intro unwrap_first) (simp_all add: ChannelClock_init_def)
  moreover have "clock_ok width ?c"
    using assms(3) by (simp add: clock_ok_def ChannelClock_init_def)
  then have "unwrap_run ?c (map (\<lambda>t. t mod 2 ^ width) ts) width = ts"
    using assms by (intro unwrap_run_near) (simp_all add: ChannelClock_init_def)
  ultimately show ?thesis using assms(3) by simp
qed

theorem unwrap_recovers_true_times_witness:
  "unwrap_run ChannelClock_init
     (map (\<lambda>t. t mod 2 ^ 4) [14, 17, 15, 24, 31, 33]) 4 = [14, 17, 15, 24, 31, 33]"
  by (rule unwrap_recovers_true_times) simp_all

text \<open>
  C5. The reference clock of a board never runs backwards: processing an event, in or out of
  order, never lowers the latest time seen nor the epoch, and raises the epoch by at most one.
\<close>

theorem unwrap_monotone:
  "let (t, c') = unwrap c raw width in
     reference c \<le> reference c' \<and> epoch c \<le> epoch c' \<and> epoch c' \<le> epoch c + 1 \<and>
     t \<le> reference c' \<and> seen c'"
proof -
  have pick: "fst (foldl (unwrap_pick raw rng ref) bd cs) \<in> insert (fst bd) (set cs)" for rng ref bd cs
    by (induction cs arbitrary: bd) (force simp: unwrap_pick_def Let_def)+
  let ?low = "if epoch c > 0 then epoch c - 1 else 0"
  let ?cs = "if seen c then [?low ..< w64 (epoch c + 1) + 1] else []"
  let ?best = "fst (foldl (unwrap_pick raw (2 ^ width) (reference c)) (epoch c, 2 ^ 64 - 1) ?cs)"
  have "w64 (epoch c + 1) \<le> epoch c + 1" by (simp add: w64_def)
  then have "?best \<le> epoch c + 1"
    using pick [of "2 ^ width" "reference c" "(epoch c, 2 ^ 64 - 1)" ?cs] by (auto split: if_splits)
  then show ?thesis
    by (auto simp: unwrap_def Let_def)
qed

end
