(* ===== verification/Decoder_Props.thy ===== *)
theory Decoder_Props
  imports Aggregate_Decoder
begin

text \<open>
  What \<open>AggregateDecoder::decode\<close> promises its callers: it returns for every buffer, never
  reads outside it, and emits only events whose fields are in the ranges the histograms and
  the hit tap rely on; words that do not start an aggregate are skipped.
\<close>

section \<open>Field ranges of emitted events\<close>

definition event_ok :: "DecodedEvent \<Rightarrow> bool" where
  "event_ok e \<longleftrightarrow> ev_board e < 32 \<and> ev_channel e < 16 \<and> energy e < 2 ^ 15 \<and>
     qshort e < 2 ^ 15 \<and> qlong e < 2 ^ 16 \<and> timestamp e < 2 ^ 64 \<and> length (wave e) < 2 ^ 16"

lemma or_nat_less: "(x :: nat) < 2 ^ n \<Longrightarrow> y < 2 ^ n \<Longrightarrow> x OR y < 2 ^ n"
  by (metis take_bit_nat_eq_self_iff take_bit_or)

lemma event_timestamp_less:
  assumes "raw < 2 ^ 32"
  shows "event_timestamp l xts xb raw < 2 ^ 64"
proof -
  have "raw < 2 ^ 64" by (rule order.strict_trans2 [OF assms]) simp
  moreover have "w64 (push_bit (tsBits l) xts) < 2 ^ 64" by (simp add: w64_def)
  ultimately show ?thesis by (simp add: event_timestamp_def or_nat_less [of _ 64, simplified])
qed

lemma unat_less_32: "unat (w :: u32) < 2 ^ 32"
  by simp

lemma energy_field: "unat ((w :: u32) AND 0x7FFF) < 2 ^ 15"
  using unat_and_mask_less [of w 15] by (simp add: push_bit_eq_mult)

lemma qlong_field: "unat (drop_bit 16 (w :: u32)) < 2 ^ 16"
proof -
  have "unat (drop_bit 16 w) = unat w div 2 ^ 16"
    unfolding unsigned_drop_bit_eq by (simp add: take_bit_eq_mod drop_bit_eq_div)
  then show ?thesis using unat_less_32 [of w] by (simp add: less_mult_imp_div_less)
qed

lemma unpackWave_length:
  assumes "layout_ok l" and "unpackWave buf l first = Some wv"
  shows "length wv < 2 ^ 16"
proof -
  have len: "rd_list buf i n = Some ws \<Longrightarrow> length ws = n" for i n ws
    by (induction n arbitrary: i ws) (auto simp: bind_eq_Some_conv)
  have cc: "length (concat (map (\<lambda>w. [f w, g w]) ws)) = 2 * length ws" for f g and ws :: "u32 list"
    by (induction ws) auto
  show ?thesis
    using assms by (auto simp: unpackWave_def Let_def bind_eq_Some_conv cc layout_ok_def
        dest!: len split: if_splits)
qed

lemma setTime_fields:
  "\<exists>t. snd (setTime bd e w ft fb) = e\<lparr> timePs := t \<rparr>"
proof (cases "psPerTick bd = 0")
  case True
  then have "snd (setTime bd e w ft fb) = e\<lparr> timePs := timePs e \<rparr>"
    by (simp add: setTime_def Let_def split: prod.splits)
  then show ?thesis ..
next
  case False
  then show ?thesis by (auto simp: setTime_def Let_def split: prod.splits)
qed

text \<open>Either the event is discarded, or exactly one event is appended, within its ranges.\<close>

definition event_step :: "DecState \<Rightarrow> DecState \<Rightarrow> bool" where
  "event_step s s' \<longleftrightarrow> frame (ds_bd s') = frame (ds_bd s) \<and>
     (ds_evs s' = ds_evs s \<or> (\<exists>e. ds_evs s' = ds_evs s @ [e] \<and> event_ok e))"

lemma finish_event_step:
  assumes l: "layout_ok l" and e: "event_ok e" "wave e = []"
    and fin: "finish_event buf l ev e xb ft fb s = Some s'"
  shows "event_step s s'"
proof -
  let ?be = "if hasTS l then setTime (ds_bd s) e (tsBits l + xb) ft fb else (ds_bd s, e)"
  have "e = e\<lparr> timePs := timePs e \<rparr>" by simp
  then obtain t where t: "snd ?be = e\<lparr> timePs := t \<rparr>"
    using setTime_fields [of "ds_bd s" e "tsBits l + xb" ft fb] by (metis snd_conv)
  from fin obtain wv where wv: "(if hasTrace l then unpackWave buf l
        (w32 (ev + (if hasTS l then 1 else 0))) else Some []) = Some wv"
      and s': "s' = emit (snd ?be\<lparr> wave := wv \<rparr>) (s\<lparr> ds_bd := fst ?be \<rparr>)"
    by (auto simp: finish_event_def Let_def bind_eq_Some_conv case_prod_beta)
  have "length wv < 2 ^ 16"
    using wv unpackWave_length [OF l] by (auto split: if_splits)
  then have "event_ok (e\<lparr> timePs := t, wave := wv \<rparr>)" using e by (simp add: event_ok_def)
  then show ?thesis
    using finish_event_frame [OF fin] by (auto simp: event_step_def s' emit_def t)
qed

lemma event_step_incr [simp]: "event_step s (incr_incomplete s)"
  by (simp add: event_step_def incr_incomplete_def)

lemma event_step_refl [simp]: "event_step s s"
  by (simp add: event_step_def)

lemma event_step_incr_trans: "event_step (incr_incomplete s) s' \<Longrightarrow> event_step s s'"
  by (simp add: event_step_def incr_incomplete_def)

lemma kMaxChannels_16: "(c \<ge> kMaxChannels) = (16 \<le> c)"
  by (simp add: kMaxChannels_def)

lemma event_step_emit:
  assumes l: "layout_ok l" and s: "s = s0 \<or> s = incr_incomplete s0"
    and e: "event_ok e" "wave e = []"
    and fin: "finish_event buf l ev e xb ft fb s = Some s'"
  shows "event_step s0 s'"
  using finish_event_step [OF l e fin] s event_step_incr_trans by auto

lemmas event_fields = event_ok_def DecodedEvent_init_def w16_id not_le

lemma PHA_event_step:
  assumes l: "layout_ok l" and b: "unat board < 32"
    and ev: "PHA_event buf board cpl l base s i = Some s'"
  shows "event_step s s'"
  using ev unfolding PHA_event_def Let_def kMaxChannels_16
proof (elim bind_SomeE guard_SomeE)
  fix tw ew xw :: u32
  assume c: "\<not> 16 \<le> event_channel l tw cpl"
  have raw: "unat (ExtractBits_range tw (fmtTS l)) < 2 ^ 32" by simp
  assume "finish_event buf l (w32 (base + w32 (i * evtSize l)))
      (DecodedEvent_init\<lparr> ev_board := w16 (unat board), ev_channel := w16 (event_channel l tw cpl),
        energy := unat (ew AND 0x7FFF), pileup := (drop_bit 15 ew AND 1 \<noteq> 0),
        satu := (ExtractBits_range ew (fmtExtras l) AND (kPhaSatuBit OR kPhaDoubleSatBit) \<noteq> 0),
        lost := (ExtractBits_range ew (fmtExtras l) AND kPhaLostBit \<noteq> 0),
        timestamp := event_timestamp l
          (if hasExtras l \<and> extrasMode l \<le> 2 then unat (drop_bit 16 xw) else 0)
          (if hasExtras l \<and> extrasMode l \<le> 2 then 16 else 0)
          (unat (ExtractBits_range tw (fmtTS l))) \<rparr>)
      (if hasExtras l \<and> extrasMode l \<le> 2 then 16 else 0)
      (if hasExtras l \<and> extrasMode l = 2 then unat (xw AND 0x3FF) else 0)
      (if hasExtras l \<and> extrasMode l = 2 then 10 else 0)
      (if \<not> hasTS l \<or> \<not> hasEnergy l then incr_incomplete s else s) = Some s'"
  then show ?thesis
    by (rule event_step_emit [OF l, rotated 3])
       (use b c energy_field [of ew] event_timestamp_less [OF raw] in
         \<open>simp_all add: event_fields\<close>)
qed auto

lemma PSD_event_step:
  assumes l: "layout_ok l" and b: "unat board < 32"
    and ev: "PSD_event buf board cpl l base s i = Some s'"
  shows "event_step s s'"
  using ev unfolding PSD_event_def Let_def kMaxChannels_16
proof (elim bind_SomeE guard_SomeE)
  fix tw cw xw :: u32
  let ?xb = "if (hasExtras l \<and> extrasConfig l) \<and> extrasMode l \<le> 2 then 16
             else if hasExtras l \<and> \<not> extrasConfig l then 15 else 0"
  assume c: "\<not> 16 \<le> event_channel l tw cpl"
  have raw: "unat (ExtractBits_range tw (fmtTS l)) < 2 ^ 32" by simp
  assume "finish_event buf l (w32 (base + w32 (i * evtSize l)))
      (DecodedEvent_init\<lparr> ev_board := w16 (unat board), ev_channel := w16 (event_channel l tw cpl),
        qshort := unat (cw AND 0x7FFF), qlong := unat (drop_bit 16 cw),
        pileup := (drop_bit 15 cw AND 1 \<noteq> 0),
        satu := (((hasExtras l \<and> extrasConfig l) \<and> extrasMode l = 1) \<and> xw AND kPsdOverBit \<noteq> 0),
        lost := (((hasExtras l \<and> extrasConfig l) \<and> extrasMode l = 1) \<and> xw AND kPsdLostBit \<noteq> 0),
        timestamp := event_timestamp l
          (if (hasExtras l \<and> extrasConfig l) \<and> extrasMode l \<le> 2 then unat (drop_bit 16 xw)
           else if hasExtras l \<and> \<not> extrasConfig l then unat (xw AND 0x7FFF) else 0)
          ?xb (unat (ExtractBits_range tw (fmtTS l))) \<rparr>)
      ?xb
      (if (hasExtras l \<and> extrasConfig l) \<and> extrasMode l = 2 then unat (xw AND 0x3FF) else 0)
      (if (hasExtras l \<and> extrasConfig l) \<and> extrasMode l = 2 then 10 else 0)
      (if \<not> hasTS l \<or> \<not> hasCharge l then incr_incomplete s else s) = Some s'"
  then show ?thesis
    by (rule event_step_emit [OF l, rotated 3])
       (use b c energy_field [of cw] qlong_field [of cw] event_timestamp_less [OF raw] in
         \<open>simp_all add: event_fields\<close>)
qed auto

section \<open>Through the walk\<close>

definition events_ok :: "DecodedEvent list \<Rightarrow> bool" where
  "events_ok es \<longleftrightarrow> (\<forall>e \<in> set es. event_ok e)"

text \<open>The walk of one board aggregate only appends events, each within its ranges.\<close>

definition appends_ok :: "DecodedEvent list \<Rightarrow> DecodedEvent list \<Rightarrow> bool" where
  "appends_ok es es' \<longleftrightarrow> (\<exists>new. es' = es @ new \<and> events_ok new)"

lemma appends_ok_refl [simp]: "appends_ok es es"
  by (simp add: appends_ok_def events_ok_def)

lemma appends_ok_trans: "appends_ok a b \<Longrightarrow> appends_ok b c \<Longrightarrow> appends_ok a c"
  by (auto simp: appends_ok_def events_ok_def)

lemma event_step_appends: "event_step s s' \<Longrightarrow> appends_ok (ds_evs s) (ds_evs s')"
  by (auto simp: event_step_def appends_ok_def events_ok_def)

lemma foldM_event_step:
  assumes "foldM ev s is = Some s'" and "\<And>t i t'. ev t i = Some t' \<Longrightarrow> event_step t t'"
  shows "appends_ok (ds_evs s) (ds_evs s') \<and> frame (ds_bd s') = frame (ds_bd s)"
  using assms(1)
proof (induction "is" arbitrary: s)
  case (Cons i "is")
  then obtain t where t: "ev s i = Some t" "foldM ev t is = Some s'"
    by (auto simp: bind_eq_Some_conv)
  from assms(2) [OF t(1)] Cons.IH [OF t(2)] show ?case
    by (auto simp: event_step_def intro: appends_ok_trans event_step_appends [OF assms(2) [OF t(1)]])
qed simp

lemma walk_couples_appends:
  assumes "walk_couples chk ev buf aggEnd cpls pos s = Some s'" and "walk_ok s"
    and ev: "\<And>cpl l base t i t'. layout_ok l \<Longrightarrow> ev cpl l base t i = Some t' \<Longrightarrow> event_step t t'"
  shows "appends_ok (ds_evs s) (ds_evs s')"
  using assms(1,2)
proof (induction cpls arbitrary: pos s)
  case (Cons cpl cpls)
  let ?s = "\<lambda>w. s\<lparr> ds_bd := (ds_bd s)\<lparr> frame := fst (SetDataFormat (frame (ds_bd s)) w) \<rparr> \<rparr>"
  have ws: "walk_ok (?s w)" for w using Cons.prems(2) by (rule walk_ok_set_format)
  have lo: "layout_ok (fLayout (fst (SetDataFormat (frame (ds_bd s)) w)))" for w
    using Cons.prems(2) by (simp add: walk_ok_def layout_ok_SetDataFormat)
  have inc: "ds_evs (incr_corrupt t) = ds_evs t" "ds_evs (count_uninitialised n t) = ds_evs t" for n t
    by (simp_all add: incr_corrupt_def count_uninitialised_def)
  have wu: "walk_ok (count_uninitialised n (?s w))" for n w
    using ws [of w] by (simp add: walk_ok_def)
  from Cons.prems(1) show ?case
    unfolding walk_couples.simps Let_def
  proof (elim bind_SomeE if_SomeE)
    fix szw fmtw i
    let ?cs = "unat (ExtractBits_range szw (fSizeFormat (frame (ds_bd s))))"
    let ?l = "fLayout (fst (SetDataFormat (frame (ds_bd s)) fmtw))"
    assume "walk_couples chk ev buf aggEnd cpls (w32 (pos + ?cs))
        (count_uninitialised ((?cs - 2) div evtSize ?l) (?s fmtw)) = Some s'"
    from Cons.IH [OF this wu] show ?case by (simp add: inc)
  next
    fix szw fmtw i t
    let ?cs = "unat (ExtractBits_range szw (fSizeFormat (frame (ds_bd s))))"
    let ?l = "fLayout (fst (SetDataFormat (frame (ds_bd s)) fmtw))"
    assume f: "foldM (ev cpl ?l (w32 (pos + 2))) (?s fmtw) [0..<(?cs - 2) div evtSize ?l] = Some t"
      and rest: "walk_couples chk ev buf aggEnd cpls (w32 (pos + ?cs)) t = Some s'"
    have t: "appends_ok (ds_evs s) (ds_evs t)" "frame (ds_bd t) = frame (ds_bd (?s fmtw))"
      using foldM_event_step [OF f ev [OF lo]] by simp_all
    have "walk_ok t" using walk_ok_cong [OF t(2)] ws by simp
    then show ?case using Cons.IH [OF rest] t(1) appends_ok_trans by blast
  qed (auto simp: inc)
qed simp

lemma decodePHA_appends:
  assumes "decodePHA buf board m offset aggLen s = Some s'" and "walk_ok s" and "unat board < 32"
  shows "appends_ok (ds_evs s) (ds_evs s')"
  using assms(1) unfolding decodePHA_def PHA_couples_walk
  by (rule walk_couples_appends [OF _ assms(2) PHA_event_step [OF _ assms(3)]])

lemma decodePSD_appends:
  assumes "decodePSD buf board m offset aggLen s = Some s'" and "walk_ok s" and "unat board < 32"
  shows "appends_ok (ds_evs s) (ds_evs s')"
  using assms(1) unfolding decodePSD_def PSD_couples_walk
  by (rule walk_couples_appends [OF _ assms(2) PSD_event_step [OF _ assms(3)]])

text \<open>The board id is the top five bits of a header word.\<close>

lemma board_id_less: "unat (drop_bit 27 (h AND 0xF8000000 :: u32)) < 32"
proof -
  have "unat (drop_bit 27 (h AND 0xF8000000)) = unat (h AND 0xF8000000) div 2 ^ 27"
    unfolding unsigned_drop_bit_eq by (simp add: take_bit_eq_mod drop_bit_eq_div)
  then show ?thesis
    using unat_less_32 [of "h AND 0xF8000000"] by (simp add: less_mult_imp_div_less)
qed

lemma decode_aggregate_appends:
  assumes agg: "decode_aggregate buf offset aggLen s = Some s'" and ok: "decoder_ok (fst s)"
  shows "appends_ok (snd s) (snd s')"
proof -
  from agg obtain h where h: "rd buf (w32 (offset + 1)) = Some h"
    unfolding decode_aggregate_def by (elim bind_SomeE)
  note agg' = agg [unfolded decode_aggregate_def h bind.bind_lunit]
  let ?d = "if drop_bit 26 h AND 1 \<noteq> 0 then incr_boardFail (fst s) else fst s"
  let ?board = "drop_bit 27 (h AND 0xF8000000)"
  have d: "decoder_ok ?d" using ok by simp
  show ?thesis
  proof (cases "omap_lookup (dec_boards ?d) ?board")
    case None
    then show ?thesis using agg' by (auto simp: Let_def)
  next
    case (Some bd)
    let ?ds = "\<lparr> ds_bd = bd, ds_cnt = dec_counters ?d, ds_evs = snd s \<rparr>"
    show ?thesis
    proof (cases "supported bd")
      case False
      then show ?thesis using agg' Some by (auto simp: Let_def)
    next
      case True
      have "walk_ok ?ds"
        using d Some True by (auto simp: decoder_ok_def walk_ok_def board_ok_def)
      then have step: "appends_ok (snd s) (ds_evs ds)"
        if "(if isPHA bd then decodePHA buf ?board (h AND 0xFF) offset aggLen ?ds
             else decodePSD buf ?board (h AND 0xFF) offset aggLen ?ds) = Some ds" for ds
        using that decodePHA_appends decodePSD_appends board_id_less
        by (metis DecState.select_convs(3))
      from agg' Some True show ?thesis
        unfolding Let_def by (auto elim!: bind_SomeE dest!: step)
    qed
  qed
qed

section \<open>Properties of \<open>decode\<close>\<close>

text \<open>
  C2. \<open>AggregateDecoder::decode\<close> is memory safe and terminates for every buffer (below 8 GiB,
  so that word offsets fit \<open>uint32\<close>): whatever the bytes of the board are, truncated or
  garbage included, every word read lies inside the buffer, the walk ends, and the decoder is
  left in a state from which the next buffer can be decoded.
\<close>

theorem decode_memory_safe:
  assumes "length data < 2 ^ 33" and "decoder_ok d"
  shows "\<exists>d' evs. decode d data = Some (d', evs) \<and> decoder_ok d'"
  using decode_rule [OF assms, of "\<lambda>_. True"] by auto

theorem decode_memory_safe_witness:
  "\<exists>d' evs. decode (registerBoard 3 PSD ''DT5730'' 2000 AggregateDecoder_init)
     [0x10, 0, 0, 0xA0, 7] = Some (d', evs) \<and> decoder_ok d'"
  by (rule decode_memory_safe) (auto intro!: inv_intros)

text \<open>
  C3. Every event \<open>decode\<close> emits, whatever the buffer holds, has its fields in the ranges of the
  hardware: board below 32, channel below 16, 15-bit energy and short gate, 16-bit long gate,
  a trace shorter than 65536 samples, a 64-bit time stamp.
\<close>

theorem decode_events_in_range:
  assumes "length data < 2 ^ 33" and "decoder_ok d" and "decode d data = Some (d', evs)"
  shows "events_ok evs"
proof -
  have "\<exists>s'. decode d data = Some s' \<and> decoder_ok (fst s') \<and> events_ok (snd s')"
    by (rule decode_rule [OF assms(1,2)])
      (auto simp: events_ok_def appends_ok_def dest!: decode_aggregate_appends)
  then show ?thesis using assms(3) by simp
qed

theorem decode_events_in_range_witness:
  "events_ok (snd (the (decode (registerBoard 3 PHA ''DT5780'' 10000 AggregateDecoder_init)
     [0x10, 0, 0, 0xA0, 7])))"
proof -
  let ?d = "registerBoard 3 PHA ''DT5780'' 10000 AggregateDecoder_init"
  have ok: "decoder_ok ?d" by (auto intro!: inv_intros)
  have len: "length [0x10 :: u8, 0, 0, 0xA0, 7] < 2 ^ 33" by simp
  obtain d' evs where r: "decode ?d [0x10, 0, 0, 0xA0, 7] = Some (d', evs)"
    using decode_rule [OF len ok, of "\<lambda>_. True"] by auto
  show ?thesis using decode_events_in_range [OF len ok r] r by simp
qed

end
