(* ===== verification/X730_Aggregate.thy ===== *)
theory X730_Aggregate
  imports Decoder_Props
begin

text \<open>
  Completeness of the decoder on the x730 event format, for both firmwares: an aggregate
  written from a list of hits decodes to exactly those hits. The encoder here is the format
  itself; \<open>MockDigitizer\<close> writes it (theory \<open>Mock_Digitizer\<close>).
\<close>

section \<open>The format\<close>

record X730Hit =
  x_odd :: bool
  x_time :: u32
  x_trace :: "u32 list"
  x_data :: u32

definition hit_words :: "X730Hit \<Rightarrow> u32 list" where
  "hit_words x = (push_bit 31 (of_bool (x_odd x)) OR (x_time x AND 0x7FFFFFFF)) # x_trace x @ [x_data x]"

definition aggregate_header :: "u32 \<Rightarrow> bool \<Rightarrow> u32 \<Rightarrow> u32 \<Rightarrow> nat \<Rightarrow> u32 \<Rightarrow> u32 list" where
  "aggregate_header board fail cnt tag coupleSize fmt =
     [0xA0000000 OR (of_nat (4 + coupleSize) AND 0x0FFFFFFF),
      push_bit 27 (board AND 0x1F) OR push_bit 26 (of_bool fail) OR 1, cnt, tag, of_nat coupleSize, fmt]"

definition aggregate_words :: "u32 \<Rightarrow> bool \<Rightarrow> u32 \<Rightarrow> u32 \<Rightarrow> u32 \<Rightarrow> nat \<Rightarrow> X730Hit list \<Rightarrow> u32 list" where
  "aggregate_words board fail cnt tag fmt nW xs =
     aggregate_header board fail cnt tag (2 + length xs * (2 + nW)) fmt @ concat (map hit_words xs)"

text \<open>What a hit means under each firmware; its time in picoseconds depends on the clock.\<close>

definition trace_samples :: "u32 list \<Rightarrow> u16 list" where
  "trace_samples ws = concat (map (\<lambda>w. [ucast (ExtractBits w 0 13), ucast (ExtractBits w 16 29)]) ws)"

definition psd_hit :: "nat \<Rightarrow> X730Hit \<Rightarrow> DecodedEvent" where
  "psd_hit board x = DecodedEvent_init\<lparr>
     ev_board := board, ev_channel := of_bool (x_odd x), timestamp := unat (x_time x AND 0x7FFFFFFF),
     qshort := unat (x_data x AND 0x7FFF), qlong := unat (drop_bit 16 (x_data x)),
     pileup := bit (x_data x) 15, wave := trace_samples (x_trace x) \<rparr>"

definition pha_hit :: "nat \<Rightarrow> X730Hit \<Rightarrow> DecodedEvent" where
  "pha_hit board x = DecodedEvent_init\<lparr>
     ev_board := board, ev_channel := of_bool (x_odd x), timestamp := unat (x_time x AND 0x7FFFFFFF),
     energy := unat (x_data x AND 0x7FFF), pileup := bit (x_data x) 15,
     satu := bit (x_data x) 20, lost := False, wave := trace_samples (x_trace x) \<rparr>"

section \<open>The layout of the format\<close>

definition is_x730 :: "string \<Rightarrow> bool" where
  "is_x730 name \<longleftrightarrow> (str_contains name ''730'' \<or> str_contains name ''725'') \<and>
     \<not> str_contains name ''724'' \<and> \<not> str_contains name ''781'' \<and> \<not> str_contains name ''782''"

text \<open>A frame built for a firmware and a model, whatever format word it has seen.\<close>

definition built_for :: "CAEN_DGTZ_DPPFirmware \<Rightarrow> string \<Rightarrow> DataFrame \<Rightarrow> bool" where
  "built_for dpp name f \<longleftrightarrow> frame_ok f \<and> (let g = Build (DataFrame_new dpp name) in
     fFlags f = fFlags g \<and> fConfigs f = fConfigs g \<and> fFormats f = fFormats g \<and>
     fNumSamples f = fNumSamples g \<and> fSizeFormat f = fSizeFormat g \<and>
     fDgtzName f = name \<and> fDppType f = dpp)"

lemma built_for_new: "built_for dpp name (Build (DataFrame_new dpp name))"
  by (auto simp: built_for_def Let_def Build_def DataFrame_new_def frame_ok_def split: CAEN_DGTZ_DPPFirmware.splits)

lemma built_for_SetDataFormat: "built_for dpp name f \<Longrightarrow> built_for dpp name (fst (SetDataFormat f w))"
  by (simp add: built_for_def Let_def frame_ok_SetDataFormat)

text \<open>The format word of events with \<open>nW\<close> words of trace.\<close>

definition x730_format :: "nat \<Rightarrow> u32 \<Rightarrow> bool" where
  "x730_format nW fmt \<longleftrightarrow> \<not> bit fmt 31 \<and> bit fmt 30 \<and> bit fmt 29 \<and> \<not> bit fmt 28 \<and>
     (0 < nW \<longrightarrow> bit fmt 27) \<and> unat (take_bit 16 fmt) * 8 = 2 * nW \<and> nW < 2 ^ 15"

definition x730_layout :: "bool \<Rightarrow> nat \<Rightarrow> DataLayout \<Rightarrow> bool" where
  "x730_layout pha nW l \<longleftrightarrow>
     evtSize l = 2 + nW \<and> hasTS l \<and> hasChannelBit l \<and> \<not> hasExtras l \<and> (0 < nW \<longrightarrow> hasTrace l) \<and>
     numSamples l = 2 * nW \<and> \<not> dualTrace l \<and> fmtTS l = (0, 30) \<and> fmtSample l = (0, 13) \<and>
     tsBits l = 31 \<and> resTS l = 0 \<and> resEnergy l = 0 \<and> hasEnergy l = pha \<and> hasCharge l = (\<not> pha) \<and>
     (pha \<longrightarrow> fmtExtras l = (16, 20))"

lemma bit_test: "drop_bit n (w :: u32) AND 1 \<noteq> 0 \<longleftrightarrow> bit w n"
  by (simp add: bit_iff_odd_drop_bit and_one_eq odd_iff_mod_2_eq_one)

lemma x730_tables:
  assumes "is_x730 name"
  shows "Build (DataFrame_new DPPFirmware_PSD name) = (DataFrame_new DPPFirmware_PSD name)
      \<lparr> fFlags := [(''DT'', 31), (''Charge'', 30), (''TS'', 29), (''Extras'', 28), (''Trace'', 27)],
         fConfigs := PSD_ProduceConfigs name, fFormats := PSD_ProduceFormats name,
         fNumSamples := 8, fSizeFormat := (0, 21) \<rparr>"
    and "Build (DataFrame_new DPPFirmware_PHA name) = (DataFrame_new DPPFirmware_PHA name)
      \<lparr> fFlags := [(''DT'', 31), (''Energy'', 30), (''TS'', 29), (''Extras'', 28), (''Trace'', 27)],
         fConfigs := PHA_ProduceConfigs name, fFormats := PHA_ProduceFormats name,
         fNumSamples := 8, fSizeFormat := (0, 30) \<rparr>"
  using assms
  by (simp_all add: is_x730_def Build_def DataFrame_new_def Let_def Format_def
      PSD_IsX730Family_def PSD_ProduceFlags_def PSD_ProduceNumSamples_def PSD_ProduceFormats_def
      PHA_IsX730Family_def PHA_ProduceFlags_def PHA_ProduceNumSamples_def PHA_ProduceFormats_def)

lemma x730_samples:
  assumes "x730_format nW fmt"
  shows "w16 (w32 (unat (ExtractBits fmt 0 15) * 8)) = 2 * nW"
proof -
  have "unat (ExtractBits fmt 0 15) * 8 = 2 * nW"
    using assms by (simp add: x730_format_def ExtractBits_take)
  moreover have "nW < 2 ^ 15" using assms by (simp add: x730_format_def)
  ultimately show ?thesis by (simp add: w16_id w32_id)
qed

lemma x730_layout_PSD:
  assumes "built_for DPPFirmware_PSD name f" "is_x730 name" "x730_format nW fmt"
  shows "x730_layout False nW (fLayout (fst (SetDataFormat f fmt)))"
proof -
  have ok: "frame_ok f" using assms(1) by (simp add: built_for_def)
  have fields: "fFlags f = [(''DT'', 31), (''Charge'', 30), (''TS'', 29), (''Extras'', 28), (''Trace'', 27)]"
    "fConfigs f = PSD_ProduceConfigs name" "fFormats f = PSD_ProduceFormats name"
    "fNumSamples f = 8" "fDgtzName f = name" "fDppType f = DPPFirmware_PSD"
    using assms(1) unfolding built_for_def Let_def x730_tables [OF assms(2)] by simp_all
  have nW: "nW < 2 ^ 15" "w16 nW = nW" "w16 (Suc (Suc nW)) = Suc (Suc nW)"
    using assms(3) by (simp_all add: x730_format_def w16_id)
  have flag: "\<not> bit fmt 27 \<longrightarrow> nW = 0" using assms(3) by (auto simp: x730_format_def)
  show ?thesis
    using assms(2,3) nW flag x730_samples [OF assms(3)]
    unfolding fLayout_SetDataFormat [OF ok] ResolveLayout_def Let_def x730_layout_def
    by (simp add: Enabled_def Config_def Format_def HasFormat_def HasConfig_def fields Let_def bit_test
        PSD_ProduceConfigs_def PSD_ProduceFormats_def PSD_IsX730Family_def is_x730_def
        x730_format_def RangeWidth_def ExtractBits_range_def w16_def cong: if_cong)
qed

lemma x730_layout_PHA:
  assumes "built_for DPPFirmware_PHA name f" "is_x730 name" "x730_format nW fmt"
  shows "x730_layout True nW (fLayout (fst (SetDataFormat f fmt)))"
proof -
  have ok: "frame_ok f" using assms(1) by (simp add: built_for_def)
  have fields: "fFlags f = [(''DT'', 31), (''Energy'', 30), (''TS'', 29), (''Extras'', 28), (''Trace'', 27)]"
    "fConfigs f = PHA_ProduceConfigs name" "fFormats f = PHA_ProduceFormats name"
    "fNumSamples f = 8" "fDgtzName f = name" "fDppType f = DPPFirmware_PHA"
    using assms(1) unfolding built_for_def Let_def x730_tables [OF assms(2)] by simp_all
  have nW: "nW < 2 ^ 15" "w16 nW = nW" "w16 (Suc (Suc nW)) = Suc (Suc nW)"
    using assms(3) by (simp_all add: x730_format_def w16_id)
  have flag: "\<not> bit fmt 27 \<longrightarrow> nW = 0" using assms(3) by (auto simp: x730_format_def)
  show ?thesis
    using assms(2,3) nW flag x730_samples [OF assms(3)]
    unfolding fLayout_SetDataFormat [OF ok] ResolveLayout_def Let_def x730_layout_def
    by (simp add: Enabled_def Config_def Format_def HasFormat_def HasConfig_def fields Let_def bit_test
        PHA_ProduceConfigs_def PHA_ProduceFormats_def PHA_IsX730Family_def is_x730_def
        x730_format_def RangeWidth_def ExtractBits_range_def w16_def cong: if_cong)
qed

section \<open>One event\<close>

lemma hit_reads:
  assumes "drop a buf = hit_words x @ rest" "length (x_trace x) = nW"
  shows "rd buf a = Some (hit_words x ! 0)" "rd buf (a + nW + 1) = Some (x_data x)"
    "take nW (drop (a + 1) buf) = x_trace x" "a + nW + 2 \<le> length buf"
proof -
  have "length (drop a buf) = length (hit_words x) + length rest" by (simp add: assms(1))
  then show len: "a + nW + 2 \<le> length buf" using assms(2) by (simp add: hit_words_def)
  have w: "buf ! (a + j) = (hit_words x @ rest) ! j" if "j \<le> nW + 1" for j
    using assms(1) len that by (metis add_leD1 le_add_diff_inverse nth_drop)
  show "rd buf a = Some (hit_words x ! 0)"
    using w [of 0] len by (simp add: hit_words_def)
  show "rd buf (a + nW + 1) = Some (x_data x)"
    using w [of "nW + 1"] len assms(2) by (simp add: hit_words_def nth_append add.assoc)
  have "drop (a + 1) buf = tl (drop a buf)" by (simp add: drop_Suc tl_drop)
  then show "take nW (drop (a + 1) buf) = x_trace x"
    by (simp add: assms hit_words_def)
qed

lemma time_word:
  "unat (drop_bit 31 (hit_words x ! 0) AND 1) = of_bool (x_odd x)"
  "ExtractBits_range (hit_words x ! 0) (0, 30) = x_time x AND 0x7FFFFFFF"
proof -
  have m: "(0x7FFFFFFF :: u32) = mask 31" by (simp add: mask_eq_exp_minus_1)
  have "drop_bit 31 (hit_words x ! 0) AND 1 = of_bool (x_odd x)"
    by (rule bit_word_eqI) (auto simp: hit_words_def m bit_simps)
  then show "unat (drop_bit 31 (hit_words x ! 0) AND 1) = of_bool (x_odd x)" by simp
  show "ExtractBits_range (hit_words x ! 0) (0, 30) = x_time x AND 0x7FFFFFFF"
    by (rule bit_word_eqI) (auto simp: hit_words_def ExtractBits_range_def ExtractBits_take m bit_simps)
qed

lemma setTime_clock:
  "\<exists>ck t. setTime bd e w ft fb = (bd\<lparr> clock := ck \<rparr>, e\<lparr> timePs := t \<rparr>)"
proof (cases "psPerTick bd = 0")
  case True
  have "\<exists>t. e = e\<lparr> timePs := t \<rparr>" by (rule exI [of _ "timePs e"]) simp
  then show ?thesis using True by (auto simp: setTime_def Let_def split: prod.splits)
next
  case False
  then show ?thesis by (auto simp: setTime_def Let_def split: prod.splits)
qed

lemma finish_hit:
  assumes l: "x730_layout pha nW l" and ev: "drop ev buf = hit_words x @ rest" "length (x_trace x) = nW"
    and len: "length buf < 2 ^ 31" "nW < 2 ^ 15"
  shows "\<exists>ck t. finish_event buf l ev e 0 0 0 s =
    Some (emit (e\<lparr> timePs := t, wave := trace_samples (x_trace x) \<rparr>) (s\<lparr> ds_bd := (ds_bd s)\<lparr> clock := ck \<rparr> \<rparr>))"
proof -
  note r = hit_reads [OF ev]
  obtain ck t where st: "setTime (ds_bd s) e (tsBits l + 0) 0 0 = ((ds_bd s)\<lparr> clock := ck \<rparr>, e\<lparr> timePs := t \<rparr>)"
    using setTime_clock by blast
  have ev1: "w32 (ev + 1) = ev + 1" using r(4) len by (simp add: w32_id)
  have wv: "(if hasTrace l then unpackWave buf l (w32 (ev + 1)) else Some []) = Some (trace_samples (x_trace x))"
  proof (cases "nW = 0")
    case True
    then show ?thesis using l ev(2) by (simp add: x730_layout_def unpackWave_def trace_samples_def)
  next
    case False
    have "rd_list buf (ev + 1) nW = Some (x_trace x)"
      using rd_list_total [of "ev + 1" nW buf] r(3,4) len by simp
    then show ?thesis
      using l False unfolding ev1 by (simp add: x730_layout_def unpackWave_def Let_def trace_samples_def)
  qed
  have ts: "hasTS l" using l by (simp add: x730_layout_def)
  show ?thesis
    unfolding finish_event_def st using wv ts
    by (intro exI [of _ ck] exI [of _ t]) (auto simp del: One_nat_def)
qed

lemma psd_event:
  assumes l: "x730_layout False nW l" and ev: "drop (base + i * (2 + nW)) buf = hit_words x @ rest"
    "length (x_trace x) = nW" and len: "length buf < 2 ^ 31" "nW < 2 ^ 15" and b: "unat board < 32"
  shows "\<exists>ck t. PSD_event buf board 0 l base s i =
    Some (emit ((psd_hit (unat board) x)\<lparr> timePs := t \<rparr>) (s\<lparr> ds_bd := (ds_bd s)\<lparr> clock := ck \<rparr> \<rparr>))"
proof -
  let ?ev = "base + i * (2 + nW)"
  note r = hit_reads [OF ev]
  have lf: "evtSize l = 2 + nW" "hasTS l" "hasCharge l" "\<not> hasExtras l" "hasChannelBit l" "fmtTS l = (0, 30)"
    using l by (simp_all add: x730_layout_def)
  have off: "w32 (base + w32 (i * evtSize l)) = ?ev" "last_word l ?ev = ?ev + nW + 1"
    using r(4) len lf(1) by (simp_all add: w32_id last_word_eq)
  have data: "x_data x = rdw \<Longrightarrow> (drop_bit 15 rdw AND 1 \<noteq> 0) = bit (x_data x) 15" for rdw
    by (simp add: bit_test)
  have e: "(psd_hit (unat board) x)\<lparr> wave := [], timePs := t, wave := trace_samples (x_trace x) \<rparr> =
      (psd_hit (unat board) x)\<lparr> timePs := t \<rparr>" for t
    by (simp add: psd_hit_def)
  from finish_hit [OF l ev len, of "(psd_hit (unat board) x)\<lparr> wave := [] \<rparr>" s]
  obtain ck t where fin: "finish_event buf l ?ev ((psd_hit (unat board) x)\<lparr> wave := [] \<rparr>) 0 0 0 s =
    Some (emit ((psd_hit (unat board) x)\<lparr> timePs := t \<rparr>) (s\<lparr> ds_bd := (ds_bd s)\<lparr> clock := ck \<rparr> \<rparr>))"
    unfolding e by blast
  have "PSD_event buf board 0 l base s i =
      finish_event buf l ?ev ((psd_hit (unat board) x)\<lparr> wave := [] \<rparr>) 0 0 0 s"
    unfolding PSD_event_def Let_def off
    using b by (simp only: lf simp_thms if_True if_False r(1) off(2) r(2) bind.bind_lunit)
      (simp add: time_word event_channel_def event_timestamp_def kMaxChannels_def lf
        psd_hit_def DecodedEvent_init_def w16_id bit_test)
  then show ?thesis unfolding fin by blast
qed

lemma pha_event:
  assumes l: "x730_layout True nW l" and ev: "drop (base + i * (2 + nW)) buf = hit_words x @ rest"
    "length (x_trace x) = nW" and len: "length buf < 2 ^ 31" "nW < 2 ^ 15" and b: "unat board < 32"
  shows "\<exists>ck t. PHA_event buf board 0 l base s i =
    Some (emit ((pha_hit (unat board) x)\<lparr> timePs := t \<rparr>) (s\<lparr> ds_bd := (ds_bd s)\<lparr> clock := ck \<rparr> \<rparr>))"
proof -
  let ?ev = "base + i * (2 + nW)"
  note r = hit_reads [OF ev]
  have lf: "evtSize l = 2 + nW" "hasTS l" "hasEnergy l" "\<not> hasExtras l" "hasChannelBit l" "fmtTS l = (0, 30)"
    "fmtExtras l = (16, 20)"
    using l by (simp_all add: x730_layout_def)
  have off: "w32 (base + w32 (i * evtSize l)) = ?ev" "last_word l ?ev = ?ev + nW + 1"
    using r(4) len lf(1) by (simp_all add: w32_id last_word_eq)
  have e: "(pha_hit (unat board) x)\<lparr> wave := [], timePs := t, wave := trace_samples (x_trace x) \<rparr> =
      (pha_hit (unat board) x)\<lparr> timePs := t \<rparr>" for t
    by (simp add: pha_hit_def)
  have m: "kPhaSatuBit = push_bit 4 1" "kPhaDoubleSatBit = push_bit 7 1" "kPhaLostBit = push_bit 5 1"
    by (simp_all add: kPhaSatuBit_def kPhaDoubleSatBit_def kPhaLostBit_def)
  have bits: "bit (ExtractBits_range w (16, 20)) n \<longleftrightarrow> n \<le> 4 \<and> bit w (16 + n)" for w n
    by (auto simp: ExtractBits_range_def ExtractBits_take bit_simps)
  have f: "(ExtractBits_range w (16, 20) AND (kPhaSatuBit OR kPhaDoubleSatBit) \<noteq> 0) = bit w 20"
    "(ExtractBits_range w (16, 20) AND kPhaLostBit \<noteq> 0) = False" for w
    unfolding m bit.conj_disj_distrib or_eq_0_iff de_Morgan_conj
    by (simp_all only: bit_iff_and_push_bit_not_eq_0 [symmetric] bits) simp_all
  from finish_hit [OF l ev len, of "(pha_hit (unat board) x)\<lparr> wave := [] \<rparr>" s]
  obtain ck t where fin: "finish_event buf l ?ev ((pha_hit (unat board) x)\<lparr> wave := [] \<rparr>) 0 0 0 s =
    Some (emit ((pha_hit (unat board) x)\<lparr> timePs := t \<rparr>) (s\<lparr> ds_bd := (ds_bd s)\<lparr> clock := ck \<rparr> \<rparr>))"
    unfolding e by blast
  have "PHA_event buf board 0 l base s i =
      finish_event buf l ?ev ((pha_hit (unat board) x)\<lparr> wave := [] \<rparr>) 0 0 0 s"
    unfolding PHA_event_def Let_def off
    using b by (simp only: lf simp_thms if_True if_False r(1) off(2) r(2) bind.bind_lunit)
      (simp add: time_word event_channel_def event_timestamp_def kMaxChannels_def lf
        pha_hit_def DecodedEvent_init_def w16_id bit_test f)
  then show ?thesis unfolding fin by blast
qed

section \<open>One channel aggregate\<close>

definition untimed :: "DecodedEvent \<Rightarrow> DecodedEvent" where
  "untimed e = e\<lparr> timePs := 0 \<rparr>"

lemma untimed_hit [simp]:
  "untimed ((psd_hit b x)\<lparr> timePs := t \<rparr>) = psd_hit b x"
  "untimed ((pha_hit b x)\<lparr> timePs := t \<rparr>) = pha_hit b x"
  by (simp_all add: untimed_def psd_hit_def pha_hit_def DecodedEvent_init_def)

text \<open>The state after a stretch of events: they are appended, and only the clock has moved.\<close>

definition appends :: "DecodedEvent list \<Rightarrow> DecState \<Rightarrow> DecState \<Rightarrow> bool" where
  "appends es s s' \<longleftrightarrow> map untimed (ds_evs s') = map untimed (ds_evs s) @ es \<and> ds_cnt s' = ds_cnt s \<and>
     (\<exists>ck. ds_bd s' = (ds_bd s)\<lparr> clock := ck \<rparr>)"

lemma appends_Nil: "appends [] s s"
  by (auto simp: appends_def intro!: exI [of _ "clock (ds_bd s)"])

lemma appends_trans: "appends es s t \<Longrightarrow> appends es' t u \<Longrightarrow> appends (es @ es') s u"
  by (auto simp: appends_def)

lemma appends_emit:
  "untimed e = x \<Longrightarrow> appends [x] s (emit e (s\<lparr> ds_bd := (ds_bd s)\<lparr> clock := ck \<rparr> \<rparr>))"
  by (auto simp: appends_def emit_def)

lemma foldM_appends:
  assumes "\<And>s i. i \<in> set is \<Longrightarrow> \<exists>s'. ev s i = Some s' \<and> appends [g i] s s'"
  shows "\<exists>s'. foldM ev s is = Some s' \<and> appends (map g is) s s'"
  using assms
proof (induction "is" arbitrary: s)
  case Nil
  then show ?case by (simp add: appends_Nil)
next
  case (Cons i "is")
  from Cons.prems [of i s] obtain t where t: "ev s i = Some t" "appends [g i] s t" by auto
  from Cons.IH [of t] Cons.prems obtain u where "foldM ev t is = Some u" "appends (map g is) t u" by auto
  then show ?case using t appends_trans by fastforce
qed

lemma length_hit_words: "length (hit_words x) = 2 + length (x_trace x)"
  by (simp add: hit_words_def)

lemma length_hits: "\<forall>x \<in> set xs. length (x_trace x) = nW \<Longrightarrow>
    length (concat (map hit_words xs)) = length xs * (2 + nW)"
  by (induction xs) (auto simp: length_hit_words)

lemma drop_hits:
  assumes "\<forall>x \<in> set xs. length (x_trace x) = nW" "i < length xs"
  shows "drop (i * (2 + nW)) (concat (map hit_words xs)) =
    hit_words (xs ! i) @ concat (map hit_words (drop (Suc i) xs))"
proof -
  have xs: "xs = take i xs @ (xs ! i) # drop (Suc i) xs" using assms(2) by (rule id_take_nth_drop)
  have "length (concat (map hit_words (take i xs))) = i * (2 + nW)"
    using length_hits [of "take i xs" nW] assms by (auto dest: in_set_takeD)
  then show ?thesis by (subst xs) simp
qed

lemma walk_one_couple:
  assumes buf: "drop pos buf = of_nat cs # fmt # concat (map hit_words xs) @ rest"
    and cs: "cs = 2 + length xs * (2 + nW)" "cs < 2 ^ (n + 1)" "n < 31" "fSizeFormat (frame (ds_bd s)) = (0, n)"
    and lay: "l = fLayout (fst (SetDataFormat (frame (ds_bd s)) fmt))" and fr: "x730_layout pha nW l"
    and tr: "\<forall>x \<in> set xs. length (x_trace x) = nW" and len: "length buf < 2 ^ 31"
    and chk: "\<And>l b is. x730_layout pha nW l \<Longrightarrow> chk l b is = Some False"
    and ev: "\<And>t i. i < length xs \<Longrightarrow> \<exists>t'. ev 0 l (pos + 2) t i = Some t' \<and> appends [g i] t t'"
  shows "\<exists>s'. walk_couples chk ev buf (pos + cs) [0] pos s = Some s' \<and>
    appends (map g [0..<length xs])
      (s\<lparr> ds_bd := (ds_bd s)\<lparr> frame := fst (SetDataFormat (frame (ds_bd s)) fmt) \<rparr> \<rparr>) s'"
proof -
  have ld: "length (drop pos buf) = cs + length rest"
    unfolding buf using cs(1) length_hits [OF tr] by simp
  then have lb: "pos + cs \<le> length buf" using cs(1) by simp
  have nth: "buf ! (pos + j) = drop pos buf ! j" if "j < cs" for j using that lb by simp
  have r: "rd buf pos = Some (of_nat cs)" "rd buf (pos + 1) = Some fmt"
    using nth [of 0] nth [of 1] lb cs(1) by (simp_all add: buf)
  have w: "w32 (pos + 2) = pos + 2" "w32 (pos + 1) = pos + 1" "w32 (pos + cs) = pos + cs"
    using lb len cs(1) by (simp_all add: w32_id)
  have "cs < 2 ^ 32" using lb len by simp
  then have "unat (of_nat cs :: u32) = cs" by (simp only: unat_of_nat) simp
  then have sz: "unat (ExtractBits_range (of_nat cs) (fSizeFormat (frame (ds_bd s)))) = cs"
    using cs(2) by (simp add: cs(4) ExtractBits_range_def ExtractBits_unat)
  have e: "evtSize l = 2 + nW" using fr by (simp add: x730_layout_def)
  have n: "(cs - 2) div evtSize l = length xs" unfolding e cs(1) add_diff_cancel_left'
    by (rule nonzero_mult_div_cancel_right) simp
  let ?s = "s\<lparr> ds_bd := (ds_bd s)\<lparr> frame := fst (SetDataFormat (frame (ds_bd s)) fmt) \<rparr> \<rparr>"
  have "\<exists>s'. foldM (ev 0 l (pos + 2)) ?s [0..<length xs] = Some s' \<and> appends (map g [0..<length xs]) ?s s'"
    by (rule foldM_appends) (use ev in auto)
  then obtain s' where s': "foldM (ev 0 l (pos + 2)) ?s [0..<length xs] = Some s'"
    "appends (map g [0..<length xs]) ?s s'" by blast
  have "walk_couples chk ev buf (pos + cs) [0] pos s = Some s'"
    unfolding walk_couples.simps w r Let_def bind.bind_lunit sz lay [symmetric] n chk [OF fr]
    using s'(1) cs(1) e by simp
  then show ?thesis using s'(2) by blast
qed

section \<open>One board aggregate\<close>

definition id_word :: "u32 \<Rightarrow> bool \<Rightarrow> u32" where
  "id_word board fail = push_bit 27 (board AND 0x1F) OR push_bit 26 (of_bool fail) OR 1"

lemma hex_masks: "(0x1F :: u32) = mask 5" "(0xFF :: u32) = mask 8" "(0x0FFFFFFF :: u32) = mask 28"
    "(0xF8000000 :: u32) = push_bit 27 (mask 5)" "(0xA0000000 :: u32) = push_bit 28 0xA"
  by (simp_all add: mask_eq_exp_minus_1)

lemma id_word_fields:
  "drop_bit 27 (id_word board fail AND 0xF8000000) = board AND 0x1F"
  "id_word board fail AND 0xFF = 1"
  "(drop_bit 26 (id_word board fail) AND 1 \<noteq> 0) = fail"
proof -
  show "drop_bit 27 (id_word board fail AND 0xF8000000) = board AND 0x1F"
    unfolding hex_masks by (rule bit_word_eqI) (auto simp: id_word_def hex_masks bit_simps)
  show "id_word board fail AND 0xFF = 1"
    unfolding hex_masks by (rule bit_word_eqI) (auto simp: id_word_def hex_masks bit_simps)
  show "(drop_bit 26 (id_word board fail) AND 1 \<noteq> 0) = fail"
    unfolding bit_test by (simp add: id_word_def bit_simps)
qed

lemma size_word_fields:
  assumes "n < 2 ^ 28"
  shows "drop_bit 28 (0xA0000000 OR (of_nat n AND 0x0FFFFFFF) :: u32) = 0xA"
    and "unat ((0xA0000000 OR (of_nat n AND 0x0FFFFFFF)) AND 0x0FFFFFFF :: u32) = n"
proof -
  have a: "bit (0xA :: u32) i \<Longrightarrow> i < 4" for i
  proof -
    have "take_bit 4 (0xA :: u32) = 0xA" by simp
    then show "bit (0xA :: u32) i \<Longrightarrow> i < 4" by (metis bit_take_bit_iff)
  qed
  show "drop_bit 28 (0xA0000000 OR (of_nat n AND 0x0FFFFFFF) :: u32) = 0xA"
    unfolding hex_masks by (rule bit_word_eqI) (auto simp: bit_simps dest: a)
  have "take_bit 28 (0xA0000000 :: u32) = 0" by simp
  then have "(0xA0000000 OR (of_nat n AND 0x0FFFFFFF)) AND 0x0FFFFFFF = (of_nat n AND 0x0FFFFFFF :: u32)"
    unfolding hex_masks(3) take_bit_eq_mask [symmetric] take_bit_or by simp
  also have "of_nat n AND 0x0FFFFFFF = (of_nat n :: u32)"
    using assms unfolding hex_masks take_bit_eq_mask [symmetric]
    by (simp add: take_bit_of_nat take_bit_nat_eq_self)
  finally show "unat ((0xA0000000 OR (of_nat n AND 0x0FFFFFFF)) AND 0x0FFFFFFF :: u32) = n"
    using assms by (simp only: unat_of_nat) simp
qed

lemma channel_couples_1: "channel_couples 1 = [0]"
  by (simp add: channel_couples_def upt_rec)

text \<open>A board of this format is registered with the decoder, and its entry is intact.\<close>

definition x730_board :: "bool \<Rightarrow> string \<Rightarrow> BoardDec \<Rightarrow> bool" where
  "x730_board pha name bd \<longleftrightarrow> is_x730 name \<and> supported bd \<and> isPHA bd = pha \<and>
     built_for (if pha then DPPFirmware_PHA else DPPFirmware_PSD) name (frame bd)"

lemma x730_board_step:
  "x730_board pha name bd \<Longrightarrow>
     x730_board pha name (bd\<lparr> frame := fst (SetDataFormat (frame bd) w), clock := ck \<rparr>)"
  by (simp add: x730_board_def built_for_SetDataFormat)

lemma x730_board_layout:
  "x730_board pha name bd \<Longrightarrow> x730_format nW fmt \<Longrightarrow>
     x730_layout pha nW (fLayout (fst (SetDataFormat (frame bd) fmt)))"
  by (cases pha) (auto simp: x730_board_def intro: x730_layout_PSD x730_layout_PHA)

lemma x730_board_size:
  "x730_board pha name bd \<Longrightarrow> fSizeFormat (frame bd) = (0, if pha then 30 else 21)"
  by (cases pha) (simp_all add: x730_board_def built_for_def Let_def x730_tables)

definition x730_hit :: "bool \<Rightarrow> nat \<Rightarrow> X730Hit \<Rightarrow> DecodedEvent" where
  "x730_hit pha = (if pha then pha_hit else psd_hit)"

lemma aggregate_words_unfold:
  "aggregate_words board fail cnt tag fmt nW xs =
     (0xA0000000 OR (of_nat (6 + length xs * (2 + nW)) AND 0x0FFFFFFF)) # id_word board fail # cnt # tag #
     of_nat (2 + length xs * (2 + nW)) # fmt # concat (map hit_words xs)"
proof -
  have "4 + (2 + m) = 6 + m" for m :: nat by simp
  then show ?thesis
    by (simp only: aggregate_words_def aggregate_header_def id_word_def append_Cons append_Nil)
qed

lemma length_aggregate_words:
  "\<forall>x \<in> set xs. length (x_trace x) = nW \<Longrightarrow>
     length (aggregate_words board fail cnt tag fmt nW xs) = 6 + length xs * (2 + nW)"
  using length_hits [of xs nW] by (simp add: aggregate_words_unfold)

text \<open>The state of the decoder after an aggregate of a registered x730 board.\<close>

definition x730_registered :: "bool \<Rightarrow> string \<Rightarrow> u32 \<Rightarrow> AggregateDecoder \<Rightarrow> bool" where
  "x730_registered pha name board d \<longleftrightarrow> decoder_ok d \<and>
     (\<exists>bd. omap_lookup (dec_boards d) board = Some bd \<and> x730_board pha name bd)"

definition counted :: "bool \<Rightarrow> DecCounters \<Rightarrow> DecCounters" where
  "counted fail c = (if fail then c\<lparr> dc_boardFail := dc_boardFail c + 1 \<rparr> else c)"

lemma decode_aggregate_x730:
  assumes buf: "drop off buf = aggregate_words board fail cnt tag fmt nW xs @ rest"
    and tr: "\<forall>x \<in> set xs. length (x_trace x) = nW" and fmt: "x730_format nW fmt"
    and sz: "2 + length xs * (2 + nW) < 2 ^ 22" and len: "length buf < 2 ^ 31"
    and reg: "x730_registered pha name (board AND 0x1F) (fst s)"
  shows "\<exists>s'. decode_aggregate buf off (6 + length xs * (2 + nW)) s = Some s' \<and>
    map untimed (snd s') = map untimed (snd s) @ map (x730_hit pha (unat (board AND 0x1F))) xs \<and>
    dec_counters (fst s') = counted fail (dec_counters (fst s)) \<and> decoder_ok (fst s') \<and>
    (\<forall>p n b. x730_registered p n b (fst s) \<longrightarrow> x730_registered p n b (fst s'))"
proof -
  let ?b = "board AND 0x1F"
  let ?cs = "2 + length xs * (2 + nW)"
  let ?d = "if fail then incr_boardFail (fst s) else fst s"
  have lb: "off + (6 + length xs * (2 + nW)) \<le> length buf"
    using arg_cong [OF buf, of length] length_aggregate_words [OF tr] by simp
  have o: "w32 (off + 1) = off + 1" "w32 (off + (4 + ?cs)) = off + 4 + ?cs" "w32 (off + 4) = off + 4"
    using lb len by (simp_all add: w32_id)
  have d1: "drop (off + 1) buf = id_word board fail # cnt # tag # of_nat ?cs # fmt # concat (map hit_words xs) @ rest"
    unfolding drop_drop [symmetric, of 1 off, unfolded add.commute [of 1]] buf aggregate_words_unfold by simp
  have d4: "drop (off + 4) buf = of_nat ?cs # fmt # concat (map hit_words xs) @ rest"
    unfolding drop_drop [symmetric, of 4 off, unfolded add.commute [of 4]] buf aggregate_words_unfold by simp
  have h: "rd buf (off + 1) = Some (id_word board fail)"
    using lb d1 by (simp add: rd_def) (metis nth_via_drop)
  obtain bd where bd: "omap_lookup (dec_boards (fst s)) ?b = Some bd" "x730_board pha name bd"
    using reg by (auto simp: x730_registered_def)
  let ?ds = "\<lparr> ds_bd = bd, ds_cnt = dec_counters ?d, ds_evs = snd s \<rparr>"
  let ?fr = "fst (SetDataFormat (frame bd) fmt)"
  have bless: "unat ?b < 32"
    using unat_and_mask_less [of board 5] by (simp add: push_bit_eq_mult)
  have sup: "supported bd" "isPHA bd = pha" using bd(2) by (simp_all add: x730_board_def)
  note lay = x730_board_layout [OF bd(2) fmt]
  have nW: "nW < 2 ^ 15" using fmt by (simp add: x730_format_def)
  have hits: "drop (off + 6) buf = concat (map hit_words xs) @ rest"
    unfolding drop_drop [symmetric, of 6 off, unfolded add.commute [of 6]] buf aggregate_words_unfold by simp
  have ev: "drop (off + 4 + 2 + i * (2 + nW)) buf = hit_words (xs ! i) @
      concat (map hit_words (drop (Suc i) xs)) @ rest" "length (x_trace (xs ! i)) = nW" if "i < length xs" for i
  proof -
    have eq: "drop (off + 4 + 2 + i * (2 + nW)) buf = drop (i * (2 + nW)) (drop (off + 6) buf)"
      by (simp add: add.commute add.left_commute)
    show "drop (off + 4 + 2 + i * (2 + nW)) buf = hit_words (xs ! i) @
      concat (map hit_words (drop (Suc i) xs)) @ rest"
    proof -
      have "i * (2 + nW) - length xs * (2 + nW) = 0"
        using mult_le_mono1 [of i "length xs" "2 + nW"] that by simp
      then show ?thesis
        unfolding eq hits drop_append length_hits [OF tr] drop_hits [OF tr that] by simp
    qed
    show "length (x_trace (xs ! i)) = nW" using tr that by simp
  qed
  let ?g = "\<lambda>i. x730_hit pha (unat ?b) (xs ! i)"
  have walk: "\<exists>ds. walk_couples chk evt buf (off + 4 + ?cs) [0] (off + 4) ?ds = Some ds \<and>
      appends (map ?g [0..<length xs]) (?ds\<lparr> ds_bd := bd\<lparr> frame := ?fr \<rparr> \<rparr>) ds"
    if c: "\<And>l b is. x730_layout pha nW l \<Longrightarrow> chk l b is = Some False"
      and e: "\<And>t i. i < length xs \<Longrightarrow> \<exists>t'. evt 0 (fLayout ?fr) (off + 4 + 2) t i = Some t' \<and>
        appends [?g i] t t'" for chk evt
  proof -
    have "\<exists>ds. walk_couples chk evt buf (off + 4 + ?cs) [0] (off + 4) ?ds = Some ds \<and>
      appends (map ?g [0..<length xs])
        (?ds\<lparr> ds_bd := (ds_bd ?ds)\<lparr> frame := fst (SetDataFormat (frame (ds_bd ?ds)) fmt) \<rparr> \<rparr>) ds"
      by (rule walk_one_couple [where n = "if pha then 30 else 21" and pha = pha and nW = nW, OF d4 refl])
        (use x730_board_size [OF bd(2)] sz lay tr len c e in \<open>auto intro: less_le_trans\<close>)
    then show ?thesis by simp
  qed
  have "\<exists>ds. (if isPHA bd then decodePHA buf ?b 1 off (4 + ?cs) ?ds
      else decodePSD buf ?b 1 off (4 + ?cs) ?ds) = Some ds \<and>
      appends (map ?g [0..<length xs]) (?ds\<lparr> ds_bd := bd\<lparr> frame := ?fr \<rparr> \<rparr>) ds"
    unfolding decodePHA_def decodePSD_def PHA_couples_walk PSD_couples_walk channel_couples_1
      kAggHeaderWords_def o sup(2)
  proof (cases pha)
    case True
    have "\<exists>t'. PHA_event buf ?b 0 (fLayout ?fr) (off + 4 + 2) t i = Some t' \<and> appends [?g i] t t'"
      if "i < length xs" for t i
    proof -
      have "x730_layout True nW (fLayout ?fr)" using lay True by simp
      from pha_event [OF this ev [OF that] len nW bless, of t] obtain ck tm where
        e: "PHA_event buf ?b 0 (fLayout ?fr) (off + 4 + 2) t i =
          Some (emit ((pha_hit (unat ?b) (xs ! i))\<lparr> timePs := tm \<rparr>) (t\<lparr> ds_bd := (ds_bd t)\<lparr> clock := ck \<rparr> \<rparr>))"
        by blast
      have "appends [?g i] t
          (emit ((pha_hit (unat ?b) (xs ! i))\<lparr> timePs := tm \<rparr>) (t\<lparr> ds_bd := (ds_bd t)\<lparr> clock := ck \<rparr> \<rparr>))"
        by (rule appends_emit) (simp add: x730_hit_def True)
      then show ?thesis unfolding e by blast
    qed
    then show "\<exists>ds. (if pha then walk_couples (PHA_check buf) (PHA_event buf ?b) buf (off + 4 + ?cs) [0] (off + 4) ?ds
        else walk_couples (\<lambda>_ _ _. Some False) (PSD_event buf ?b) buf (off + 4 + ?cs) [0] (off + 4) ?ds) = Some ds \<and>
      appends (map ?g [0..<length xs]) (?ds\<lparr> ds_bd := bd\<lparr> frame := ?fr \<rparr> \<rparr>) ds"
      using walk [of "PHA_check buf" "PHA_event buf ?b"] True by (simp add: PHA_check_def x730_layout_def)
  next
    case False
    have "\<exists>t'. PSD_event buf ?b 0 (fLayout ?fr) (off + 4 + 2) t i = Some t' \<and> appends [?g i] t t'"
      if "i < length xs" for t i
    proof -
      have "x730_layout False nW (fLayout ?fr)" using lay False by simp
      from psd_event [OF this ev [OF that] len nW bless, of t] obtain ck tm where
        e: "PSD_event buf ?b 0 (fLayout ?fr) (off + 4 + 2) t i =
          Some (emit ((psd_hit (unat ?b) (xs ! i))\<lparr> timePs := tm \<rparr>) (t\<lparr> ds_bd := (ds_bd t)\<lparr> clock := ck \<rparr> \<rparr>))"
        by blast
      have "appends [?g i] t
          (emit ((psd_hit (unat ?b) (xs ! i))\<lparr> timePs := tm \<rparr>) (t\<lparr> ds_bd := (ds_bd t)\<lparr> clock := ck \<rparr> \<rparr>))"
        by (rule appends_emit) (simp add: x730_hit_def False)
      then show ?thesis unfolding e by blast
    qed
    then show "\<exists>ds. (if pha then walk_couples (PHA_check buf) (PHA_event buf ?b) buf (off + 4 + ?cs) [0] (off + 4) ?ds
        else walk_couples (\<lambda>_ _ _. Some False) (PSD_event buf ?b) buf (off + 4 + ?cs) [0] (off + 4) ?ds) = Some ds \<and>
      appends (map ?g [0..<length xs]) (?ds\<lparr> ds_bd := bd\<lparr> frame := ?fr \<rparr> \<rparr>) ds"
      using walk [of "\<lambda>_ _ _. Some False" "PSD_event buf ?b"] False by simp
  qed
  then obtain ds where ds: "(if isPHA bd then decodePHA buf ?b 1 off (4 + ?cs) ?ds
      else decodePSD buf ?b 1 off (4 + ?cs) ?ds) = Some ds"
    "appends (map ?g [0..<length xs]) (?ds\<lparr> ds_bd := bd\<lparr> frame := ?fr \<rparr> \<rparr>) ds" by blast
  let ?d' = "?d\<lparr> dec_boards := omap_store ?b (ds_bd ds) (dec_boards ?d), dec_counters := ds_cnt ds \<rparr>"
  have bds: "dec_boards ?d = dec_boards (fst s)" by (simp add: incr_boardFail_def)
  have al: "6 + length xs * (2 + nW) = 4 + ?cs" by simp
  have st: "decode_aggregate buf off (6 + length xs * (2 + nW)) s = Some (?d', ds_evs ds)"
    unfolding decode_aggregate_def o h bind.bind_lunit Let_def id_word_fields al bds
    using bd(1) sup(1) ds(1) by simp
  have g: "map ?g [0..<length xs] = map (x730_hit pha (unat ?b)) xs"
    by (intro nth_equalityI) simp_all
  obtain ck where ck: "ds_bd ds = bd\<lparr> frame := ?fr, clock := ck \<rparr>"
    using ds(2) by (auto simp: appends_def)
  have cnt: "ds_cnt ds = counted fail (dec_counters (fst s))"
    using ds(2) by (simp add: appends_def counted_def incr_boardFail_def)
  have ok: "decoder_ok (fst s)" using reg by (simp add: x730_registered_def)
  have "board_ok bd" using ok bd(1) by (auto simp: decoder_ok_def)
  then have "board_ok (ds_bd ds)"
    unfolding ck by (simp add: board_ok_def frame_ok_SetDataFormat)
  then have "decoder_ok ?d'" using ok by (simp add: decoder_ok_store)
  moreover have "omap_lookup (dec_boards ?d') b = (if b = ?b then Some (ds_bd ds)
      else omap_lookup (dec_boards (fst s)) b)" for b
    using ok by (simp add: decoder_ok_def bds)
  ultimately have "x730_registered p n b (fst s) \<longrightarrow> x730_registered p n b ?d'" for p n b
    using x730_board_step [of p n bd] bd(1) unfolding x730_registered_def ck by fastforce
  then show ?thesis
    unfolding st using ds(2) cnt g \<open>decoder_ok ?d'\<close> by (auto simp: appends_def)
qed

section \<open>A readout buffer\<close>

record X730Aggregate =
  ag_pha :: bool
  ag_model :: string
  ag_board :: u32
  ag_fail :: bool
  ag_count :: u32
  ag_tag :: u32
  ag_format :: u32
  ag_nW :: nat
  ag_hits :: "X730Hit list"

definition agg_words :: "X730Aggregate \<Rightarrow> u32 list" where
  "agg_words a = aggregate_words (ag_board a) (ag_fail a) (ag_count a) (ag_tag a) (ag_format a) (ag_nW a) (ag_hits a)"

definition agg_size :: "X730Aggregate \<Rightarrow> nat" where
  "agg_size a = 6 + length (ag_hits a) * (2 + ag_nW a)"

definition agg_ok :: "AggregateDecoder \<Rightarrow> X730Aggregate \<Rightarrow> bool" where
  "agg_ok d a \<longleftrightarrow> (\<forall>x \<in> set (ag_hits a). length (x_trace x) = ag_nW a) \<and>
     x730_format (ag_nW a) (ag_format a) \<and> agg_size a < 2 ^ 22 \<and>
     x730_registered (ag_pha a) (ag_model a) (ag_board a AND 0x1F) d"

definition agg_events :: "X730Aggregate \<Rightarrow> DecodedEvent list" where
  "agg_events a = map (x730_hit (ag_pha a) (unat (ag_board a AND 0x1F))) (ag_hits a)"

lemma length_agg_words: "agg_ok d a \<Longrightarrow> length (agg_words a) = agg_size a"
  by (simp add: agg_ok_def agg_words_def agg_size_def length_aggregate_words)

lemma decode_loop_x730:
  assumes "drop off buf = concat (map agg_words as)" "off \<le> length buf" "length buf < 2 ^ 31"
    and "\<forall>a \<in> set as. agg_ok (fst s) a"
  shows "\<exists>s'. decode_loop buf (length buf) off s = Some s' \<and>
    map untimed (snd s') = map untimed (snd s) @ concat (map agg_events as) \<and>
    dec_counters (fst s') = foldl (\<lambda>c a. counted (ag_fail a) c) (dec_counters (fst s)) as \<and>
    (\<forall>p n b. x730_registered p n b (fst s) \<longrightarrow> x730_registered p n b (fst s'))"
  using assms(1,2,4)
proof (induction as arbitrary: off s)
  case Nil
  then have "off = length buf" by simp
  then have "\<not> w32 (off + kAggHeaderWords) \<le> length buf"
    using assms(3) by (simp add: w32_id kAggHeaderWords_def)
  then show ?case by (subst decode_loop.simps) simp
next
  case (Cons a as)
  let ?n = "agg_size a"
  have a: "agg_ok (fst s) a" using Cons.prems(3) by simp
  have d: "drop off buf = agg_words a @ concat (map agg_words as)" using Cons.prems(1) by simp
  have lb: "off + ?n \<le> length buf"
    using arg_cong [OF d, of length] length_agg_words [OF a] Cons.prems(2) by simp
  have n: "6 \<le> ?n" "?n < 2 ^ 28" using a by (simp_all add: agg_size_def agg_ok_def)
  have w: "w32 (off + kAggHeaderWords) \<le> length buf" "w32 (off + ?n) = off + ?n"
    using lb n assms(3) by (simp_all add: w32_id kAggHeaderWords_def)
  have h: "buf ! off = 0xA0000000 OR (of_nat ?n AND 0x0FFFFFFF)"
    using d by (simp add: agg_words_def aggregate_words_unfold agg_size_def nth_via_drop)
  have r: "rd buf off = Some (buf ! off)" using lb n by simp
  obtain s1 where s1: "decode_aggregate buf off ?n s = Some s1"
    "map untimed (snd s1) = map untimed (snd s) @ agg_events a"
    "dec_counters (fst s1) = counted (ag_fail a) (dec_counters (fst s))"
    "\<And>p n b. x730_registered p n b (fst s) \<Longrightarrow> x730_registered p n b (fst s1)"
    using decode_aggregate_x730 [OF d [unfolded agg_words_def] _ _ _ assms(3), of "ag_pha a" "ag_model a" s] a
    unfolding agg_ok_def agg_size_def agg_events_def by auto
  have "drop (off + ?n) buf = concat (map agg_words as)"
    using d length_agg_words [OF a] by (metis add.commute append_eq_conv_conj drop_drop)
  moreover have "\<forall>a \<in> set as. agg_ok (fst s1) a"
    using Cons.prems(3) s1(4) by (simp add: agg_ok_def)
  ultimately obtain s' where s': "decode_loop buf (length buf) (off + ?n) s1 = Some s'"
    "map untimed (snd s') = map untimed (snd s1) @ concat (map agg_events as)"
    "dec_counters (fst s') = foldl (\<lambda>c a. counted (ag_fail a) c) (dec_counters (fst s1)) as"
    "\<And>p n b. x730_registered p n b (fst s1) \<Longrightarrow> x730_registered p n b (fst s')"
    using Cons.IH [of "off + ?n" s1] lb by blast
  have "decode_loop buf (length buf) off s = Some s'"
    using w lb n s1(1) s'(1) size_word_fields [OF n(2)]
    by (subst decode_loop.simps) (simp add: r h kAggHeaderWords_def)
  then show ?case using s1 s' by auto
qed

lemma decode_x730:
  assumes "\<forall>a \<in> set as. agg_ok d a" and "sum_list (map agg_size as) < 2 ^ 31"
  shows "\<exists>d' evs. decode d (bytes_of_words (concat (map agg_words as))) = Some (d', evs) \<and>
    map untimed evs = concat (map agg_events as) \<and>
    dec_counters d' = foldl (\<lambda>c a. counted (ag_fail a) c) (dec_counters d) as \<and>
    (\<forall>p n b. x730_registered p n b d \<longrightarrow> x730_registered p n b d')"
proof -
  let ?buf = "concat (map agg_words as)"
  have "length ?buf = sum_list (map agg_size as)"
    using assms(1) length_agg_words by (induction as) auto
  then have len: "length ?buf < 2 ^ 31" using assms(2) by simp
  have w: "words_of_bytes (bytes_of_words ?buf) = ?buf"
    using words_of_bytes_of_words [of ?buf "[]"] by simp
  have "w32 (length (bytes_of_words ?buf) div 4) = length ?buf" using len by (simp add: w32_id)
  then show ?thesis
    unfolding decode_def w using decode_loop_x730 [of 0 ?buf as "(d, [])"] assms(1) len by auto
qed

text \<open>
  C10. The decoder is complete on the x730 format: a buffer holding any sequence of well-formed
  board aggregates of registered boards, of either firmware, with or without traces, decodes to
  exactly the hits they were written from, in order, with channel, time stamp, energy or
  charges, flags and trace intact; nothing is counted corrupt, and the board-fail counter
  advances by the number of aggregates that carry the bit.
\<close>

theorem decode_inverts_x730:
  assumes "\<forall>a \<in> set as. agg_ok d a" and "sum_list (map agg_size as) < 2 ^ 31"
  shows "\<exists>d' evs. decode d (bytes_of_words (concat (map agg_words as))) = Some (d', evs) \<and>
    map untimed evs = concat (map agg_events as) \<and>
    dec_counters d' = foldl (\<lambda>c a. counted (ag_fail a) c) (dec_counters d) as"
  using decode_x730 [OF assms] by blast

text \<open>Registering a board of the family makes it such a board.\<close>

lemma registerBoard_x730:
  assumes "is_x730 name" "dpp \<in> {PHA, PSD}" "decoder_ok d"
  shows "x730_registered (dpp = PHA) name b (registerBoard b dpp name ps d)"
proof -
  let ?bd = "\<lparr> frame = Build (DataFrame_new (toCaenDpp dpp) name), isPHA = (dpp \<noteq> PSD),
    supported = IsSupported (Build (DataFrame_new (toCaenDpp dpp) name)), psPerTick = ps, clock = ChannelClock_init \<rparr>"
  have "x730_board (dpp = PHA) name ?bd"
    using assms IsSupported_new_Build [of name] built_for_new [of _ name]
    by (auto simp: x730_board_def toCaenDpp_def is_x730_def PSD_IsX730Family_def PHA_IsX730Family_def)
  moreover have "decoder_ok (registerBoard b dpp name ps d)"
    using assms(3) by (rule decoder_ok_registerBoard)
  moreover have "omap_lookup (dec_boards (registerBoard b dpp name ps d)) b = Some ?bd"
    using assms(3) by (simp add: registerBoard_def Let_def decoder_ok_def)
  ultimately show ?thesis by (auto simp: x730_registered_def)
qed

definition demo_agg :: X730Aggregate where
  "demo_agg = \<lparr> ag_pha = False, ag_model = ''DT5730'', ag_board = 3, ag_fail = True, ag_count = 7, ag_tag = 9,
     ag_format = 0x60000000, ag_nW = 0,
     ag_hits = [\<lparr> x_odd = True, x_time = 1000, x_trace = [], x_data = 0x012C8064 \<rparr>] \<rparr>"

lemma demo_agg_ok: "agg_ok (registerBoard 3 PSD ''DT5730'' 2000 AggregateDecoder_init) demo_agg"
proof -
  let ?d = "registerBoard 3 PSD ''DT5730'' 2000 AggregateDecoder_init"
  have "x730_registered (PSD = PHA) ''DT5730'' 3 ?d"
    by (rule registerBoard_x730) (auto simp: is_x730_def intro!: inv_intros)
  moreover have "x730_format 0 0x60000000" by (simp add: x730_format_def bit_iff_odd_drop_bit)
  ultimately show ?thesis by (simp add: agg_ok_def demo_agg_def agg_size_def)
qed

theorem decode_inverts_x730_witness:
  "\<exists>d' evs. decode (registerBoard 3 PSD ''DT5730'' 2000 AggregateDecoder_init)
       (bytes_of_words (agg_words demo_agg @ agg_words demo_agg)) = Some (d', evs) \<and>
     map qlong evs = [300, 300] \<and> dc_boardFail (dec_counters d') = 2"
proof -
  let ?d = "registerBoard 3 PSD ''DT5730'' 2000 AggregateDecoder_init"
  have "sum_list (map agg_size [demo_agg, demo_agg]) < 2 ^ 31" by (simp add: agg_size_def demo_agg_def)
  then obtain d' evs where r: "decode ?d (bytes_of_words (concat (map agg_words [demo_agg, demo_agg]))) = Some (d', evs)"
    "map untimed evs = concat (map agg_events [demo_agg, demo_agg])"
    "dec_counters d' = foldl (\<lambda>c a. counted (ag_fail a) c) (dec_counters ?d) [demo_agg, demo_agg]"
    using decode_inverts_x730 [of "[demo_agg, demo_agg]" ?d] demo_agg_ok by auto
  have "map qlong evs = map qlong (map untimed evs)" by (simp add: untimed_def comp_def)
  also have "\<dots> = [300, 300]"
    unfolding r(2) by (simp add: agg_events_def demo_agg_def x730_hit_def psd_hit_def)
  finally show ?thesis
    using r(1,3) by (simp add: counted_def demo_agg_def registerBoard_def Let_def AggregateDecoder_init_def)
qed

end
