(* ===== verification/Mock_Digitizer.thy ===== *)
theory Mock_Digitizer
  imports X730_Aggregate Ordered_Map
begin

text \<open>
  \<open>MockDigitizer\<close>: the hardware-free board. Its \<open>read\<close> fabricates one x730 aggregate; the
  steady clock is an input, in nanoseconds. The readout buffer is the returned block; log lines
  and the one millisecond sleep of an empty read are not modelled.
\<close>

section \<open>State\<close>

record MockOptions =
  minBytes :: nat
  maxBytes :: nat
  ratePerSec :: u32
  waveforms :: bool
  traceSamples :: u32
  failEvery :: u32
  mo_dpp :: DppType
  mo_boardId :: u32
  mo_startMode :: u32

definition MockOptions_init :: MockOptions where
  "MockOptions_init =
     \<lparr> minBytes = 4096, maxBytes = 65536, ratePerSec = 200, waveforms = False, traceSamples = 128,
       failEvery = 0, mo_dpp = PSD, mo_boardId = 0, mo_startMode = kStartModeSW \<rparr>"

record MockDigitizer =
  m_params :: BoardParams
  m_opt :: MockOptions
  m_info :: BoardInfo
  m_open :: bool
  m_running :: bool
  m_registers :: "(u32, u32) omap"
  m_lfsr :: u32
  m_counter :: u64
  m_nextEmit :: int
  m_started :: int

definition MockDigitizer_new :: "BoardParams \<Rightarrow> MockOptions \<Rightarrow> MockDigitizer" where
  "MockDigitizer_new params opt =
     (let opt = (if maxBytes opt < minBytes opt then opt\<lparr> maxBytes := minBytes opt \<rparr> else opt)
      in \<lparr> m_params = params, m_opt = opt,
           m_info = BoardInfo_init\<lparr>
             modelName := ''MOCK-V1730'', model := 730, familyCode := 0, bi_channels := 16, adcNBits := 14,
             serialNumber := 4818, boardRegId := mo_boardId opt AND 0x1F, dppType := mo_dpp opt,
             nsPerSample := 2, nsPerTimetag := 8, rocFirmware := ''mock-roc'', amcFirmware := ''mock-amc'',
             acquisitionControl := mo_startMode opt AND 0x3, channelEnableMask := 0xFFFF,
             bi_connType := connType params, bi_linkNum := linkNum params, bi_node := node params,
             bi_vmeBase := vmeBase params \<rparr>,
           m_open = False, m_running = False, m_registers = [], m_lfsr = 0x1234567, m_counter = 0,
           m_nextEmit = 0, m_started = 0 \<rparr>)"

definition nextRand :: "u32 \<Rightarrow> u32" where
  "nextRand l =
     (let l = l XOR push_bit 13 l; l = l XOR drop_bit 17 l in l XOR push_bit 5 l)"

section \<open>Control operations\<close>

definition mock_open :: "MockDigitizer \<Rightarrow> bool \<times> MockDigitizer" where
  "mock_open m = (True, m\<lparr> m_open := True \<rparr>)"

definition mock_configure :: "MockDigitizer \<Rightarrow> bool \<times> MockDigitizer" where
  "mock_configure m = (True, m)"

definition mock_start :: "int \<Rightarrow> MockDigitizer \<Rightarrow> bool \<times> MockDigitizer" where
  "mock_start now m =
     (True, m\<lparr> m_running := True, m_counter := 0, m_nextEmit := now, m_started := now \<rparr>)"

definition mock_arm :: "int \<Rightarrow> MockDigitizer \<Rightarrow> bool \<times> MockDigitizer" where
  "mock_arm now m = mock_start now m"

definition mock_sendSWTrigger :: "MockDigitizer \<Rightarrow> bool \<times> MockDigitizer" where
  "mock_sendSWTrigger m = (True, m)"

definition mock_startMode :: "MockDigitizer \<Rightarrow> u32" where
  "mock_startMode m = mo_startMode (m_opt m)"

definition mock_writeRegister :: "u32 \<Rightarrow> u32 \<Rightarrow> MockDigitizer \<Rightarrow> bool \<times> MockDigitizer" where
  "mock_writeRegister a v m =
     (if \<not> m_open m then (False, m)
      else (True, m\<lparr> m_registers := omap_store a v (m_registers m) \<rparr>))"

definition mock_readRegister :: "u32 \<Rightarrow> MockDigitizer \<Rightarrow> u32 option" where
  "mock_readRegister a m =
     (if \<not> m_open m then None
      else Some (case omap_lookup (m_registers m) a of None \<Rightarrow> 0 | Some v \<Rightarrow> v))"

definition mock_stop :: "MockDigitizer \<Rightarrow> bool \<times> MockDigitizer" where
  "mock_stop m = (True, m\<lparr> m_running := False \<rparr>)"

definition mock_close :: "MockDigitizer \<Rightarrow> MockDigitizer" where
  "mock_close m = (if \<not> m_open m then m else m\<lparr> m_open := False \<rparr>)"

section \<open>Reading\<close>

text \<open>The synthetic pulse, and the trace words of one event.\<close>

definition s32 :: "nat \<Rightarrow> int" where
  "s32 n = (int n + 2 ^ 31) mod 2 ^ 32 - 2 ^ 31"

definition mock_sample :: "nat \<Rightarrow> nat" where
  "mock_sample idx =
     (let v = (if 20 \<le> idx \<and> idx < 30 then 1000 + (int idx - 20) * 250
               else if idx \<ge> 30 then 3500 - s32 (w32 ((idx - 30) * 30)) else 1000);
          v = (if v < 300 then 300 else v);
          v = (if v > 16383 then 16383 else v)
      in nat v)"

definition mock_trace :: "nat \<Rightarrow> u32 list" where
  "mock_trace nSamp =
     map (\<lambda>k. (of_nat (mock_sample (2 * k)) AND 0x3FFF)
              OR push_bit 16 (of_nat (mock_sample (2 * k + 1)) AND 0x3FFF)) [0..<nSamp div 2]"

text \<open>The time word's counter value: channel 1 fires after channel 0, a third of the time in coincidence.\<close>

definition mock_time :: "nat \<Rightarrow> nat \<Rightarrow> nat \<Rightarrow> u32 \<Rightarrow> u32 \<times> u32" where
  "mock_time base pairStep e l =
     (let t = w64 (base + w64 ((e div 2) * pairStep));
          (t, l) = (if odd e
                    then let l = nextRand l in
                      if unat l mod 3 = 0 then (w64 (t + 10), l)
                      else let l = nextRand l
                           in (w64 (t + w64 (1 + unat l mod (pairStep div 2 + 1))), l)
                    else (t, l))
      in (of_nat t AND 0x7FFFFFFF, l))"

definition mock_data :: "DppType \<Rightarrow> u32 \<Rightarrow> u32 \<times> u32" where
  "mock_data dpp l =
     (let l = nextRand l;
          pileup = (if unat l mod 20 = 0 then 1 else 0 :: u32)
      in if dpp = PHA
         then let l1 = nextRand l; l2 = nextRand l1;
                  noise = unat l1 mod 1600 + unat l2 mod 1600;
                  energy = of_nat (8000 + noise) AND 0x7FFF
              in (energy OR push_bit 15 pileup, l2)
         else let l1 = nextRand l; l2 = nextRand l1; l3 = nextRand l2;
                  noise = unat l1 mod 800 + unat l2 mod 800 + unat l3 mod 800;
                  qlong = of_nat (4800 + noise) AND 0xFFFF;
                  qshort = of_nat (unat qlong div 2) AND 0x7FFF
              in (qshort OR push_bit 15 pileup OR push_bit 16 qlong, l3))"

fun mock_hits :: "DppType \<Rightarrow> nat \<Rightarrow> nat \<Rightarrow> nat \<Rightarrow> nat list \<Rightarrow> u32 \<Rightarrow> X730Hit list \<times> u32" where
  "mock_hits dpp nSamp base pairStep [] l = ([], l)"
| "mock_hits dpp nSamp base pairStep (e # es) l =
     (let (ts, l) = mock_time base pairStep e l;
          (d, l) = mock_data dpp l;
          (hs, l) = mock_hits dpp nSamp base pairStep es l
      in (\<lparr> x_odd = odd e, x_time = ts, x_trace = mock_trace nSamp, x_data = d \<rparr> # hs, l))"

definition mock_nSamp :: "MockOptions \<Rightarrow> nat" where
  "mock_nSamp opt =
     (if waveforms opt \<and> traceSamples opt \<ge> 2 then unat (traceSamples opt AND NOT 0xF) else 0)"

definition mock_trace_on :: "MockOptions \<Rightarrow> bool" where
  "mock_trace_on opt \<longleftrightarrow> waveforms opt \<and> traceSamples opt \<ge> 2"

definition mock_format :: "MockOptions \<Rightarrow> u32" where
  "mock_format opt =
     (let fmt = push_bit 30 1 OR push_bit 29 1 in
      if mock_trace_on opt
      then fmt OR push_bit 27 1 OR (of_nat (mock_nSamp opt div 8) AND 0xFFFF)
      else fmt)"

text \<open>The emission period in nanoseconds; whether this aggregate carries the board-FAIL bit.\<close>

definition mock_period :: "MockOptions \<Rightarrow> nat" where
  "mock_period opt = 1000000000 div (if ratePerSec opt \<noteq> 0 then unat (ratePerSec opt) else 1)"

definition mock_fail :: "MockOptions \<Rightarrow> u32 \<Rightarrow> bool \<times> u32" where
  "mock_fail opt l =
     (if failEvery opt \<noteq> 0 then let l = nextRand l in (unat l mod unat (failEvery opt) = 0, l)
      else (False, l))"

text \<open>The first tick of the period just emitted, and the spacing of the hit pairs in it.\<close>

definition mock_window :: "MockDigitizer \<Rightarrow> nat \<Rightarrow> nat \<times> nat" where
  "mock_window m nEvents =
     (let tickNs = (if nsPerSample (m_info m) \<noteq> 0 then unat (nsPerSample (m_info m)) else 1);
          nowTicks = nat ((m_nextEmit m - m_started m) mod 2 ^ 64) div tickNs;
          spanTicks = mock_period (m_opt m) div tickNs;
          pairs = (nEvents + 1) div 2;
          pairStep = (if spanTicks div pairs \<noteq> 0 then spanTicks div pairs else 1);
          base = (if nowTicks > spanTicks then nowTicks - spanTicks else 0)
      in (base, pairStep))"

text \<open>
  The scratch buffer is grown to the aggregate's length first, so the words written are the
  aggregate; with traces of more than about \<open>2 ^ 26\<close> samples the 32-bit length would wrap and
  the writes would leave the buffer, so what is said of \<open>mock_read\<close> is said below \<open>2 ^ 16\<close> samples.
\<close>

definition mock_read :: "int \<Rightarrow> MockDigitizer \<Rightarrow> (bool \<times> RawBlock) \<times> MockDigitizer" where
  "mock_read now m =
     (if \<not> m_running m then ((True, []), m)
      else if now < m_nextEmit m then ((True, []), m)
      else
        let opt = m_opt m;
            m = m\<lparr> m_nextEmit := m_nextEmit m + int (mock_period opt) \<rparr>;
            nSamp = mock_nSamp opt;
            l = nextRand (m_lfsr m);
            nEvents = 8 + unat l mod 24;
            coupleSize = w32 (2 + w32 (nEvents * w32 (2 + nSamp div 2)));
            (fail, l) = mock_fail opt l;
            (base, pairStep) = mock_window m nEvents;
            (hs, l) = mock_hits (dppType (m_info m)) nSamp base pairStep [0..<nEvents] l;
            ws = aggregate_header (boardRegId (m_info m)) fail (ucast (m_counter m AND 0x7FFFFF))
                   (ucast (m_counter m)) coupleSize (mock_format opt) @ concat (map hit_words hs)
        in ((True, bytes_of_words ws), m\<lparr> m_lfsr := l, m_counter := m_counter m + 1 \<rparr>))"

section \<open>The register file\<close>

text \<open>
  What online tuning relies on: a register holds what was last written to it, and writing one
  leaves the others alone.
\<close>

locale register_bank =
  fixes is_open :: "'b \<Rightarrow> bool"
    and reg_write :: "u32 \<Rightarrow> u32 \<Rightarrow> 'b \<Rightarrow> bool \<times> 'b"
    and reg_read :: "u32 \<Rightarrow> 'b \<Rightarrow> u32 option"
    and good :: "'b \<Rightarrow> bool"
  assumes write_closed: "\<not> is_open b \<Longrightarrow> reg_write a v b = (False, b)"
    and read_closed: "\<not> is_open b \<Longrightarrow> reg_read a b = None"
    and write_open: "is_open b \<Longrightarrow> good b \<Longrightarrow> \<exists>b'. reg_write a v b = (True, b') \<and> is_open b' \<and> good b'"
    and read_write: "is_open b \<Longrightarrow> good b \<Longrightarrow>
      reg_read a' (snd (reg_write a v b)) = (if a' = a then Some v else reg_read a' b)"
begin

definition write_all :: "(u32 \<times> u32) list \<Rightarrow> 'b \<Rightarrow> 'b" where
  "write_all avs b = foldl (\<lambda>b (a, v). snd (reg_write a v b)) b avs"

lemma write_all_open: "is_open b \<Longrightarrow> good b \<Longrightarrow> is_open (write_all avs b) \<and> good (write_all avs b)"
proof (induction avs arbitrary: b)
  case Nil
  then show ?case by (simp add: write_all_def)
next
  case (Cons av avs)
  obtain a v where av: "av = (a, v)" by (cases av)
  with write_open [OF Cons.prems, of a v] obtain b' where
    "reg_write a v b = (True, b')" "is_open b'" "good b'" by blast
  then show ?case using Cons.IH [of b'] by (simp add: write_all_def av)
qed

text \<open>A register read after any batch of writes holds the last value written to it.\<close>

lemma read_write_all:
  "is_open b \<Longrightarrow> good b \<Longrightarrow> reg_read a (write_all avs b) =
     (case map_of (rev avs) a of None \<Rightarrow> reg_read a b | Some v \<Rightarrow> Some v)"
proof (induction avs rule: rev_induct)
  case Nil
  then show ?case by (simp add: write_all_def)
next
  case (snoc av avs)
  obtain a' v where av: "av = (a', v)" by (cases av)
  have "write_all (avs @ [av]) b = snd (reg_write a' v (write_all avs b))"
    by (simp add: write_all_def av)
  then show ?case
    using snoc write_all_open [OF snoc.prems, of avs] by (simp add: av read_write)
qed

end

definition registers_ok :: "MockDigitizer \<Rightarrow> bool" where
  "registers_ok m \<longleftrightarrow> omap_ok (m_registers m)"

interpretation mock_regs: register_bank m_open mock_writeRegister mock_readRegister registers_ok
  by unfold_locales (auto simp: mock_writeRegister_def mock_readRegister_def registers_ok_def)

text \<open>
  Online tuning of a mock board: after any sequence of register writes to an open board,
  every register that was written reads back the last value written to it, and every other
  register reads as before.
\<close>

theorem mock_register_readback:
  assumes "m_open m" and "omap_ok (m_registers m)"
  shows "mock_readRegister a (foldl (\<lambda>m (a, v). snd (mock_writeRegister a v m)) m avs) =
    (case map_of (rev avs) a of None \<Rightarrow> mock_readRegister a m | Some v \<Rightarrow> Some v)"
  using mock_regs.read_write_all [of m a avs] assms
  by (simp add: mock_regs.write_all_def registers_ok_def)

definition demo_mock :: MockDigitizer where
  "demo_mock = snd (mock_start 0 (snd (mock_open (MockDigitizer_new
     \<lparr> bp_name = ''m'', connType = 0, linkNum = 0, node = 0, vmeBase = 0, configPath = '''' \<rparr>
     (MockOptions_init\<lparr> mo_boardId := 3, waveforms := True, traceSamples := 64 \<rparr>)))))"

theorem mock_register_readback_witness:
  "mock_readRegister 0x8000 (foldl (\<lambda>m (a, v). snd (mock_writeRegister a v m)) demo_mock
     [(0x8000, 1), (0x8100, 4), (0x8000, 7)]) = Some 7"
  using mock_register_readback [of demo_mock "0x8000" "[(0x8000, 1), (0x8100, 4), (0x8000, 7)]"]
  by (simp add: demo_mock_def mock_start_def mock_open_def MockDigitizer_new_def Let_def)

section \<open>What a readout holds\<close>

lemma length_mock_trace: "length (mock_trace nSamp) = nSamp div 2"
  by (simp add: mock_trace_def)

lemma mock_sample_bounds: "300 \<le> mock_sample i" "mock_sample i \<le> 16383"
  by (auto simp: mock_sample_def Let_def le_nat_iff nat_le_iff)

text \<open>The samples of the pulse come back from the packed trace words.\<close>

lemma trace_samples_mock:
  "even n \<Longrightarrow> trace_samples (mock_trace n) = map (\<lambda>i. of_nat (mock_sample i)) [0..<n]"
proof -
  have m: "(0x3FFF :: u32) = mask 14" by (simp add: mask_eq_exp_minus_1)
  have sb: "bit (mock_sample i) j \<Longrightarrow> j < 14" for i j
    using mock_sample_bounds(2) [of i] by (intro bit_nat_less [of "mock_sample i" 14 j]) simp_all
  have unpack: "(ucast (ExtractBits ((of_nat (mock_sample i) AND 0x3FFF)
        OR push_bit 16 (of_nat (mock_sample j) AND 0x3FFF)) 0 13) :: u16) = of_nat (mock_sample i)"
    "(ucast (ExtractBits ((of_nat (mock_sample i) AND 0x3FFF)
        OR push_bit 16 (of_nat (mock_sample j) AND 0x3FFF)) 16 29) :: u16) = of_nat (mock_sample j)" for i j
    unfolding m by (rule bit_word_eqI; auto simp: ExtractBits_take bit_simps dest: sb)+
  have "trace_samples (mock_trace (2 * k)) = map (\<lambda>i. of_nat (mock_sample i)) [0..<2 * k]" for k
  proof (induction k)
    case (Suc k)
    then show ?case
      using unpack [of "2 * k" "Suc (2 * k)"] by (simp add: trace_samples_def mock_trace_def)
  qed (simp add: trace_samples_def mock_trace_def)
  then show "even n \<Longrightarrow> ?thesis" by (auto elim!: evenE)
qed

text \<open>The data word of a hit, for either firmware.\<close>

definition peak_word :: "DppType \<Rightarrow> u32 \<Rightarrow> bool" where
  "peak_word dpp d \<longleftrightarrow>
     (if dpp = PHA then 8000 \<le> unat (d AND 0x7FFF) \<and> unat (d AND 0x7FFF) < 11199
      else 4800 \<le> unat (drop_bit 16 d) \<and> unat (drop_bit 16 d) < 7198 \<and>
        unat (d AND 0x7FFF) = unat (drop_bit 16 d) div 2)"

lemma data_word_fields:
  assumes "p \<in> {0, 1}" and "e < 2 ^ 15" and "q < 2 ^ 16"
  shows "unat (((of_nat e AND 0x7FFF) OR push_bit 15 p) AND 0x7FFF :: u32) = e"
    and "unat (((of_nat e AND 0x7FFF) OR push_bit 15 p OR push_bit 16 (of_nat q AND 0xFFFF)) AND 0x7FFF :: u32) = e"
    and "unat (drop_bit 16 ((of_nat e AND 0x7FFF) OR push_bit 15 p OR push_bit 16 (of_nat q AND 0xFFFF)) :: u32) = q"
proof -
  have m: "(0x7FFF :: u32) = mask 15" "(0xFFFF :: u32) = mask 16" by (simp_all add: mask_eq_exp_minus_1)
  have p: "bit p j \<longleftrightarrow> p = 1 \<and> j = 0" for j using assms(1) by (auto simp: bit_simps)
  have eb: "bit e j \<Longrightarrow> j < 15" and qb: "bit q j \<Longrightarrow> j < 16" for j
    using bit_nat_less assms by blast+
  have ue: "unat (of_nat e :: u32) = e" and uq: "unat (of_nat q :: u32) = q"
    using assms by (simp_all add: unat_of_nat)
  have "((of_nat e AND 0x7FFF) OR push_bit 15 p) AND 0x7FFF = (of_nat e :: u32)"
    unfolding m by (rule bit_word_eqI) (auto simp: p bit_simps dest: eb)
  then show "unat (((of_nat e AND 0x7FFF) OR push_bit 15 p) AND 0x7FFF :: u32) = e" by (simp only: ue)
  have "((of_nat e AND 0x7FFF) OR push_bit 15 p OR push_bit 16 (of_nat q AND 0xFFFF)) AND 0x7FFF = (of_nat e :: u32)"
    unfolding m by (rule bit_word_eqI) (auto simp: p bit_simps dest: eb)
  then show "unat (((of_nat e AND 0x7FFF) OR push_bit 15 p OR push_bit 16 (of_nat q AND 0xFFFF)) AND 0x7FFF :: u32) = e"
    by (simp only: ue)
  have "drop_bit 16 ((of_nat e AND 0x7FFF) OR push_bit 15 p OR push_bit 16 (of_nat q AND 0xFFFF)) = (of_nat q :: u32)"
    unfolding m by (rule bit_word_eqI) (auto simp: p bit_simps dest: qb eb)
  then show "unat (drop_bit 16 ((of_nat e AND 0x7FFF) OR push_bit 15 p OR push_bit 16 (of_nat q AND 0xFFFF)) :: u32) = q"
    by (simp only: uq)
qed

lemma mock_data_peak:
  assumes "mock_data dpp l = (d, l')"
  shows "peak_word dpp d"
proof -
  define p :: u32 where "p = (if unat (nextRand l) mod 20 = 0 then 1 else 0)"
  have p: "p \<in> {0, 1}" by (simp add: p_def)
  have d: "d = fst (mock_data dpp l)" using assms by simp
  have m: "x mod 1600 \<le> 1599" "x mod 800 \<le> 799" for x :: nat
    using mod_less_divisor [of 1600 x] mod_less_divisor [of 800 x] by linarith+
  show ?thesis
  proof (cases "dpp = PHA")
    case True
    define n where "n = unat (nextRand (nextRand l)) mod 1600 + unat (nextRand (nextRand (nextRand l))) mod 1600"
    have n: "n \<le> 3198" using m(1) add_mono unfolding n_def by fastforce
    have "d = (of_nat (8000 + n) AND 0x7FFF) OR push_bit 15 p"
      unfolding d mock_data_def n_def p_def Let_def by (simp only: True simp_thms if_True fst_conv)
    then show ?thesis
      using data_word_fields(1) [OF p, of "8000 + n" 0] n True by (simp only: peak_word_def) simp
  next
    case False
    define n where "n = unat (nextRand (nextRand l)) mod 800 + unat (nextRand (nextRand (nextRand l))) mod 800
      + unat (nextRand (nextRand (nextRand (nextRand l)))) mod 800"
    have n: "n \<le> 2397"
      using m(2) [of "unat (nextRand (nextRand l))"] m(2) [of "unat (nextRand (nextRand (nextRand l)))"]
        m(2) [of "unat (nextRand (nextRand (nextRand (nextRand l))))"] unfolding n_def by linarith
    have "(0xFFFF :: u32) = mask 16" by (simp add: mask_eq_exp_minus_1)
    then have q: "(of_nat (4800 + n) AND 0xFFFF :: u32) = of_nat (4800 + n)"
      using n by (simp only: take_bit_eq_mask [symmetric] take_bit_of_nat) (simp add: take_bit_nat_eq_self)
    have "d = (of_nat (unat (of_nat (4800 + n) AND 0xFFFF :: u32) div 2) AND 0x7FFF) OR push_bit 15 p OR
        push_bit 16 (of_nat (4800 + n) AND 0xFFFF)"
      unfolding d mock_data_def n_def p_def Let_def by (simp only: False simp_thms if_False fst_conv)
    moreover have "unat (of_nat (4800 + n) AND 0xFFFF :: u32) div 2 = (4800 + n) div 2"
      unfolding q using n by (simp only: unat_of_nat) simp
    ultimately have "d = (of_nat ((4800 + n) div 2) AND 0x7FFF) OR push_bit 15 p OR push_bit 16 (of_nat (4800 + n) AND 0xFFFF)"
      by simp
    then show ?thesis
      using data_word_fields(2,3) [OF p, of "(4800 + n) div 2" "4800 + n"] n False
      by (simp only: peak_word_def) simp
  qed
qed

lemma mock_hits_shape:
  "mock_hits dpp nSamp base ps es l = (hs, l') \<Longrightarrow>
     map x_odd hs = map odd es \<and>
     (\<forall>x \<in> set hs. x_trace x = mock_trace nSamp \<and> peak_word dpp (x_data x))"
proof (induction es arbitrary: l hs l')
  case Nil
  then show ?case by simp
next
  case (Cons e es)
  obtain ts l1 where t: "mock_time base ps e l = (ts, l1)" by fastforce
  obtain d l2 where d: "mock_data dpp l1 = (d, l2)" by fastforce
  obtain hs' l3 where h: "mock_hits dpp nSamp base ps es l2 = (hs', l3)" by fastforce
  show ?case
    using Cons.prems Cons.IH [OF h] mock_data_peak [OF d] by (auto simp: t d h)
qed

lemma mock_format_x730:
  assumes "traceSamples opt < 2 ^ 16"
  shows "x730_format (mock_nSamp opt div 2) (mock_format opt)" and "16 dvd mock_nSamp opt"
proof -
  have m: "NOT (0xF :: u32) = push_bit 4 (mask 28)"
    by (simp add: mask_eq_exp_minus_1)
  have up: "traceSamples opt AND NOT 0xF = push_bit 4 (drop_bit 4 (traceSamples opt))"
    unfolding m by (rule bit_word_eqI) (auto simp: bit_simps)
  define k where "k = unat (drop_bit 4 (traceSamples opt))"
  have "unat (traceSamples opt) < 2 ^ 16" using assms by (simp add: word_less_nat_alt)
  then have k: "k < 2 ^ 12" by (simp add: k_def drop_bit_eq_div unat_div)
  have "unat (push_bit 4 (drop_bit 4 (traceSamples opt))) = 16 * k"
    using k by (simp add: k_def push_bit_eq_mult unat_word_ariths)
  then have n: "mock_nSamp opt = (if mock_trace_on opt then 16 * k else 0)"
    unfolding mock_nSamp_def mock_trace_on_def up by simp
  then show "16 dvd mock_nSamp opt" by simp
  have div: "16 * k div 8 = 2 * k" "16 * k div 2 = 8 * k" by simp_all
  show "x730_format (mock_nSamp opt div 2) (mock_format opt)"
  proof (cases "mock_trace_on opt")
    case True
    have f: "(0xFFFF :: u32) = mask 16" by (simp add: mask_eq_exp_minus_1)
    have kb: "bit k j \<Longrightarrow> j < 12" for j using k by (intro bit_nat_less [of k 12 j]) simp_all
    have "take_bit 16 (mock_format opt) = (of_nat (2 * k) :: u32)"
      unfolding mock_format_def Let_def n f using True
      by (intro bit_word_eqI) (auto simp: div bit_simps dest: kb)
    moreover have "unat (of_nat (2 * k) :: u32) = 2 * k" using k by (simp only: unat_of_nat) simp
    ultimately show ?thesis
      using True k unfolding x730_format_def n by (simp add: mock_format_def f bit_simps)
  next
    case False
    then show ?thesis by (simp add: x730_format_def mock_format_def n bit_simps)
  qed
qed

text \<open>A readout that is due is one aggregate of the x730 format.\<close>

definition mock_aggregate :: "MockDigitizer \<Rightarrow> string \<Rightarrow> bool \<Rightarrow> X730Hit list \<Rightarrow> X730Aggregate" where
  "mock_aggregate m name fail hs =
     \<lparr> ag_pha = (dppType (m_info m) = PHA), ag_model = name, ag_board = boardRegId (m_info m), ag_fail = fail,
       ag_count = ucast (m_counter m AND 0x7FFFFF), ag_tag = ucast (m_counter m),
       ag_format = mock_format (m_opt m), ag_nW = mock_nSamp (m_opt m) div 2, ag_hits = hs \<rparr>"

lemma mock_read_aggregate:
  assumes run: "m_running m" "m_nextEmit m \<le> now" and ts: "traceSamples (m_opt m) < 2 ^ 16"
  shows "\<exists>fail hs l t. mock_read now m = ((True, bytes_of_words (agg_words (mock_aggregate m name fail hs))),
      m\<lparr> m_nextEmit := t, m_lfsr := l, m_counter := m_counter m + 1 \<rparr>) \<and>
    8 \<le> length hs \<and> length hs \<le> 31 \<and> map x_odd hs = map odd [0..<length hs] \<and>
    (\<forall>x \<in> set hs. x_trace x = mock_trace (mock_nSamp (m_opt m)) \<and> peak_word (dppType (m_info m)) (x_data x)) \<and>
    (fail \<longrightarrow> failEvery (m_opt m) \<noteq> 0)"
proof -
  let ?opt = "m_opt m" and ?l = "nextRand (m_lfsr m)"
  define n where "n = 8 + unat ?l mod 24"
  have n: "8 \<le> n" "n \<le> 31" using mod_less_divisor [of 24 "unat ?l"] by (simp_all add: n_def)
  let ?nW = "mock_nSamp ?opt div 2"
  have nW: "?nW < 2 ^ 15" using mock_format_x730 [OF ts] by (simp add: x730_format_def)
  then have "n * (2 + ?nW) \<le> 31 * (2 + 2 ^ 15)" using n(2) by (intro mult_le_mono) simp_all
  then have cs: "w32 (2 + w32 (n * w32 (2 + ?nW))) = 2 + n * (2 + ?nW)"
    using nW by (simp add: w32_id)
  obtain fail l1 where fl: "mock_fail ?opt ?l = (fail, l1)" by fastforce
  then have f: "fail \<longrightarrow> failEvery ?opt \<noteq> 0" by (auto simp: mock_fail_def Let_def split: if_splits)
  let ?m = "m\<lparr> m_nextEmit := m_nextEmit m + int (mock_period ?opt) \<rparr>"
  obtain base ps where w: "mock_window ?m n = (base, ps)" by fastforce
  obtain hs l2 where h: "mock_hits (dppType (m_info m)) (mock_nSamp ?opt) base ps [0..<n] l1 = (hs, l2)"
    by fastforce
  note shape = mock_hits_shape [OF h]
  have len: "length hs = n" using arg_cong [OF conjunct1 [OF shape], of length] by simp
  have "mock_read now m = ((True, bytes_of_words (agg_words (mock_aggregate m name fail hs))),
      m\<lparr> m_nextEmit := m_nextEmit m + int (mock_period ?opt), m_lfsr := l2, m_counter := m_counter m + 1 \<rparr>)"
    using run fl h w cs len
    by (simp add: mock_read_def Let_def agg_words_def mock_aggregate_def aggregate_words_def n_def [symmetric]
        del: One_nat_def)
  then show ?thesis using n len shape f by blast
qed

text \<open>What one event of a mock board looks like.\<close>

definition mock_event :: "MockDigitizer \<Rightarrow> DecodedEvent \<Rightarrow> bool" where
  "mock_event m e \<longleftrightarrow> ev_board e = unat (boardRegId (m_info m) AND 0x1F) \<and>
     wave e = map (\<lambda>i. of_nat (mock_sample i)) [0..<mock_nSamp (m_opt m)] \<and>
     (if dppType (m_info m) = PHA then 8000 \<le> energy e \<and> energy e < 11199 \<and> \<not> lost e
      else 4800 \<le> qlong e \<and> qlong e < 7198 \<and> qshort e = qlong e div 2)"

lemma untimed_fields:
  "ev_channel (untimed e) = ev_channel e" "ev_board (untimed e) = ev_board e" "wave (untimed e) = wave e"
  "energy (untimed e) = energy e" "qlong (untimed e) = qlong e" "qshort (untimed e) = qshort e"
  "lost (untimed e) = lost e"
  by (simp_all add: untimed_def)

lemma mock_event_untimed: "mock_event m (untimed e) = mock_event m e"
  by (simp add: mock_event_def untimed_fields)

lemma mock_event_hit:
  assumes "x_trace x = mock_trace (mock_nSamp (m_opt m))" "peak_word (dppType (m_info m)) (x_data x)"
    and "even (mock_nSamp (m_opt m))"
  shows "mock_event m (x730_hit (dppType (m_info m) = PHA) (unat (boardRegId (m_info m) AND 0x1F)) x)"
  using assms by (auto simp: mock_event_def x730_hit_def pha_hit_def psd_hit_def DecodedEvent_init_def
      peak_word_def trace_samples_mock split: if_splits)

lemma hit_channels: "map ev_channel (map (x730_hit pha b) hs) = map of_bool (map x_odd hs)"
  by (auto simp: x730_hit_def pha_hit_def psd_hit_def DecodedEvent_init_def)

text \<open>
  C17. The test source and the decoder agree: when a read of a running mock board is due, it
  returns a buffer that the decoder of a registered board turns into 8 to 31 events, channels 0
  and 1 alternating, each with the board's id, the whole synthetic pulse as its trace when
  waveforms are on, and an energy or charges inside the generated peak; no aggregate is counted
  corrupt, and none board-failed unless failures were asked for. The board keeps running and the
  decoder stays ready for its next buffer, so this holds read after read.
\<close>

theorem mock_read_decodes:
  assumes "m_running m" and "m_nextEmit m \<le> now" and "traceSamples (m_opt m) < 2 ^ 16"
    and "x730_registered (dppType (m_info m) = PHA) name (boardRegId (m_info m) AND 0x1F) d"
  shows "\<exists>b m' d' evs. mock_read now m = ((True, b), m') \<and> decode d b = Some (d', evs) \<and>
    8 \<le> length evs \<and> length evs \<le> 31 \<and> map ev_channel evs = map (\<lambda>i. i mod 2) [0..<length evs] \<and>
    list_all (mock_event m) evs \<and>
    (dec_counters d' = dec_counters d \<or> failEvery (m_opt m) \<noteq> 0 \<and> dec_counters d' = counted True (dec_counters d)) \<and>
    m_running m' \<and> m_opt m' = m_opt m \<and> m_info m' = m_info m \<and>
    x730_registered (dppType (m_info m) = PHA) name (boardRegId (m_info m) AND 0x1F) d'"
proof -
  note fmt = mock_format_x730 [OF assms(3)]
  have ev: "even (mock_nSamp (m_opt m))" using fmt(2) by (rule dvd_trans [rotated]) simp
  obtain fail hs l t where r: "mock_read now m =
      ((True, bytes_of_words (agg_words (mock_aggregate m name fail hs))),
       m\<lparr> m_nextEmit := t, m_lfsr := l, m_counter := m_counter m + 1 \<rparr>)"
    and h: "8 \<le> length hs" "length hs \<le> 31" "map x_odd hs = map odd [0..<length hs]"
      "\<forall>x \<in> set hs. x_trace x = mock_trace (mock_nSamp (m_opt m)) \<and> peak_word (dppType (m_info m)) (x_data x)"
      "fail \<longrightarrow> failEvery (m_opt m) \<noteq> 0"
    using mock_read_aggregate [OF assms(1-3), of name] by blast
  let ?a = "mock_aggregate m name fail hs"
  have sz: "agg_size ?a < 2 ^ 22"
  proof -
    have "mock_nSamp (m_opt m) div 2 < 2 ^ 15" using fmt(1) by (simp add: x730_format_def)
    then have "length hs * (2 + mock_nSamp (m_opt m) div 2) \<le> 31 * (2 + 2 ^ 15)"
      using h(2) by (intro mult_le_mono) simp_all
    then show ?thesis by (simp add: agg_size_def mock_aggregate_def)
  qed
  have ok: "agg_ok d ?a"
    using h(4) fmt(1) sz assms(4) by (simp add: agg_ok_def mock_aggregate_def length_mock_trace)
  obtain d' evs where d: "decode d (bytes_of_words (agg_words ?a)) = Some (d', evs)"
      "map untimed evs = agg_events ?a" "dec_counters d' = counted fail (dec_counters d)"
      "x730_registered (dppType (m_info m) = PHA) name (boardRegId (m_info m) AND 0x1F) d'"
    using decode_x730 [of "[?a]" d] ok sz assms(4) by (auto simp: mock_aggregate_def)
  have evs: "map untimed evs = map (x730_hit (dppType (m_info m) = PHA) (unat (boardRegId (m_info m) AND 0x1F))) hs"
    using d(2) by (simp add: agg_events_def mock_aggregate_def)
  then have len: "length evs = length hs" by (metis length_map)
  have "list_all (mock_event m) (map untimed evs)"
    unfolding evs using h(4) ev by (auto simp: list_all_iff intro: mock_event_hit)
  then have all: "list_all (mock_event m) evs" by (auto simp: list_all_iff mock_event_untimed)
  have "map ev_channel evs = map ev_channel (map untimed evs)" by (simp add: untimed_fields)
  also have "\<dots> = map of_bool (map x_odd hs)" unfolding evs by (rule hit_channels)
  finally have ch: "map ev_channel evs = map (\<lambda>i. i mod 2) [0..<length evs]"
    by (simp add: h(3) len of_bool_odd_eq_mod_2 comp_def)
  show ?thesis
    using r d h(1,2,5) len all ch assms(1) by (cases fail) (auto simp: counted_def)
qed

theorem mock_read_decodes_witness:
  "\<exists>b m' d' evs. mock_read 5 demo_mock = ((True, b), m') \<and>
     decode (registerBoard 3 PSD ''MOCK-V1730'' 2000 AggregateDecoder_init) b = Some (d', evs) \<and>
     8 \<le> length evs \<and> list_all (\<lambda>e. ev_board e = 3 \<and> length (wave e) = 64) evs"
proof -
  let ?d = "registerBoard 3 PSD ''MOCK-V1730'' 2000 AggregateDecoder_init"
  have m: "m_running demo_mock" "m_nextEmit demo_mock \<le> 5" "traceSamples (m_opt demo_mock) = 64"
    "waveforms (m_opt demo_mock)" "dppType (m_info demo_mock) = PSD" "boardRegId (m_info demo_mock) = 3"
    by (simp_all add: demo_mock_def mock_start_def mock_open_def MockDigitizer_new_def MockOptions_init_def Let_def)
  have reg: "x730_registered (PSD = PHA) ''MOCK-V1730'' 3 ?d"
    by (rule registerBoard_x730) (auto simp: is_x730_def intro!: inv_intros)
  have n: "mock_nSamp (m_opt demo_mock) = 64" by (simp add: mock_nSamp_def m)
  have ts: "traceSamples (m_opt demo_mock) < 2 ^ 16" by (simp add: m)
  obtain b m' d' evs where r: "mock_read 5 demo_mock = ((True, b), m')" "decode ?d b = Some (d', evs)"
    "8 \<le> length evs" "list_all (mock_event demo_mock) evs"
    using mock_read_decodes [OF m(1,2) ts, of "''MOCK-V1730''" ?d] reg by (auto simp: m(5,6))
  have "list_all (\<lambda>e. ev_board e = 3 \<and> length (wave e) = 64) evs"
    using r(4) by (auto simp: list_all_iff mock_event_def m(6) n)
  then show ?thesis using r(1-3) by blast
qed

end
