(* ===== verification/Digitizer.thy ===== *)
theory Digitizer
  imports Mock_Digitizer
begin

text \<open>
  \<open>IDigitizer\<close>: the interface through which the rest of the system drives one board. An object
  with virtual methods is a record of functions on the world \<open>'w\<close> (the boards, the links and
  the passing of time); the mock boards are one such world. A \<open>read\<close> yields \<open>None\<close> for a
  communication error and \<open>Some []\<close> when nothing is pending.
\<close>

section \<open>The interface\<close>

record 'w Digitizer =
  dg_name :: string
  dg_open :: "'w \<Rightarrow> bool \<times> 'w"
  dg_configure :: "'w \<Rightarrow> bool \<times> 'w"
  dg_startMode :: "'w \<Rightarrow> u32"
  dg_start :: "'w \<Rightarrow> bool \<times> 'w"
  dg_arm :: "'w \<Rightarrow> bool \<times> 'w"
  dg_sendSWTrigger :: "'w \<Rightarrow> bool \<times> 'w"
  dg_read :: "'w \<Rightarrow> RawBlock option \<times> 'w"
  dg_writeRegister :: "u32 \<Rightarrow> u32 \<Rightarrow> 'w \<Rightarrow> bool \<times> 'w"
  dg_readRegister :: "u32 \<Rightarrow> 'w \<Rightarrow> u32 option \<times> 'w"
  dg_stop :: "'w \<Rightarrow> bool \<times> 'w"
  dg_close :: "'w \<Rightarrow> 'w"
  dg_info :: "'w \<Rightarrow> BoardInfo"
  dg_connected :: "'w \<Rightarrow> bool"

definition synchronised :: "'w Digitizer \<Rightarrow> 'w \<Rightarrow> bool" where
  "synchronised d w \<longleftrightarrow> dg_startMode d w \<noteq> kStartModeSW"

text \<open>
  What the teardown of a run relies on: closing twice is closing once, a closed board cannot be
  reached, and asking it changes nothing.
\<close>

locale closable_digitizer =
  fixes dgtz :: "'w Digitizer"
  assumes close_idem: "dg_close dgtz (dg_close dgtz w) = dg_close dgtz w"
    and write_closed: "dg_writeRegister dgtz a v (dg_close dgtz w) = (False, dg_close dgtz w)"
    and read_closed: "dg_readRegister dgtz a (dg_close dgtz w) = (None, dg_close dgtz w)"
    and closed_down: "\<not> dg_connected dgtz (dg_close dgtz w)"
begin

lemma register_script_closed:
  "foldl (\<lambda>w (a, v). snd (dg_readRegister dgtz a (snd (dg_writeRegister dgtz a v w)))) (dg_close dgtz w) avs =
     dg_close dgtz w"
  by (induction avs) (simp_all add: split_beta write_closed read_closed)

end

section \<open>A world of mock boards\<close>

text \<open>The boards by address, and the readings of the steady clock, one per call of \<open>now()\<close>.\<close>

record MockWorld =
  mw_boards :: "nat \<Rightarrow> MockDigitizer"
  mw_clock :: "nat \<Rightarrow> int"
  mw_calls :: nat

definition mw_now :: "MockWorld \<Rightarrow> int \<times> MockWorld" where
  "mw_now w = (mw_clock w (mw_calls w), w\<lparr> mw_calls := mw_calls w + 1 \<rparr>)"

definition mw_put :: "nat \<Rightarrow> MockDigitizer \<Rightarrow> MockWorld \<Rightarrow> MockWorld" where
  "mw_put i m w = w\<lparr> mw_boards := (mw_boards w)(i := m) \<rparr>"

definition on_board :: "nat \<Rightarrow> (MockDigitizer \<Rightarrow> 'r \<times> MockDigitizer) \<Rightarrow> MockWorld \<Rightarrow> 'r \<times> MockWorld" where
  "on_board i f w = (let (r, m) = f (mw_boards w i) in (r, mw_put i m w))"

definition mock_board :: "nat \<Rightarrow> BoardParams \<Rightarrow> MockWorld Digitizer" where
  "mock_board i p =
     \<lparr> dg_name = bp_name p,
       dg_open = on_board i mock_open,
       dg_configure = on_board i mock_configure,
       dg_startMode = (\<lambda>w. mock_startMode (mw_boards w i)),
       dg_start = (\<lambda>w. let (now, w) = mw_now w in on_board i (mock_start now) w),
       dg_arm = (\<lambda>w. let (now, w) = mw_now w in on_board i (mock_arm now) w),
       dg_sendSWTrigger = on_board i mock_sendSWTrigger,
       dg_read = (\<lambda>w. let (now, w) = (if m_running (mw_boards w i) then mw_now w else (0, w));
                          (r, w) = on_board i (mock_read now) w
                      in (if fst r then Some (snd r) else None, w)),
       dg_writeRegister = (\<lambda>a v. on_board i (mock_writeRegister a v)),
       dg_readRegister = (\<lambda>a w. (mock_readRegister a (mw_boards w i), w)),
       dg_stop = on_board i mock_stop,
       dg_close = (\<lambda>w. mw_put i (mock_close (mw_boards w i)) w),
       dg_info = (\<lambda>w. m_info (mw_boards w i)),
       dg_connected = (\<lambda>w. m_open (mw_boards w i)) \<rparr>"

lemma mw_put_simps [simp]:
  "mw_boards (mw_put i m w) j = (if j = i then m else mw_boards w j)"
  "mw_put i m (mw_put i m' w) = mw_put i m w" "mw_put i (mw_boards w i) w = w"
  "mw_calls (mw_put i m w) = mw_calls w" "mw_clock (mw_put i m w) = mw_clock w"
  by (auto simp: mw_put_def)

interpretation mock_closable: closable_digitizer "mock_board i p"
  by unfold_locales
    (auto simp: mock_board_def on_board_def mock_close_def mock_writeRegister_def mock_readRegister_def Let_def)

section \<open>Logged boards\<close>

text \<open>
  A board whose calls are recorded, with their results, in front of the world they act on: the
  observations in which the order of operations is stated.
\<close>

datatype board_call =
    CallOpen bool
  | CallConfigure bool
  | CallStart bool
  | CallArm bool
  | CallTrigger bool
  | CallRead "RawBlock option"
  | CallWriteReg u32 u32 bool
  | CallReadReg u32 "u32 option"
  | CallStop bool
  | CallClose

type_synonym 'h logged_world = "(nat \<times> board_call) list \<times> 'h"

definition log_call :: "nat \<Rightarrow> ('r \<Rightarrow> board_call) \<Rightarrow> ('h \<Rightarrow> 'r \<times> 'h) \<Rightarrow> 'h logged_world \<Rightarrow> 'r \<times> 'h logged_world" where
  "log_call i ev f w = (let (r, h) = f (snd w) in (r, (fst w @ [(i, ev r)], h)))"

definition logged_board :: "nat \<Rightarrow> 'h Digitizer \<Rightarrow> 'h logged_world Digitizer" where
  "logged_board i d =
     \<lparr> dg_name = dg_name d,
       dg_open = log_call i CallOpen (dg_open d),
       dg_configure = log_call i CallConfigure (dg_configure d),
       dg_startMode = (\<lambda>w. dg_startMode d (snd w)),
       dg_start = log_call i CallStart (dg_start d),
       dg_arm = log_call i CallArm (dg_arm d),
       dg_sendSWTrigger = log_call i CallTrigger (dg_sendSWTrigger d),
       dg_read = log_call i CallRead (dg_read d),
       dg_writeRegister = (\<lambda>a v. log_call i (CallWriteReg a v) (dg_writeRegister d a v)),
       dg_readRegister = (\<lambda>a. log_call i (CallReadReg a) (dg_readRegister d a)),
       dg_stop = log_call i CallStop (dg_stop d),
       dg_close = (\<lambda>w. (fst w @ [(i, CallClose)], dg_close d (snd w))),
       dg_info = (\<lambda>w. dg_info d (snd w)),
       dg_connected = (\<lambda>w. dg_connected d (snd w)) \<rparr>"

lemma log_callE:
  assumes "log_call i ev f w = (r, w')"
  obtains h where "f (snd w) = (r, h)" "w' = (fst w @ [(i, ev r)], h)"
  using assms by (auto simp: log_call_def Let_def split: prod.splits)

lemmas logged_simps = logged_board_def Digitizer.simps

end
