(* ===== verification/Ieee_Double.thy ===== *)
theory Ieee_Double
  imports Prelude "HOL-Library.Log_Nat"
begin

text \<open>
  The \<open>double\<close> arithmetic of the sources, exactly: a finite double is a rational, an operation
  is the exact rational operation followed by \<open>fl\<close>, IEEE-754 rounding to nearest, ties to
  even, on 53 significant bits. The exponent is not bounded: the values computed here (charge
  ratios, times between hits, rates) are far from overflow and from the subnormal range.
\<close>

section \<open>Rounding\<close>

definition round_half_even :: "rat \<Rightarrow> int" where
  "round_half_even x =
     (let f = \<lfloor>x\<rfloor>; r = x - of_int f in
      if r < 1 / 2 then f else if r > 1 / 2 then f + 1 else if even f then f else f + 1)"

text \<open>The binary exponent of a positive rational: \<open>2 powi dexp x \<le> x < 2 powi (dexp x + 1)\<close>.\<close>

definition dexp :: "rat \<Rightarrow> int" where
  "dexp x =
     (let (n, d) = quotient_of x; k = bitlen n - bitlen d in
      if 2 powi k \<le> x then k else k - 1)"

definition fl_pos :: "rat \<Rightarrow> rat" where
  "fl_pos x = of_int (round_half_even (x * 2 powi (52 - dexp x))) * 2 powi (dexp x - 52)"

definition fl :: "rat \<Rightarrow> rat" where
  "fl x = (if x = 0 then 0 else if x < 0 then - fl_pos (- x) else fl_pos x)"

lemma round_half_even_error: "\<bar>of_int (round_half_even x) - x\<bar> \<le> 1 / 2"
proof -
  have "of_int \<lfloor>x\<rfloor> \<le> x" "x < of_int \<lfloor>x\<rfloor> + 1" by linarith+
  then show ?thesis unfolding round_half_even_def Let_def by (auto simp: abs_le_iff)
qed

lemma round_half_even_int [simp]: "round_half_even (of_int n) = n"
  by (simp add: round_half_even_def)

lemma round_half_even_nonneg: "0 \<le> x \<Longrightarrow> 0 \<le> round_half_even x"
  by (auto simp: round_half_even_def Let_def)

lemma bitlen_powi:
  assumes "0 < n"
  shows "2 powi (bitlen n - 1) \<le> (of_int n :: rat)" and "(of_int n :: rat) < 2 powi bitlen n"
proof -
  have b: "1 \<le> bitlen n" using assms bitlen_eq_zero_iff [of n] bitlen_nonneg [of n] by linarith
  have "(2 :: rat) ^ nat (bitlen n - 1) \<le> of_int n" "(of_int n :: rat) < 2 ^ nat (bitlen n)"
    using bitlen_bounds [OF assms] by (metis of_int_le_iff of_int_less_iff of_int_numeral of_int_power)+
  then show "2 powi (bitlen n - 1) \<le> (of_int n :: rat)" "(of_int n :: rat) < 2 powi bitlen n"
    using b by (simp_all add: power_int_def)
qed

lemma dexp_bounds:
  assumes "0 < x"
  shows "2 powi dexp x \<le> x" and "x < 2 powi (dexp x + 1)"
proof -
  obtain n d where q: "quotient_of x = (n, d)" by force
  have d: "0 < d" using quotient_of_denom_pos [OF q] .
  have x: "x = of_int n / of_int d" using quotient_of_div [OF q] .
  then have n: "0 < n" using assms d by (simp add: zero_less_divide_iff)
  note nb = bitlen_powi [OF n] and db = bitlen_powi [OF d]
  let ?k = "bitlen n - bitlen d"
  have "2 powi (?k - 1) * (of_int d :: rat) \<le> 2 powi (?k - 1) * 2 powi bitlen d"
    using db(2) by (intro mult_left_mono) auto
  also have "\<dots> = 2 powi (bitlen n - 1)" by (simp add: power_int_add [symmetric])
  finally have lo: "2 powi (?k - 1) \<le> x" using nb(1) d by (simp add: x pos_le_divide_eq)
  have "2 powi (?k + 1) * (of_int d :: rat) \<ge> 2 powi (?k + 1) * 2 powi (bitlen d - 1)"
    using db(1) by (intro mult_left_mono) auto
  then have "2 powi bitlen n \<le> 2 powi (?k + 1) * (of_int d :: rat)"
    by (simp add: power_int_add [symmetric])
  then have hi: "x < 2 powi (?k + 1)" using nb(2) d by (simp add: x pos_divide_less_eq)
  show "2 powi dexp x \<le> x" using lo by (simp add: dexp_def q Let_def)
  show "x < 2 powi (dexp x + 1)" using hi by (auto simp: dexp_def q Let_def)
qed

text \<open>The relative error of an operation is at most half a unit in the last place.\<close>

lemma fl_pos_error:
  assumes "0 < x"
  shows "\<bar>fl_pos x - x\<bar> \<le> 2 powi (dexp x - 53)"
proof -
  let ?u = "2 powi (dexp x - 52) :: rat"
  let ?m = "x * 2 powi (52 - dexp x)"
  have xm: "x = ?m * ?u" by (simp add: power_int_add [symmetric])
  have "fl_pos x - x = (of_int (round_half_even ?m) - ?m) * ?u"
    unfolding fl_pos_def by (subst (2) xm) (simp add: left_diff_distrib)
  then have "\<bar>fl_pos x - x\<bar> \<le> 1 / 2 * ?u"
    using mult_right_mono [OF round_half_even_error [of ?m], of ?u] by (simp add: abs_mult)
  also have "1 / 2 * ?u = 2 powi (dexp x - 53)"
    using power_int_add [of "2 :: rat" "-1" "dexp x - 52"] by simp
  finally show ?thesis .
qed

lemma fl_nonneg: "0 \<le> x \<Longrightarrow> 0 \<le> fl x"
  by (auto simp: fl_def fl_pos_def intro!: mult_nonneg_nonneg round_half_even_nonneg)

lemma fl_zero [simp]: "fl 0 = 0"
  by (simp add: fl_def)

lemma fl_relative_error:
  assumes "0 < x"
  shows "\<bar>fl x - x\<bar> \<le> x * 2 powi (- 53)"
proof -
  have "\<bar>fl x - x\<bar> \<le> 2 powi (dexp x - 53)"
    using fl_pos_error [OF assms] assms by (simp add: fl_def)
  also have "dexp x - 53 = dexp x + (- 53)" by simp
  also have "2 powi (dexp x + (- 53)) = 2 powi dexp x * (2 :: rat) powi (- 53)"
    by (rule power_int_add) simp
  also have "\<dots> \<le> x * 2 powi (- 53)" by (rule mult_right_mono [OF dexp_bounds(1) [OF assms]]) simp
  finally show ?thesis .
qed

lemma fl_error: "\<bar>fl x - x\<bar> \<le> \<bar>x\<bar> * 2 powi (- 53)"
proof -
  have "fl (- y) = - fl y" for y by (simp add: fl_def)
  then have "\<bar>fl x - x\<bar> = \<bar>fl \<bar>x\<bar> - \<bar>x\<bar>\<bar>" by (cases "x < 0") (simp_all add: abs_minus_commute)
  then show ?thesis using fl_relative_error [of "\<bar>x\<bar>"] by (cases "x = 0") simp_all
qed

text \<open>A positive integer of at most 53 bits is its own double.\<close>

lemma fl_of_int:
  assumes "0 \<le> n" "n < 2 ^ 53"
  shows "fl (of_int n) = of_int n"
proof (cases "n = 0")
  case False
  then have n: "0 < n" using assms by simp
  let ?x = "of_int n :: rat"
  have "2 powi dexp ?x \<le> ?x" using n by (intro dexp_bounds) simp
  also have "?x < of_int (2 ^ 53)" using assms(2) by (simp only: of_int_less_iff)
  also have "\<dots> = (2 :: rat) powi 53" by simp
  finally have "(2 :: rat) powi dexp ?x < 2 powi 53" .
  then have e: "dexp ?x < 53" by (rule power_int_le_imp_less_exp [rotated]) simp_all
  then have "?x * 2 powi (52 - dexp ?x) = of_int (n * 2 ^ nat (52 - dexp ?x))"
    by (simp add: power_int_def)
  then have "fl_pos ?x = ?x * 2 powi (52 - dexp ?x) * 2 powi (dexp ?x - 52)"
    unfolding fl_pos_def by (metis round_half_even_int)
  also have "\<dots> = ?x" by (simp add: mult.assoc power_int_add [symmetric])
  finally show ?thesis using n by (simp add: fl_def)
qed simp

end
