(* ===== verification/Histogram_Store.thy ===== *)
theory Histogram_Store
  imports Board_Model Ordered_Map Ieee_Double
begin

text \<open>
  \<open>HistogramStore\<close>: the per-channel spectra, the two-dimensional charge plot, the times
  between hits, the latest traces and the event counters. \<open>fill\<close> is split along the blocks
  of its body. Bins are 32-bit counters and wrap; an increment outside a histogram is \<open>None\<close>
  (a write outside a vector). \<open>std::log10\<close> is a parameter: the C library does not fix its
  rounding, and nothing below depends on it. The mutex is not modelled: every operation of
  the class holds it from entry to return, so operations are atomic.
\<close>

section \<open>State\<close>

definition kEnergyBins :: nat where "kEnergyBins = 32768"
definition kQShortBins :: nat where "kQShortBins = 32768"
definition kQLongBins :: nat where "kQLongBins = 65536"
definition kPsdXBins :: nat where "kPsdXBins = 2048"
definition kPsdYBins :: nat where "kPsdYBins = 256"
definition kQLongMax :: nat where "kQLongMax = 65536"
definition kIntervalBinsPerDecade :: nat where "kIntervalBinsPerDecade = 100"
definition kIntervalDecades :: nat where "kIntervalDecades = 10"
definition kIntervalBins :: nat where "kIntervalBins = kIntervalBinsPerDecade * kIntervalDecades"

lemmas hist_sizes = kEnergyBins_def kQShortBins_def kQLongBins_def kPsdXBins_def kPsdYBins_def
  kQLongMax_def kIntervalBinsPerDecade_def kIntervalDecades_def kIntervalBins_def

record Counts =
  n_events :: u64
  n_pileup :: u64
  n_lost :: u64
  n_satu :: u64

definition Counts_init :: Counts where
  "Counts_init = \<lparr> n_events = 0, n_pileup = 0, n_lost = 0, n_satu = 0 \<rparr>"

record Channel =
  h_energy :: "u32 list"
  h_qshort :: "u32 list"
  h_qlong :: "u32 list"
  h_psd :: "u32 list"
  h_interval :: "u32 list"
  lastTimePs :: int
  lastWave :: "u16 list"
  lastWaveGood :: "u16 list"
  lastWavePileup :: "u16 list"
  lastWaveSatu :: "u16 list"
  h_counts :: Counts

definition Channel_init :: Channel where
  "Channel_init =
     \<lparr> h_energy = [], h_qshort = [], h_qlong = [], h_psd = [], h_interval = [],
       lastTimePs = -1, lastWave = [], lastWaveGood = [], lastWavePileup = [],
       lastWaveSatu = [], h_counts = Counts_init \<rparr>"

type_synonym HistogramStore = "(u32, Channel) omap"

definition hist_key :: "nat \<Rightarrow> nat \<Rightarrow> u32" where
  "hist_key board ch = push_bit 16 (of_nat board) OR of_nat ch"

section \<open>Filling\<close>

text \<open>\<open>++v[i]\<close>, and the allocation of a histogram on its first use.\<close>

definition bump :: "nat \<Rightarrow> u32 list \<Rightarrow> u32 list option" where
  "bump i h = (if i < length h then Some (h[i := h ! i + 1]) else None)"

definition ensure :: "nat \<Rightarrow> u32 list \<Rightarrow> u32 list" where
  "ensure n h = (if h = [] then replicate n 0 else h)"

definition fill_energy :: "DecodedEvent \<Rightarrow> Channel \<Rightarrow> Channel option" where
  "fill_energy e c =
     (if energy e \<noteq> 0 then
        let h = ensure kEnergyBins (h_energy c) in do {
          h \<leftarrow> (if energy e < kEnergyBins then bump (energy e) h else Some h);
          Some (c\<lparr> h_energy := h \<rparr>)
        }
      else Some c)"

definition psd_xbin :: "nat \<Rightarrow> nat" where
  "psd_xbin ql =
     (let xb = ql * kPsdXBins div kQLongMax in if xb \<ge> kPsdXBins then kPsdXBins - 1 else xb)"

text \<open>\<open>1.0 - qshort / qlong\<close>, clamped to [0, 1], scaled and truncated to a bin.\<close>

definition psd_ybin :: "nat \<Rightarrow> nat \<Rightarrow> nat" where
  "psd_ybin qs ql =
     (let ratio = fl (1 - fl (of_nat qs / of_nat ql));
          ratio = (if ratio < 0 then 0 else ratio);
          ratio = (if ratio > 1 then 1 else ratio);
          yb = nat \<lfloor>fl (ratio * of_nat kPsdYBins)\<rfloor>
      in if yb \<ge> kPsdYBins then kPsdYBins - 1 else yb)"

definition fill_charge :: "DecodedEvent \<Rightarrow> Channel \<Rightarrow> Channel option" where
  "fill_charge e c =
     (if qshort e \<noteq> 0 \<or> qlong e \<noteq> 0 then
        let hs = ensure kQShortBins (h_qshort c);
            hl = ensure kQLongBins (h_qlong c)
        in do {
          hs \<leftarrow> (if qshort e < kQShortBins then bump (qshort e) hs else Some hs);
          hl \<leftarrow> bump (qlong e) hl;
          hp \<leftarrow> (if qlong e > 0
                then bump (psd_xbin (qlong e) * kPsdYBins + psd_ybin (qshort e) (qlong e))
                       (ensure (kPsdXBins * kPsdYBins) (h_psd c))
                else Some (h_psd c));
          Some (c\<lparr> h_qshort := hs, h_qlong := hl, h_psd := hp \<rparr>)
        }
      else Some c)"

definition interval_bin :: "(rat \<Rightarrow> rat) \<Rightarrow> int \<Rightarrow> nat" where
  "interval_bin lg dt =
     (let ns = fl (fl (of_int dt) * fl (1 / 1000));
          bin = \<lfloor>fl (lg ns * of_nat kIntervalBinsPerDecade)\<rfloor>;
          bin = (if bin < 0 then 0 else bin);
          bin = (if bin \<ge> int kIntervalBins then int kIntervalBins - 1 else bin)
      in nat bin)"

definition fill_time :: "(rat \<Rightarrow> rat) \<Rightarrow> DecodedEvent \<Rightarrow> Channel \<Rightarrow> Channel option" where
  "fill_time lg e c =
     (if timePs e > 0 then do {
        c \<leftarrow> (if lastTimePs c \<ge> 0 \<and> timePs e > lastTimePs c then do {
               h \<leftarrow> bump (interval_bin lg (timePs e - lastTimePs c))
                      (ensure kIntervalBins (h_interval c));
               Some (c\<lparr> h_interval := h \<rparr>)
             } else Some c);
        Some (if timePs e > lastTimePs c then c\<lparr> lastTimePs := timePs e \<rparr> else c)
      }
      else Some c)"

definition fill_wave :: "DecodedEvent \<Rightarrow> Channel \<Rightarrow> Channel" where
  "fill_wave e c =
     (if wave e \<noteq> [] then
        let c = c\<lparr> lastWave := wave e \<rparr>;
            c = (if pileup e then c\<lparr> lastWavePileup := wave e \<rparr> else c);
            c = (if satu e then c\<lparr> lastWaveSatu := wave e \<rparr> else c)
        in if \<not> pileup e \<and> \<not> satu e then c\<lparr> lastWaveGood := wave e \<rparr> else c
      else c)"

definition fill_counts :: "DecodedEvent \<Rightarrow> Channel \<Rightarrow> Channel" where
  "fill_counts e c =
     (let n = h_counts c in
      c\<lparr> h_counts := \<lparr> n_events = n_events n + 1,
                       n_pileup = (if pileup e then n_pileup n + 1 else n_pileup n),
                       n_lost = (if lost e then n_lost n + 1 else n_lost n),
                       n_satu = (if satu e then n_satu n + 1 else n_satu n) \<rparr> \<rparr>)"

definition fill_channel :: "(rat \<Rightarrow> rat) \<Rightarrow> DecodedEvent \<Rightarrow> Channel \<Rightarrow> Channel option" where
  "fill_channel lg e c = do {
     c \<leftarrow> fill_energy e c;
     c \<leftarrow> fill_charge e c;
     c \<leftarrow> fill_time lg e c;
     Some (fill_counts e (fill_wave e c))
   }"

definition fill :: "(rat \<Rightarrow> rat) \<Rightarrow> HistogramStore \<Rightarrow> DecodedEvent \<Rightarrow> HistogramStore option" where
  "fill lg m e = (let k = hist_key (ev_board e) (ev_channel e) in do {
     c \<leftarrow> fill_channel lg e (omap_get Channel_init m k);
     Some (omap_store k c m)
   })"

section \<open>Snapshots\<close>

definition find_channel :: "HistogramStore \<Rightarrow> nat \<Rightarrow> nat \<Rightarrow> Channel option" where
  "find_channel m board ch = omap_lookup m (hist_key board ch)"

definition snapshot :: "(Channel \<Rightarrow> 'a list) \<Rightarrow> HistogramStore \<Rightarrow> nat \<Rightarrow> nat \<Rightarrow> 'a list" where
  "snapshot f m board ch = (case find_channel m board ch of Some c \<Rightarrow> f c | None \<Rightarrow> [])"

definition hist_energy :: "HistogramStore \<Rightarrow> nat \<Rightarrow> nat \<Rightarrow> u32 list" where
  "hist_energy = snapshot h_energy"

definition hist_qshort :: "HistogramStore \<Rightarrow> nat \<Rightarrow> nat \<Rightarrow> u32 list" where
  "hist_qshort = snapshot h_qshort"

definition hist_qlong :: "HistogramStore \<Rightarrow> nat \<Rightarrow> nat \<Rightarrow> u32 list" where
  "hist_qlong = snapshot h_qlong"

definition hist_psd :: "HistogramStore \<Rightarrow> nat \<Rightarrow> nat \<Rightarrow> u32 list" where
  "hist_psd = snapshot h_psd"

definition hist_interval :: "HistogramStore \<Rightarrow> nat \<Rightarrow> nat \<Rightarrow> u32 list" where
  "hist_interval = snapshot h_interval"

definition waveform :: "HistogramStore \<Rightarrow> nat \<Rightarrow> nat \<Rightarrow> u16 list" where
  "waveform = snapshot lastWave"

datatype WaveKind = Any | Good | Pileup | Saturated

definition waveform_kind :: "HistogramStore \<Rightarrow> nat \<Rightarrow> nat \<Rightarrow> WaveKind \<Rightarrow> u16 list" where
  "waveform_kind m board ch kind =
     (case find_channel m board ch of
        None \<Rightarrow> []
      | Some c \<Rightarrow> (case kind of Good \<Rightarrow> lastWaveGood c | Pileup \<Rightarrow> lastWavePileup c
                   | Saturated \<Rightarrow> lastWaveSatu c | Any \<Rightarrow> lastWave c))"

definition hist_events :: "HistogramStore \<Rightarrow> nat \<Rightarrow> nat \<Rightarrow> u64" where
  "hist_events m board ch =
     (case find_channel m board ch of Some c \<Rightarrow> n_events (h_counts c) | None \<Rightarrow> 0)"

definition hist_counts :: "HistogramStore \<Rightarrow> nat \<Rightarrow> nat \<Rightarrow> Counts" where
  "hist_counts m board ch =
     (case find_channel m board ch of Some c \<Rightarrow> h_counts c | None \<Rightarrow> Counts_init)"

definition channels :: "HistogramStore \<Rightarrow> (nat \<times> nat) list" where
  "channels m = map (\<lambda>k. (unat (drop_bit 16 k), unat (k AND 0xFFFF))) (omap_keys m)"

definition hist_reset :: "HistogramStore \<Rightarrow> HistogramStore" where
  "hist_reset m = []"

section \<open>What a histogram holds\<close>

text \<open>
  The specification: a histogram is a tally of the indices recorded in it, \<open>[]\<close> before the
  first one; a channel is a function of the events filled into it.
\<close>

definition tally :: "nat \<Rightarrow> nat list \<Rightarrow> u32 list" where
  "tally n is = (if is = [] then [] else map (\<lambda>b. of_nat (count_list is b)) [0..<n])"

definition is_charged :: "DecodedEvent \<Rightarrow> bool" where
  "is_charged e \<longleftrightarrow> qshort e \<noteq> 0 \<or> qlong e \<noteq> 0"

definition psd_index :: "DecodedEvent \<Rightarrow> nat" where
  "psd_index e = psd_xbin (qlong e) * kPsdYBins + psd_ybin (qshort e) (qlong e)"

text \<open>The times between the hits that move time forward, stragglers left out.\<close>

fun hit_intervals :: "int \<Rightarrow> int list \<Rightarrow> int list" where
  "hit_intervals prev [] = []"
| "hit_intervals prev (t # ts) =
     (if t > 0 \<and> prev \<ge> 0 \<and> t > prev then (t - prev) # hit_intervals t ts
      else hit_intervals (if t > 0 then max prev t else prev) ts)"

definition last_time :: "int list \<Rightarrow> int" where
  "last_time ts = foldl (\<lambda>l t. if t > 0 then max l t else l) (-1) ts"

definition last_trace :: "DecodedEvent list \<Rightarrow> u16 list" where
  "last_trace es = (let tr = filter (\<lambda>w. w \<noteq> []) (map wave es) in if tr = [] then [] else last tr)"

definition channel_of :: "(rat \<Rightarrow> rat) \<Rightarrow> DecodedEvent list \<Rightarrow> Channel" where
  "channel_of lg es =
     \<lparr> h_energy = tally kEnergyBins (filter (\<lambda>v. v \<noteq> 0) (map energy es)),
       h_qshort = tally kQShortBins (map qshort (filter is_charged es)),
       h_qlong = tally kQLongBins (map qlong (filter is_charged es)),
       h_psd = tally (kPsdXBins * kPsdYBins) (map psd_index (filter (\<lambda>e. qlong e > 0) es)),
       h_interval = tally kIntervalBins (map (interval_bin lg) (hit_intervals (-1) (map timePs es))),
       lastTimePs = last_time (map timePs es),
       lastWave = last_trace es,
       lastWaveGood = last_trace (filter (\<lambda>e. \<not> pileup e \<and> \<not> satu e) es),
       lastWavePileup = last_trace (filter pileup es),
       lastWaveSatu = last_trace (filter satu es),
       h_counts = \<lparr> n_events = of_nat (length es), n_pileup = of_nat (length (filter pileup es)),
                    n_lost = of_nat (length (filter lost es)),
                    n_satu = of_nat (length (filter satu es)) \<rparr> \<rparr>"

lemma channel_of_Nil: "channel_of lg [] = Channel_init"
  by (simp add: channel_of_def Channel_init_def Counts_init_def tally_def last_time_def last_trace_def)

lemma length_tally: "is \<noteq> [] \<Longrightarrow> length (tally n is) = n"
  by (simp add: tally_def)

lemma ensure_tally:
  "0 < n \<Longrightarrow> ensure n (tally n is) = map (\<lambda>b. of_nat (count_list is b)) [0..<n]"
  by (auto simp: ensure_def tally_def map_replicate_const)

lemma bump_tally:
  assumes "i < n"
  shows "bump i (ensure n (tally n is)) = Some (tally n (is @ [i]))"
proof -
  have "(map (\<lambda>b. of_nat (count_list is b)) [0..<n])[i := of_nat (count_list is i) + 1] =
        (map (\<lambda>b. of_nat (count_list (is @ [i]) b)) [0..<n] :: u32 list)"
    using assms by (intro nth_equalityI) (auto simp: nth_list_update)
  moreover have "tally n (is @ [i]) = map (\<lambda>b. of_nat (count_list (is @ [i]) b)) [0..<n]"
    by (simp only: tally_def) simp
  moreover have "0 < n" using assms by simp
  ultimately show ?thesis
    using assms by (simp only: ensure_tally bump_def) simp
qed

lemma skip_tally:
  assumes "0 < n" "n \<le> i"
  shows "ensure n (tally n is) = tally n (is @ [i])"
proof -
  have "map (\<lambda>b. of_nat (count_list is b)) [0..<n] =
        (map (\<lambda>b. of_nat (count_list (is @ [i]) b)) [0..<n] :: u32 list)"
    using assms by simp
  then show ?thesis unfolding ensure_tally [OF assms(1)] by (simp only: tally_def) simp
qed

lemma psd_bins_less [simp]: "psd_xbin ql < kPsdXBins" "psd_ybin qs ql < kPsdYBins"
  by (auto simp: psd_xbin_def psd_ybin_def Let_def hist_sizes)

lemma psd_index_less: "psd_index e < kPsdXBins * kPsdYBins"
proof -
  have "psd_xbin (qlong e) + 1 \<le> kPsdXBins" by (simp add: Suc_le_eq)
  then have "(psd_xbin (qlong e) + 1) * kPsdYBins \<le> kPsdXBins * kPsdYBins" by (rule mult_le_mono1)
  then show ?thesis
    using psd_bins_less(2) [of "qshort e" "qlong e"] unfolding psd_index_def add_mult_distrib by linarith
qed

lemma interval_bin_less: "interval_bin lg dt < kIntervalBins"
  by (simp add: interval_bin_def Let_def hist_sizes nat_less_iff floor_less_iff not_le)

lemma last_time_snoc: "last_time (ts @ [t]) = (if t > 0 then max (last_time ts) t else last_time ts)"
  by (simp add: last_time_def)

lemma hit_intervals_snoc:
  "hit_intervals l (ts @ [t]) = hit_intervals l ts @
     (let m = foldl (\<lambda>l t. if t > 0 then max l t else l) l ts
      in if t > 0 \<and> m \<ge> 0 \<and> t > m then [t - m] else [])"
proof (induction ts arbitrary: l)
  case Nil
  show ?case by simp
next
  case (Cons s ts)
  show ?case
    using Cons.IH [of s] Cons.IH [of "if s > 0 then max l s else l"] by (auto simp: max_def Let_def)
qed

lemma last_trace_snoc:
  "last_trace (es @ [e]) = (if wave e = [] then last_trace es else wave e)"
  by (simp add: last_trace_def)

section \<open>Filling implements the specification\<close>

lemma fill_energy_spec:
  "fill_energy e (channel_of lg es) =
     Some ((channel_of lg es)\<lparr> h_energy := h_energy (channel_of lg (es @ [e])) \<rparr>)"
proof -
  have "0 < kEnergyBins" by (simp add: hist_sizes)
  then show ?thesis
    by (simp add: fill_energy_def Let_def channel_of_def bump_tally skip_tally not_less)
qed

lemma fill_charge_spec:
  assumes "qlong e < 2 ^ 16"
  shows "fill_charge e (c\<lparr> h_qshort := h_qshort (channel_of lg es),
       h_qlong := h_qlong (channel_of lg es), h_psd := h_psd (channel_of lg es) \<rparr>) =
     Some (c\<lparr> h_qshort := h_qshort (channel_of lg (es @ [e])),
       h_qlong := h_qlong (channel_of lg (es @ [e])), h_psd := h_psd (channel_of lg (es @ [e])) \<rparr>)"
proof -
  have "qlong e < kQLongBins" "0 < kQShortBins" using assms by (simp_all add: hist_sizes)
  then show ?thesis
    using psd_index_less [of e]
    by (simp add: fill_charge_def Let_def channel_of_def bump_tally skip_tally not_less
        is_charged_def flip: psd_index_def)
qed

lemma fill_time_spec:
  "fill_time lg e (c\<lparr> h_interval := h_interval (channel_of lg es),
       lastTimePs := lastTimePs (channel_of lg es) \<rparr>) =
     Some (c\<lparr> h_interval := h_interval (channel_of lg (es @ [e])),
       lastTimePs := lastTimePs (channel_of lg (es @ [e])) \<rparr>)"
  by (simp add: fill_time_def Let_def channel_of_def bump_tally interval_bin_less
      last_time_snoc hit_intervals_snoc max_def flip: last_time_def)

lemma fill_rest_spec:
  "fill_counts e (fill_wave e
     ((channel_of lg (es @ [e]))\<lparr> lastWave := last_trace es,
        lastWaveGood := last_trace (filter (\<lambda>e. \<not> pileup e \<and> \<not> satu e) es),
        lastWavePileup := last_trace (filter pileup es), lastWaveSatu := last_trace (filter satu es),
        h_counts := h_counts (channel_of lg es) \<rparr>)) = channel_of lg (es @ [e])"
  by (simp add: fill_counts_def fill_wave_def Let_def channel_of_def last_trace_snoc)

lemma fill_channel_spec:
  assumes "qlong e < 2 ^ 16"
  shows "fill_channel lg e (channel_of lg es) = Some (channel_of lg (es @ [e]))"
proof -
  let ?c = "channel_of lg es" and ?c' = "channel_of lg (es @ [e])"
  let ?c1 = "?c\<lparr> h_energy := h_energy ?c' \<rparr>"
  let ?c2 = "?c1\<lparr> h_qshort := h_qshort ?c', h_qlong := h_qlong ?c', h_psd := h_psd ?c' \<rparr>"
  let ?c3 = "?c2\<lparr> h_interval := h_interval ?c', lastTimePs := lastTimePs ?c' \<rparr>"
  have 1: "fill_energy e ?c = Some ?c1" by (rule fill_energy_spec)
  have 2: "fill_charge e ?c1 = Some ?c2"
    using fill_charge_spec [OF assms, where c = ?c1 and lg = lg and es = es] by simp
  have 3: "fill_time lg e ?c2 = Some ?c3"
    using fill_time_spec [where c = ?c2 and lg = lg and es = es and e = e] by simp
  have 4: "fill_counts e (fill_wave e ?c3) = ?c'"
    using fill_rest_spec [where e = e and lg = lg and es = es] by (simp add: channel_of_def)
  show ?thesis unfolding fill_channel_def 1 2 3 bind.bind_lunit 4 ..
qed

section \<open>The store\<close>

lemma hist_key_split:
  assumes "board < 2 ^ 16" "ch < 2 ^ 16"
  shows "drop_bit 16 (hist_key board ch) = of_nat board"
    and "hist_key board ch AND 0xFFFF = of_nat ch"
proof -
  note b = bit_nat_less [OF assms(1)] and c = bit_nat_less [OF assms(2)]
  show "drop_bit 16 (hist_key board ch) = of_nat board"
    by (rule bit_word_eqI) (auto simp: hist_key_def bit_simps dest: b c)
  have "hist_key board ch AND mask 16 = of_nat ch"
    by (rule bit_word_eqI) (auto simp: hist_key_def bit_simps dest: b c)
  then show "hist_key board ch AND 0xFFFF = of_nat ch" by (simp add: mask_eq_exp_minus_1)
qed

lemma of_nat_u32_inj: "a < 2 ^ 16 \<Longrightarrow> b < 2 ^ 16 \<Longrightarrow> (of_nat a :: u32) = of_nat b \<Longrightarrow> a = b"
  by (simp add: word_of_nat_eq_iff take_bit_nat_eq_self_iff [THEN iffD2])

lemma hist_key_inj:
  assumes "board < 2 ^ 16" "ch < 2 ^ 16" "board' < 2 ^ 16" "ch' < 2 ^ 16"
  shows "hist_key board ch = hist_key board' ch' \<longleftrightarrow> board = board' \<and> ch = ch'"
  using hist_key_split [OF assms(1,2)] hist_key_split [OF assms(3,4)] assms of_nat_u32_inj by metis

lemma fill_spec:
  assumes "omap_ok m" "qlong e < 2 ^ 16" "k = hist_key (ev_board e) (ev_channel e)"
    and "omap_lookup m k = (if own = [] then None else Some (channel_of lg own))"
  shows "fill lg m e = Some (omap_store k (channel_of lg (own @ [e])) m)"
proof -
  have "omap_get Channel_init m k = channel_of lg own"
    using assms(4) by (simp add: omap_get_def channel_of_Nil)
  then show ?thesis
    using fill_channel_spec [OF assms(2)] by (simp add: fill_def assms(3))
qed

lemma fills_spec:
  assumes "\<forall>e \<in> set es. fields16 e"
  shows "\<exists>m. foldM (fill lg) [] es = Some m \<and> omap_ok m \<and>
    (\<forall>k. omap_lookup m k =
      (let own = filter (\<lambda>e. hist_key (ev_board e) (ev_channel e) = k) es
       in if own = [] then None else Some (channel_of lg own)))"
  using assms
proof (induction es rule: rev_induct)
  case Nil
  show ?case by simp
next
  case (snoc e es)
  let ?own = "\<lambda>k es. filter (\<lambda>e. hist_key (ev_board e) (ev_channel e) = k) es"
  let ?k = "hist_key (ev_board e) (ev_channel e)"
  from snoc obtain m where m: "foldM (fill lg) [] es = Some m" "omap_ok m"
    "\<And>k. omap_lookup m k = (if ?own k es = [] then None else Some (channel_of lg (?own k es)))"
    by (auto simp: Let_def)
  have "fill lg m e = Some (omap_store ?k (channel_of lg (?own ?k es @ [e])) m)"
    using snoc.prems m by (intro fill_spec) (auto simp: fields16_def)
  then show ?case
    using m by (auto simp: foldM_append Let_def)
qed

definition own_events :: "nat \<Rightarrow> nat \<Rightarrow> DecodedEvent list \<Rightarrow> DecodedEvent list" where
  "own_events board ch es = filter (\<lambda>e. ev_board e = board \<and> ev_channel e = ch) es"

lemma fills_find:
  assumes ok: "\<forall>e \<in> set es. fields16 e" and "foldM (fill lg) [] es = Some m"
    and "board < 2 ^ 16" "ch < 2 ^ 16"
  shows "find_channel m board ch = (if own_events board ch es = [] then None
           else Some (channel_of lg (own_events board ch es)))"
proof -
  have "filter (\<lambda>e. hist_key (ev_board e) (ev_channel e) = hist_key board ch) es = own_events board ch es"
    unfolding own_events_def using ok assms(3,4)
    by (intro filter_cong refl) (auto simp: fields16_def hist_key_inj)
  then show ?thesis
    using fills_spec [OF ok, of lg] assms(2) by (auto simp: find_channel_def Let_def)
qed

text \<open>
  C6. Filling any sequence of events never writes outside a histogram, and afterwards every
  channel is exactly the tally of its own events: spectra, charge plot, times between hits,
  latest traces per kind and counters are functions of that channel's events alone, in order,
  and a channel without events has no entry.
\<close>

theorem fill_implements_tally:
  assumes "\<forall>e \<in> set es. fields16 e" and "board < 2 ^ 16" and "ch < 2 ^ 16"
  shows "\<exists>m. foldM (fill lg) [] es = Some m \<and>
    find_channel m board ch = (if own_events board ch es = [] then None
                               else Some (channel_of lg (own_events board ch es)))"
  using fills_find [OF assms(1) _ assms(2,3)] fills_spec [OF assms(1), of lg] by blast

definition demo_event :: "nat \<Rightarrow> nat \<Rightarrow> int \<Rightarrow> DecodedEvent" where
  "demo_event ch v t = DecodedEvent_init\<lparr> ev_board := 3, ev_channel := ch, energy := v, timePs := t \<rparr>"

lemma demo_event_fields: "ch < 2 ^ 16 \<Longrightarrow> v < 2 ^ 16 \<Longrightarrow> fields16 (demo_event ch v t)"
  by (simp add: demo_event_def fields16_def DecodedEvent_init_def)

lemma demo_event_simps [simp]:
  "ev_board (demo_event ch v t) = 3" "ev_channel (demo_event ch v t) = ch"
  "energy (demo_event ch v t) = v" "timePs (demo_event ch v t) = t"
  by (simp_all add: demo_event_def)

theorem fill_implements_tally_witness:
  "\<exists>m. foldM (fill id) [] [demo_event 0 5 10, demo_event 1 7 20, demo_event 0 5 30] = Some m \<and>
     find_channel m 3 0 = Some (channel_of id [demo_event 0 5 10, demo_event 0 5 30])"
  using fill_implements_tally [of "[demo_event 0 5 10, demo_event 1 7 20, demo_event 0 5 30]" 3 0 id]
  by (simp add: demo_event_fields own_events_def)

text \<open>
  C7. The energy spectrum of a channel is the exact distribution of its events: after any
  sequence of fills, bin \<open>b\<close> holds the number of that channel's events of energy \<open>b\<close>, modulo
  the 32 bits of a bin, for every bin of an event that ever reached it.
\<close>

theorem energy_spectrum_exact:
  assumes "\<forall>e \<in> set es. fields16 e" and "board < 2 ^ 16" and "ch < 2 ^ 16"
    and "foldM (fill lg) [] es = Some m" and "0 < b" and "b < kEnergyBins"
    and "\<exists>e \<in> set (own_events board ch es). energy e \<noteq> 0"
  shows "hist_energy m board ch ! b =
    of_nat (length (filter (\<lambda>e. energy e = b) (own_events board ch es)))"
proof -
  let ?own = "own_events board ch es"
  have cl: "count_list (filter P (map f xs)) v = length (filter (\<lambda>x. f x = v) xs)"
    if "P v" for P f v and xs :: "DecodedEvent list"
    using that by (induction xs) auto
  have "find_channel m board ch = Some (channel_of lg ?own)"
    using fills_find [OF assms(1,4,2,3)] assms(7) by auto
  moreover have "filter (\<lambda>v. v \<noteq> 0) (map energy ?own) \<noteq> []"
    using assms(7) by (auto simp: filter_empty_conv)
  ultimately show ?thesis
    using assms(5,6) by (simp add: hist_energy_def snapshot_def channel_of_def tally_def cl)
qed

theorem energy_spectrum_exact_witness:
  "hist_energy (the (foldM (fill id) [] [demo_event 0 5 10, demo_event 1 5 20, demo_event 0 5 30])) 3 0 ! 5 = 2"
proof -
  let ?es = "[demo_event 0 5 10, demo_event 1 5 20, demo_event 0 5 30]"
  have ok: "\<forall>e \<in> set ?es. fields16 e" by (simp add: demo_event_fields)
  obtain m where m: "foldM (fill id) [] ?es = Some m" using fills_spec [OF ok, of id] by blast
  have "hist_energy m 3 0 ! 5 = of_nat (length (filter (\<lambda>e. energy e = 5) (own_events 3 0 ?es)))"
    by (rule energy_spectrum_exact [OF ok _ _ m]) (simp_all add: own_events_def kEnergyBins_def)
  then show ?thesis unfolding m option.sel by (simp add: own_events_def)
qed

section \<open>Times between hits\<close>

lemma hit_intervals_pos: "d \<in> set (hit_intervals prev ts) \<Longrightarrow> d > 0"
  by (induction prev ts rule: hit_intervals.induct) (auto split: if_splits)

lemma hit_intervals_sum:
  assumes "prev \<ge> 0"
  shows "sum_list (hit_intervals prev ts) = foldl (\<lambda>l t. if t > 0 then max l t else l) prev ts - prev"
  using assms by (induction prev ts rule: hit_intervals.induct) (auto simp: max_def)

lemma hit_intervals_first:
  assumes "filter (\<lambda>t. t > 0) ts \<noteq> []"
  shows "sum_list (hit_intervals (-1) ts) = last_time ts - hd (filter (\<lambda>t. t > 0) ts)"
  using assms unfolding last_time_def
proof (induction ts)
  case (Cons t ts)
  then show ?case using hit_intervals_sum [of t ts] by (cases "t > 0") simp_all
qed simp

text \<open>
  C8. The times between hits of a channel tile its live time: whatever the order in which the
  events arrive, the interval spectrum is the tally of strictly positive times that add up to
  the span from the channel's first placed hit to its latest. A straggler is neither counted
  twice nor moves time back.
\<close>

theorem interval_spectrum_tiles:
  assumes "\<forall>e \<in> set es. fields16 e" and "board < 2 ^ 16" and "ch < 2 ^ 16"
    and "foldM (fill lg) [] es = Some m"
    and "filter (\<lambda>t. t > 0) (map timePs (own_events board ch es)) = first # rest"
  shows "\<exists>dts c. find_channel m board ch = Some c \<and>
    h_interval c = tally kIntervalBins (map (interval_bin lg) dts) \<and>
    list_all (\<lambda>d. d > 0) dts \<and> sum_list dts = lastTimePs c - first"
proof -
  let ?own = "own_events board ch es"
  let ?dts = "hit_intervals (-1) (map timePs ?own)"
  have "find_channel m board ch = Some (channel_of lg ?own)"
    using fills_find [OF assms(1,4,2,3)] assms(5) by auto
  moreover have "sum_list ?dts = last_time (map timePs ?own) - first"
    using hit_intervals_first [of "map timePs ?own"] assms(5) by simp
  ultimately show ?thesis
    by (intro exI [of _ ?dts] exI [of _ "channel_of lg ?own"])
      (auto simp: channel_of_def list_all_iff dest: hit_intervals_pos)
qed

theorem interval_spectrum_tiles_witness:
  "\<exists>m dts c. foldM (fill id) [] [demo_event 0 5 10, demo_event 0 5 30, demo_event 0 5 20] = Some m \<and>
     find_channel m 3 0 = Some c \<and> h_interval c = tally kIntervalBins (map (interval_bin id) dts) \<and>
     list_all (\<lambda>d. d > 0) dts \<and> sum_list dts = lastTimePs c - 10"
proof -
  let ?es = "[demo_event 0 5 10, demo_event 0 5 30, demo_event 0 5 20]"
  have ok: "\<forall>e \<in> set ?es. fields16 e" by (simp add: demo_event_fields)
  obtain m where m: "foldM (fill id) [] ?es = Some m" using fills_spec [OF ok, of id] by blast
  show ?thesis
    using interval_spectrum_tiles [OF ok _ _ m, of 3 0 10 "[30, 20]"] m
    by (simp add: own_events_def)
qed

section \<open>The charge ratio\<close>

lemma fl_sub_error:
  assumes "0 \<le> q" "q \<le> 1"
  shows "\<bar>fl (1 - fl q) - (1 - q)\<bar> \<le> 3 * 2 powi (- 53)"
proof -
  let ?u = "2 powi (- 53) :: rat"
  have u: "0 \<le> ?u" "?u \<le> 1" by (simp_all add: power_int_minus)
  have 1: "\<bar>fl q - q\<bar> \<le> ?u"
    using fl_error [of q] mult_right_mono [of q 1 ?u] assms u by simp
  have "\<bar>fl (1 - fl q) - (1 - fl q)\<bar> \<le> \<bar>1 - fl q\<bar> * ?u" by (rule fl_error)
  also have "\<bar>1 - fl q\<bar> \<le> 2" using 1 assms u by linarith
  then have "\<bar>1 - fl q\<bar> * ?u \<le> 2 * ?u" using u(1) by (rule mult_right_mono)
  finally show ?thesis using 1 by linarith
qed

lemma clamp_error:
  fixes r x d :: rat
  assumes "\<bar>r - x\<bar> \<le> d" "0 \<le> x" "x \<le> 1"
    and "c = (if (if r < 0 then 0 else r) > 1 then 1 else if r < 0 then 0 else r)"
  shows "0 \<le> c" "c \<le> 1" "\<bar>c - x\<bar> \<le> d"
proof -
  consider "r < 0" "c = 0" | "r > 1" "c = 1" | "0 \<le> r" "r \<le> 1" "c = r"
    using assms(4) by (auto split: if_splits)
  then show "0 \<le> c" "c \<le> 1" "\<bar>c - x\<bar> \<le> d" using assms(1-3) by (cases; linarith)+
qed

text \<open>
  C9. The row of the charge plot is the PSD ratio up to one bin: with the short gate inside the
  long one, the bin computed in floating point is within one of the bin of the exact ratio
  \<open>1 - qshort / qlong\<close>, and both coordinates always stay inside the plot.
\<close>

theorem psd_bin_accurate:
  assumes "0 < ql" and "qs \<le> ql"
  shows "\<bar>int (psd_ybin qs ql) -
      int (min (kPsdYBins - 1) (nat \<lfloor>(1 - of_nat qs / of_nat ql :: rat) * of_nat kPsdYBins\<rfloor>))\<bar> \<le> 1"
proof -
  define u where "u = (2 powi (- 53) :: rat)"
  define q where "q = (of_nat qs / of_nat ql :: rat)"
  define r where "r = fl (1 - fl q)"
  define c where "c = (if (if r < 0 then 0 else r) > 1 then 1 else if r < 0 then 0 else r)"
  define s where "s = fl (c * 256)"
  have q: "0 \<le> q" "q \<le> 1" using assms by (simp_all add: q_def)
  then have x: "0 \<le> 1 - q" "1 - q \<le> 1" by simp_all
  have c: "0 \<le> c" "c \<le> 1" "\<bar>c - (1 - q)\<bar> \<le> 3 * u"
    using clamp_error [OF fl_sub_error [OF q, folded r_def u_def] x c_def] by blast+
  have "\<bar>s - c * 256\<bar> \<le> \<bar>c * 256\<bar> * u" unfolding s_def u_def by (rule fl_error)
  also have "\<dots> \<le> 256 * u" using c by (intro mult_right_mono) (auto simp: u_def)
  finally have "\<bar>s - (1 - q) * 256\<bar> \<le> 1024 * u"
    using c(3) unfolding abs_le_iff left_diff_distrib by linarith
  also have "\<dots> < 1" by (simp add: u_def power_int_minus)
  finally have s: "\<bar>s - (1 - q) * 256\<bar> < 1" .
  have "0 \<le> \<lfloor>s\<rfloor>" "0 \<le> \<lfloor>(1 - q) * 256\<rfloor>" using c(1) x by (simp_all add: s_def fl_nonneg)
  with s have "\<bar>int (min 255 (nat \<lfloor>s\<rfloor>)) - int (min 255 (nat \<lfloor>(1 - q) * 256\<rfloor>))\<bar> \<le> 1"
    by linarith
  moreover have "psd_ybin qs ql = min 255 (nat \<lfloor>s\<rfloor>)"
    unfolding psd_ybin_def Let_def s_def c_def r_def q_def by (simp add: kPsdYBins_def min_def)
  ultimately show ?thesis by (simp add: kPsdYBins_def q_def)
qed

theorem psd_bin_accurate_witness:
  "\<bar>int (psd_ybin 30 100) - 179\<bar> \<le> 1"
proof -
  have "\<lfloor>896 / 5 :: rat\<rfloor> = 179" by (simp add: floor_eq_iff)
  then show ?thesis using psd_bin_accurate [of 100 30] by (simp add: kPsdYBins_def)
qed

section \<open>The channel list\<close>

text \<open>
  \<open>channels()\<close> lists exactly the channels that received an event, each once, in ascending
  order of board and channel.
\<close>

theorem channels_exact:
  assumes "\<forall>e \<in> set es. fields16 e" and "foldM (fill lg) [] es = Some m"
  shows "set (channels m) = (\<lambda>e. (ev_board e, ev_channel e)) ` set es \<and> distinct (channels m)"
proof -
  let ?key = "\<lambda>e. hist_key (ev_board e) (ev_channel e)"
  let ?un = "\<lambda>k :: u32. (unat (drop_bit 16 k), unat (k AND 0xFFFF))"
  have m: "omap_ok m" "\<And>k. omap_lookup m k = (let own = filter (\<lambda>e. ?key e = k) es
       in if own = [] then None else Some (channel_of lg own))"
    using fills_spec [OF assms(1), of lg] assms(2) by auto
  have keys: "set (omap_keys m) = ?key ` set es"
    unfolding set_eq_iff omap.keys_lookup [OF m(1)] m(2) Let_def
    by (auto simp: filter_empty_conv)
  have un: "?un (?key e) = (ev_board e, ev_channel e)" if "e \<in> set es" for e
    using assms(1) that by (auto simp: fields16_def hist_key_split unat_of_nat)
  have "set (channels m) = ?un ` (?key ` set es)"
    unfolding channels_def list.set_map [of ?un] keys ..
  also have "\<dots> = (\<lambda>e. (ev_board e, ev_channel e)) ` set es"
    unfolding image_image by (intro image_cong refl un)
  finally have "set (channels m) = (\<lambda>e. (ev_board e, ev_channel e)) ` set es" .
  moreover have "inj_on ?un (set (omap_keys m))"
    unfolding keys using un by (auto simp: inj_on_def)
  then have "distinct (channels m)"
    using m(1) unfolding channels_def omap_ok_def by (intro distinct_map [THEN iffD2]) simp
  ultimately show ?thesis by simp
qed

theorem channels_exact_witness:
  "set (channels (the (foldM (fill id) [] [demo_event 1 5 10, demo_event 0 5 30]))) = {(3, 0), (3, 1)}"
proof -
  let ?es = "[demo_event 1 5 10, demo_event 0 5 30]"
  have ok: "\<forall>e \<in> set ?es. fields16 e" by (simp add: demo_event_fields)
  obtain m where m: "foldM (fill id) [] ?es = Some m" using fills_spec [OF ok, of id] by blast
  show ?thesis unfolding m option.sel using channels_exact [OF ok m] by auto
qed

end
