(* ===== verification/Hit_Tap.thy ===== *)
theory Hit_Tap
  imports Board_Model "HOL-Library.Sublist"
begin

text \<open>
  \<open>HitTap\<close>: the bounded buffer of hits the decode thread fills and a coincidence consumer
  empties. Every operation holds the mutex, so an interleaving is a sequence of operations.
\<close>

section \<open>State and operations\<close>

record Hit =
  hit_timePs :: int
  hit_energy :: nat
  hit_channel :: nat
  hit_flags :: nat
  hit_reserved :: nat

record HitTap =
  tap_enabled :: bool
  tap_capacity :: nat
  hits :: "Hit list"
  tap_dropped :: u64

definition kDefaultCapacity :: nat where
  "kDefaultCapacity = 2 ^ 20"

definition HitTap_init :: HitTap where
  "HitTap_init = \<lparr> tap_enabled = False, tap_capacity = kDefaultCapacity, hits = [], tap_dropped = 0 \<rparr>"

definition setEnabled :: "bool \<Rightarrow> HitTap \<Rightarrow> HitTap" where
  "setEnabled on t = (let t = t\<lparr> tap_enabled := on \<rparr> in if \<not> on then t\<lparr> hits := [] \<rparr> else t)"

definition setCapacity :: "nat \<Rightarrow> HitTap \<Rightarrow> HitTap" where
  "setCapacity n t = t\<lparr> tap_capacity := (if n \<noteq> 0 then n else 1) \<rparr>"

definition tap_append :: "Hit list \<Rightarrow> HitTap \<Rightarrow> HitTap" where
  "tap_append batch t =
     (if batch = [] then t
      else if \<not> tap_enabled t then t
      else let room = (if tap_capacity t > length (hits t) then tap_capacity t - length (hits t) else 0);
               n = (if length batch < room then length batch else room)
           in t\<lparr> hits := hits t @ take n batch,
                 tap_dropped := tap_dropped t + of_nat (length batch - n) \<rparr>)"

definition tap_take :: "HitTap \<Rightarrow> Hit list \<times> HitTap" where
  "tap_take t = (hits t, t\<lparr> hits := [] \<rparr>)"

definition fromEvent :: "DecodedEvent \<Rightarrow> Hit" where
  "fromEvent e =
     \<lparr> hit_timePs = timePs e,
       hit_energy = (if energy e \<noteq> 0 then energy e else qlong e),
       hit_channel = ev_channel e mod 2 ^ 8,
       hit_flags = (if pileup e then 1 else 0) OR (if satu e then 2 else 0) OR (if lost e then 4 else 0),
       hit_reserved = 0 \<rparr>"

section \<open>Sequences of operations\<close>

datatype tap_op = SetEnabled bool | SetCapacity nat | Append "Hit list" | Take

fun tap_exec :: "tap_op \<Rightarrow> HitTap \<Rightarrow> Hit list \<times> HitTap" where
  "tap_exec (SetEnabled b) t = ([], setEnabled b t)"
| "tap_exec (SetCapacity n) t = ([], setCapacity n t)"
| "tap_exec (Append batch) t = ([], tap_append batch t)"
| "tap_exec Take t = tap_take t"

text \<open>What the consumer received, what the decoder offered while the tap was on, what switching off discarded.\<close>

fun tap_run :: "tap_op list \<Rightarrow> HitTap \<Rightarrow> Hit list \<times> HitTap" where
  "tap_run [] t = ([], t)"
| "tap_run (a # as) t =
     (let (out, t) = tap_exec a t; (outs, t) = tap_run as t in (out @ outs, t))"

fun offered :: "tap_op list \<Rightarrow> HitTap \<Rightarrow> Hit list" where
  "offered [] t = []"
| "offered (a # as) t =
     (case a of Append b \<Rightarrow> if tap_enabled t then b else [] | _ \<Rightarrow> []) @ offered as (snd (tap_exec a t))"

fun discarded :: "tap_op list \<Rightarrow> HitTap \<Rightarrow> nat" where
  "discarded [] t = 0"
| "discarded (a # as) t =
     (case a of SetEnabled False \<Rightarrow> length (hits t) | _ \<Rightarrow> 0) + discarded as (snd (tap_exec a t))"

lemmas tap_ops = setEnabled_def setCapacity_def tap_append_def tap_take_def

lemma tap_append_split:
  "\<exists>n \<le> length batch. hits (tap_append batch t) = hits t @ (if tap_enabled t then take n batch else []) \<and>
     tap_dropped (tap_append batch t) = tap_dropped t + (if tap_enabled t then of_nat (length batch - n) else 0) \<and>
     length (hits (tap_append batch t)) \<le> max (length (hits t)) (tap_capacity t)"
proof -
  let ?room = "if tap_capacity t > length (hits t) then tap_capacity t - length (hits t) else 0"
  show ?thesis
    by (intro exI [of _ "if length batch < ?room then length batch else ?room"])
      (auto simp: tap_append_def Let_def)
qed

lemma tap_run_subseq:
  assumes "tap_run as t = (out, t')"
  shows "subseq (out @ hits t') (hits t @ offered as t)"
  using assms
proof (induction as arbitrary: t out t')
  case (Cons a as)
  obtain o1 t1 where 1: "tap_exec a t = (o1, t1)" by force
  obtain o2 where 2: "tap_run as t1 = (o2, t')" "out = o1 @ o2"
    using Cons.prems 1 by (auto split: prod.splits)
  have IH: "subseq (o2 @ hits t') (hits t1 @ offered as t1)" using Cons.IH [OF 2(1)] .
  show ?case
  proof (cases a)
    case (SetEnabled b)
    then have "subseq (hits t1) (hits t)" "o1 = []" using 1 by (auto simp: tap_ops Let_def)
    then show ?thesis using IH 1 2(2) SetEnabled
      by (auto intro: subseq_order.order_trans list_emb_append_mono)
  next
    case (SetCapacity n)
    then show ?thesis using IH 1 2(2) by (auto simp: tap_ops)
  next
    case (Append b)
    have t1: "t1 = tap_append b t" "o1 = []" using 1 Append by auto
    obtain n where n: "hits t1 = hits t @ (if tap_enabled t then take n b else [])"
      unfolding t1(1) using tap_append_split [of b t] by blast
    have pre: "subseq (hits t1) (hits t @ (if tap_enabled t then b else []))"
      unfolding n by (intro list_emb_append_mono) (auto intro: prefix_imp_subseq take_is_prefix)
    have "subseq (o2 @ hits t') ((hits t @ (if tap_enabled t then b else [])) @ offered as t1)"
      by (rule subseq_order.order_trans [OF IH list_emb_append_mono [OF pre subseq_order.refl]])
    then show ?thesis using 1 2(2) Append t1 by simp
  next
    case Take
    then have "t1 = t\<lparr> hits := [] \<rparr>" "o1 = hits t" using 1 by (auto simp: tap_ops)
    then show ?thesis using IH 1 2(2) Take by (auto intro: list_emb_append_mono)
  qed
qed simp

lemma tap_run_counts:
  assumes "tap_run as t = (out, t')"
  shows "tap_dropped t' + of_nat (length out + length (hits t') + discarded as t) =
         tap_dropped t + of_nat (length (hits t) + length (offered as t))"
  using assms
proof (induction as arbitrary: t out t')
  case (Cons a as)
  obtain o1 t1 where 1: "tap_exec a t = (o1, t1)" by force
  obtain o2 where 2: "tap_run as t1 = (o2, t')" "out = o1 @ o2"
    using Cons.prems 1 by (auto split: prod.splits)
  have IH: "tap_dropped t' + of_nat (length o2 + length (hits t') + discarded as t1) =
      tap_dropped t1 + of_nat (length (hits t1) + length (offered as t1))"
    using Cons.IH [OF 2(1)] .
  show ?case
  proof (cases a)
    case (SetEnabled b)
    then show ?thesis using IH 1 2(2)
      by (cases b) (auto simp: tap_ops Let_def algebra_simps)
  next
    case (SetCapacity n)
    then show ?thesis using IH 1 2(2) by (auto simp: tap_ops)
  next
    case (Append b)
    have t1: "t1 = tap_append b t" "o1 = []" using 1 Append by auto
    obtain n where n: "n \<le> length b" "hits t1 = hits t @ (if tap_enabled t then take n b else [])"
      "tap_dropped t1 = tap_dropped t + (if tap_enabled t then of_nat (length b - n) else 0)"
      unfolding t1(1) using tap_append_split [of b t] by blast
    have "tap_dropped t1 + of_nat (length (hits t1)) =
        tap_dropped t + of_nat (length (hits t) + (if tap_enabled t then length b else 0))"
      using n(1) by (simp add: n(2,3) of_nat_diff)
    then show ?thesis using IH 1 2(2) Append t1(2) by (auto simp: algebra_simps)
  next
    case Take
    then show ?thesis using IH 1 2(2) by (auto simp: tap_ops algebra_simps)
  qed
qed simp

text \<open>
  C21. For every interleaving of the decode thread, the consumer and the controls, the tap
  delivers hits in decode order without duplicating or inventing one: what the consumer took
  followed by what is still buffered is a subsequence of the hits offered while the tap was
  on, and \<open>dropped()\<close> counts exactly the missing ones apart from those discarded by switching
  the tap off.
\<close>

theorem tap_delivers_in_order:
  assumes "tap_run as HitTap_init = (out, t)"
  shows "subseq (out @ hits t) (offered as HitTap_init) \<and>
    tap_dropped t + of_nat (length out + length (hits t) + discarded as HitTap_init) =
      of_nat (length (offered as HitTap_init))"
  using tap_run_subseq [OF assms] tap_run_counts [OF assms] by (simp add: HitTap_init_def)

theorem tap_delivers_in_order_witness:
  "tap_dropped (snd (tap_run [SetEnabled True, SetCapacity 2,
      Append (map (\<lambda>t. fromEvent (DecodedEvent_init\<lparr> timePs := t \<rparr>)) [1, 2, 3]), Take] HitTap_init)) + 2 = 3"
  using tap_delivers_in_order [of "[SetEnabled True, SetCapacity 2,
      Append (map (\<lambda>t. fromEvent (DecodedEvent_init\<lparr> timePs := t \<rparr>)) [1, 2, 3]), Take]"]
  by (simp add: tap_ops HitTap_init_def Let_def)

text \<open>
  A consumer that stopped taking cannot make the tap grow: no operation other than a change
  of the capacity makes the buffer exceed it, and a batch that meets a buffer already above a
  lowered capacity adds nothing.
\<close>

theorem tap_bounded:
  "length (hits (snd (tap_exec a t))) \<le> max (length (hits t)) (tap_capacity t)"
proof (cases a)
  case (Append b)
  then show ?thesis using tap_append_split [of b t] by auto
qed (auto simp: tap_ops Let_def)

end
