(* ===== verification/Block_Queue.thy ===== *)
theory Block_Queue
  imports Board_Model
begin

text \<open>
  \<open>BlockQueue\<close>: the bounded queue between a reader thread and its consumers. A call that
  blocks is two critical sections with other threads in between: \<open>push\<close> is \<open>push_enter\<close> and,
  when the queue was full, \<open>push_wake\<close> after the wait; \<open>pop\<close> runs once there is a block or
  the queue is closed. The step relation interleaves these critical sections freely. The
  shared pointer of a block may be null (\<open>None\<close>).
\<close>

section \<open>The queue a consumer relies on\<close>

text \<open>
  \<open>while (auto b = pop()) body(*b)\<close>: the loop of every consumer. It has no bound of its own;
  that it ends is a theorem about a closed queue.
\<close>

partial_function (option) drain_loop ::
  "('q \<Rightarrow> 'b option \<times> 'q) \<Rightarrow> ('s \<Rightarrow> 'b \<Rightarrow> 's option) \<Rightarrow> 'q \<Rightarrow> 's \<Rightarrow> ('q \<times> 's) option" where
  "drain_loop pop body q s =
     (case pop q of
        (None, q') \<Rightarrow> Some (q', s)
      | (Some b, q') \<Rightarrow> do { s' \<leftarrow> body s b; drain_loop pop body q' s' })"

locale closable_queue =
  fixes pop :: "'q \<Rightarrow> 'b option \<times> 'q"
    and contents :: "'q \<Rightarrow> 'b list"
    and shut :: "'q \<Rightarrow> bool"
  assumes pop_Cons: "contents q = b # bs \<Longrightarrow>
      \<exists>q'. pop q = (Some b, q') \<and> contents q' = bs \<and> shut q' = shut q"
    and pop_Nil: "contents q = [] \<Longrightarrow> shut q \<Longrightarrow> pop q = (None, q)"
begin

text \<open>A consumer of a closed queue processes exactly what was queued, in order, and returns.\<close>

lemma drain:
  assumes "shut q" and "foldM body s (contents q) = Some s'"
  shows "\<exists>q'. drain_loop pop body q s = Some (q', s') \<and> contents q' = [] \<and> shut q'"
  using assms
proof (induction "contents q" arbitrary: q s)
  case Nil
  have c: "contents q = []" using Nil.hyps by (rule sym)
  then have "s' = s" using Nil.prems(2) unfolding c by simp
  moreover have "drain_loop pop body q s = Some (q, s)"
    unfolding drain_loop.simps [of pop body q s] pop_Nil [OF c Nil.prems(1)] by simp
  ultimately show ?case using c Nil.prems(1) by blast
next
  case (Cons b bs)
  from pop_Cons [OF Cons.hyps(2) [symmetric]] obtain q' where
    q': "pop q = (Some b, q')" "contents q' = bs" "shut q' = shut q" by blast
  have "foldM body s (b # bs) = Some s'" using Cons.prems(2) Cons.hyps(2) by metis
  then obtain t where t: "body s b = Some t" "foldM body t bs = Some s'"
    by (auto simp: bind_eq_Some_conv)
  have "\<exists>q''. drain_loop pop body q' t = Some (q'', s') \<and> contents q'' = [] \<and> shut q''"
    using q'(2,3) t(2) Cons.prems(1) by (intro Cons.hyps(1)) simp_all
  then show ?case unfolding drain_loop.simps [of pop body q s] q'(1) by (simp add: t(1))
qed

lemma drain_total:
  assumes "shut q" and "I s" and "\<And>s b. b \<in> set (contents q) \<Longrightarrow> I s \<Longrightarrow> \<exists>s'. body s b = Some s' \<and> I s'"
  shows "\<exists>q' s'. drain_loop pop body q s = Some (q', s') \<and> contents q' = [] \<and> I s'"
proof -
  obtain s' where s': "foldM body s (contents q) = Some s'" "I s'"
    using foldM_total [where I = I and f = body and s = s and xs = "contents q", OF assms(2,3)]
    by blast
  then show ?thesis using drain [OF assms(1) s'(1)] by blast
qed

end

section \<open>State and operations\<close>

type_synonym BlockPtr = "RawBlock option"

record BlockQueue =
  q_items :: "BlockPtr list"
  capacity :: nat
  closed :: bool
  q_dropped :: u64
  q_dropped_bytes :: u64

definition BlockQueue_new :: "nat \<Rightarrow> BlockQueue" where
  "BlockQueue_new cap =
     \<lparr> q_items = [], capacity = (if cap = 0 then 1 else cap), closed = False,
       q_dropped = 0, q_dropped_bytes = 0 \<rparr>"

definition block_size :: "BlockPtr \<Rightarrow> nat" where
  "block_size b = (case b of Some d \<Rightarrow> length d | None \<Rightarrow> 0)"

datatype push_outcome = Enqueued | DroppedFull | RefusedClosed | MustWait

definition push_enter :: "BlockPtr \<Rightarrow> BlockQueue \<Rightarrow> push_outcome \<times> BlockQueue" where
  "push_enter b q =
     (if closed q then (RefusedClosed, q)
      else if length (q_items q) \<ge> capacity q then (MustWait, q)
      else (Enqueued, q\<lparr> q_items := q_items q @ [b] \<rparr>))"

definition push_wake :: "BlockPtr \<Rightarrow> BlockQueue \<Rightarrow> push_outcome \<times> BlockQueue" where
  "push_wake b q =
     (if closed q then (RefusedClosed, q)
      else if length (q_items q) \<ge> capacity q
      then (DroppedFull, q\<lparr> q_dropped := q_dropped q + 1,
                            q_dropped_bytes := q_dropped_bytes q + of_nat (block_size b) \<rparr>)
      else (Enqueued, q\<lparr> q_items := q_items q @ [b] \<rparr>))"

text \<open>A whole call of \<open>push\<close>; \<open>others\<close> is what other threads do to the queue during the wait.\<close>

definition push :: "(BlockQueue \<Rightarrow> BlockQueue) \<Rightarrow> BlockPtr \<Rightarrow> BlockQueue \<Rightarrow> bool \<times> BlockQueue" where
  "push others b q =
     (case push_enter b q of
        (MustWait, q) \<Rightarrow> (let (r, q) = push_wake b (others q) in (r = Enqueued, q))
      | (r, q) \<Rightarrow> (r = Enqueued, q))"

definition pop :: "BlockQueue \<Rightarrow> BlockPtr option \<times> BlockQueue" where
  "pop q = (case q_items q of
              [] \<Rightarrow> (None, q)
            | b # bs \<Rightarrow> (Some b, q\<lparr> q_items := bs \<rparr>))"

text \<open>
  \<open>popFor\<close> returns the block, the queue and \<open>timedOut\<close>: whether the wait ended with neither a
  block nor a closed queue.
\<close>

definition popFor :: "BlockQueue \<Rightarrow> BlockPtr option \<times> bool \<times> BlockQueue" where
  "popFor q = (let timedOut = (\<not> closed q \<and> q_items q = []); (b, q) = pop q in (b, timedOut, q))"

definition close :: "BlockQueue \<Rightarrow> BlockQueue" where
  "close q = q\<lparr> closed := True \<rparr>"

definition q_size :: "BlockQueue \<Rightarrow> nat" where
  "q_size q = length (q_items q)"

interpretation bq: closable_queue pop q_items closed
  by unfold_locales (auto simp: pop_def)

section \<open>Interleavings\<close>

datatype bq_event =
    PushEnter BlockPtr push_outcome
  | PushWake BlockPtr push_outcome
  | Pop "BlockPtr option"
  | PopTimeout
  | Close

inductive bq_step :: "BlockQueue \<Rightarrow> bq_event \<Rightarrow> BlockQueue \<Rightarrow> bool" where
  enter: "push_enter b q = (r, q') \<Longrightarrow> bq_step q (PushEnter b r) q'"
| wake: "push_wake b q = (r, q') \<Longrightarrow> bq_step q (PushWake b r) q'"
| pop: "q_items q \<noteq> [] \<or> closed q \<Longrightarrow> pop q = (r, q') \<Longrightarrow> bq_step q (Pop r) q'"
| timeout: "popFor q = (None, True, q') \<Longrightarrow> bq_step q PopTimeout q'"
| close: "bq_step q Close (close q)"

inductive_cases bq_stepE: "bq_step q e q'"

inductive_simps bq_step_simps:
  "bq_step q (PushEnter b r) q'" "bq_step q (PushWake b r) q'" "bq_step q (Pop r) q'"
  "bq_step q PopTimeout q'" "bq_step q Close q'"

inductive bq_run :: "BlockQueue \<Rightarrow> bq_event list \<Rightarrow> BlockQueue \<Rightarrow> bool" where
  start: "bq_run q [] q"
| step: "bq_run q es q' \<Longrightarrow> bq_step q' e q'' \<Longrightarrow> bq_run q (es @ [e]) q''"

text \<open>What the calls of a run returned.\<close>

fun accepted :: "bq_event list \<Rightarrow> BlockPtr list" where
  "accepted [] = []"
| "accepted (PushEnter b Enqueued # es) = b # accepted es"
| "accepted (PushWake b Enqueued # es) = b # accepted es"
| "accepted (_ # es) = accepted es"

fun overflowed :: "bq_event list \<Rightarrow> BlockPtr list" where
  "overflowed [] = []"
| "overflowed (PushWake b DroppedFull # es) = b # overflowed es"
| "overflowed (_ # es) = overflowed es"

fun popped :: "bq_event list \<Rightarrow> BlockPtr list" where
  "popped [] = []"
| "popped (Pop (Some b) # es) = b # popped es"
| "popped (_ # es) = popped es"

lemma accepted_append [simp]: "accepted (xs @ ys) = accepted xs @ accepted ys"
  by (induction xs rule: accepted.induct) auto

lemma overflowed_append [simp]: "overflowed (xs @ ys) = overflowed xs @ overflowed ys"
  by (induction xs rule: overflowed.induct) auto

lemma popped_append [simp]: "popped (xs @ ys) = popped xs @ popped ys"
  by (induction xs rule: popped.induct) auto

lemmas bq_ops = push_enter_def push_wake_def pop_def popFor_def close_def

text \<open>One step: the FIFO equation, the bound, the counters, and what closing forbids.\<close>

lemma bq_step_fifo:
  "bq_step q e q' \<Longrightarrow> q_items q @ accepted [e] = popped [e] @ q_items q'"
  by (erule bq_stepE) (auto simp: bq_ops Let_def split: if_splits list.splits)

lemma bq_step_capacity:
  "bq_step q e q' \<Longrightarrow> capacity q' = capacity q \<and>
     (length (q_items q) \<le> capacity q \<longrightarrow> length (q_items q') \<le> capacity q')"
  by (erule bq_stepE) (auto simp: bq_ops Let_def split: if_splits list.splits)

lemma bq_step_dropped:
  "bq_step q e q' \<Longrightarrow> q_dropped q' = q_dropped q + of_nat (length (overflowed [e])) \<and>
     q_dropped_bytes q' = q_dropped_bytes q + of_nat (sum_list (map block_size (overflowed [e])))"
  by (erule bq_stepE) (auto simp: bq_ops Let_def split: if_splits list.splits)

lemma bq_step_closed:
  "bq_step q e q' \<Longrightarrow> closed q \<Longrightarrow> closed q' \<and> accepted [e] = [] \<and> overflowed [e] = []"
  by (erule bq_stepE) (auto simp: bq_ops Let_def split: if_splits list.splits)

text \<open>
  C12. In every interleaving of producers, consumers and a closer, on a queue made with any
  capacity, \<open>BlockQueue\<close> is a FIFO that loses nothing silently: the blocks for which \<open>push\<close>
  returned true are, in order, those popped followed by those still queued; the queue never
  holds more than its capacity; and \<open>dropped()\<close> and \<open>droppedBytes()\<close> count exactly the blocks
  refused because it stayed full.
\<close>

theorem queue_loses_nothing_silently:
  assumes "bq_run (BlockQueue_new cap) es q"
  shows "accepted es = popped es @ q_items q \<and> length (q_items q) \<le> max 1 cap \<and>
    q_dropped q = of_nat (length (overflowed es)) \<and>
    q_dropped_bytes q = of_nat (sum_list (map block_size (overflowed es)))"
proof -
  have "accepted es = popped es @ q_items q \<and> length (q_items q) \<le> capacity q \<and>
      capacity q = max 1 cap \<and> q_dropped q = of_nat (length (overflowed es)) \<and>
      q_dropped_bytes q = of_nat (sum_list (map block_size (overflowed es)))"
    using assms
  proof (induction "BlockQueue_new cap" es q)
    case start
    then show ?case by (simp add: BlockQueue_new_def)
  next
    case (step es q e q')
    then show ?case
      using bq_step_fifo [OF step.hyps(3)] bq_step_capacity [OF step.hyps(3)]
        bq_step_dropped [OF step.hyps(3)] by simp
  qed
  then show ?thesis by simp
qed

theorem queue_loses_nothing_silently_witness:
  "\<exists>q. bq_run (BlockQueue_new 1) [PushEnter (Some [7]) Enqueued, PushEnter (Some [8, 9]) MustWait,
       PushWake (Some [8, 9]) DroppedFull, Pop (Some (Some [7]))] q \<and> q_dropped q = 1"
proof -
  let ?q1 = "(BlockQueue_new 1)\<lparr> q_items := [Some [7]] \<rparr>"
  let ?q2 = "?q1\<lparr> q_dropped := 1, q_dropped_bytes := 2 \<rparr>"
  let ?q3 = "?q2\<lparr> q_items := [] \<rparr>"
  have 1: "bq_run (BlockQueue_new 1) ([] @ [PushEnter (Some [7]) Enqueued]) ?q1"
    by (rule bq_run.step, rule bq_run.start)
      (simp add: bq_step_simps push_enter_def BlockQueue_new_def)
  have 2: "bq_run (BlockQueue_new 1) (([] @ [PushEnter (Some [7]) Enqueued]) @
      [PushEnter (Some [8, 9]) MustWait]) ?q1"
    by (rule bq_run.step [OF 1]) (simp add: bq_step_simps push_enter_def BlockQueue_new_def)
  have 3: "bq_run (BlockQueue_new 1) ((([] @ [PushEnter (Some [7]) Enqueued]) @
      [PushEnter (Some [8, 9]) MustWait]) @ [PushWake (Some [8, 9]) DroppedFull]) ?q2"
    by (rule bq_run.step [OF 2])
      (simp add: bq_step_simps push_wake_def BlockQueue_new_def block_size_def)
  have 4: "bq_run (BlockQueue_new 1) (((([] @ [PushEnter (Some [7]) Enqueued]) @
      [PushEnter (Some [8, 9]) MustWait]) @ [PushWake (Some [8, 9]) DroppedFull]) @
      [Pop (Some (Some [7]))]) ?q3"
    by (rule bq_run.step [OF 3]) (simp add: bq_step_simps pop_def BlockQueue_new_def)
  show ?thesis
    using queue_loses_nothing_silently [OF 4] 4 by auto
qed

text \<open>
  C13. Shutdown: once the queue is closed every later \<open>push\<close> is refused, blocks queued before
  are still delivered, and the consumer's loop \<open>while (pop())\<close> ends after processing exactly
  what was queued, in order.
\<close>

theorem closed_queue_drains:
  assumes "closed q" and "foldM body s (q_items q) = Some s'"
  shows "(\<exists>q'. drain_loop pop body q s = Some (q', s') \<and> q_items q' = []) \<and>
    fst (push others b q) = False"
  using bq.drain [OF assms] assms(1) by (auto simp: push_def push_enter_def)

theorem closed_queue_drains_witness:
  "\<exists>q'. drain_loop pop (\<lambda>s b. Some (s + block_size b))
     (close ((BlockQueue_new 4)\<lparr> q_items := [Some [1, 2], None, Some [3]] \<rparr>)) 0 = Some (q', 3)"
  using closed_queue_drains [of "close ((BlockQueue_new 4)\<lparr> q_items := [Some [1, 2], None, Some [3]] \<rparr>)"
      "\<lambda>s b. Some (s + block_size b)" 0 3]
  by (auto simp: close_def block_size_def)

end
