(* ===== verification/Decode_Stage.thy ===== *)
theory Decode_Stage
  imports Decoder_Props Histogram_Store Hit_Tap Block_Queue
begin

text \<open>
  \<open>DecodeStage\<close>: one board's decode thread, which takes blocks from its own queue, decodes
  them, fills the shared histograms and offers the placed hits to the shared tap. The two
  shared objects are references in the source; here they are fields, read and written by the
  operations of the stage.
\<close>

section \<open>State and operations\<close>

record DecodeStage =
  sg_decoder :: AggregateDecoder
  sg_store :: HistogramStore
  sg_hits :: HitTap
  sg_queue :: BlockQueue
  sg_thread :: bool
  sg_running :: bool
  sg_events :: u64

definition DecodeStage_new :: "BoardInfo \<Rightarrow> HistogramStore \<Rightarrow> HitTap \<Rightarrow> nat \<Rightarrow> DecodeStage" where
  "DecodeStage_new info store tap queueCapacity =
     \<lparr> sg_decoder = registerBoard_info info AggregateDecoder_init, sg_store = store,
       sg_hits = tap, sg_queue = BlockQueue_new queueCapacity, sg_thread = False,
       sg_running = False, sg_events = 0 \<rparr>"

definition stage_start :: "DecodeStage \<Rightarrow> DecodeStage" where
  "stage_start s = (if sg_running s then s else s\<lparr> sg_running := True, sg_thread := True \<rparr>)"

definition stage_submit :: "(BlockQueue \<Rightarrow> BlockQueue) \<Rightarrow> BlockPtr \<Rightarrow> DecodeStage \<Rightarrow> DecodeStage" where
  "stage_submit others b s = s\<lparr> sg_queue := snd (push others b (sg_queue s)) \<rparr>"

text \<open>The body of the loop: one block.\<close>

definition stage_block :: "(rat \<Rightarrow> rat) \<Rightarrow> DecodeStage \<Rightarrow> BlockPtr \<Rightarrow> DecodeStage option" where
  "stage_block lg s block =
     (case block of
        None \<Rightarrow> Some s
      | Some data \<Rightarrow> do {
          let tapping = tap_enabled (sg_hits s);
          (d, evs) \<leftarrow> decode (sg_decoder s) data;
          store \<leftarrow> foldM (fill lg) (sg_store s) evs;
          let batch = (if tapping then map fromEvent (filter (\<lambda>e. timePs e > 0) evs) else []);
          Some (s\<lparr> sg_decoder := d, sg_store := store,
                   sg_hits := (if tapping then tap_append batch (sg_hits s) else sg_hits s),
                   sg_events := sg_events s + of_nat (length evs) \<rparr>)
        })"

definition stage_loop :: "(rat \<Rightarrow> rat) \<Rightarrow> DecodeStage \<Rightarrow> DecodeStage option" where
  "stage_loop lg s = do {
     (q, s) \<leftarrow> drain_loop pop (stage_block lg) (sg_queue s) s;
     Some (s\<lparr> sg_queue := q \<rparr>)
   }"

text \<open>
  \<open>stop\<close>: closes the queue and joins the thread, that is, waits until the loop has returned on
  what the queue still holds.
\<close>

definition stage_stop :: "(rat \<Rightarrow> rat) \<Rightarrow> DecodeStage \<Rightarrow> DecodeStage option" where
  "stage_stop lg s =
     (if \<not> sg_running s then Some s
      else let s = s\<lparr> sg_running := False, sg_queue := close (sg_queue s) \<rparr>
           in if sg_thread s then do {
                s \<leftarrow> stage_loop lg s;
                Some (s\<lparr> sg_thread := False \<rparr>)
              }
              else Some s)"

definition eventsDecoded :: "DecodeStage \<Rightarrow> u64" where
  "eventsDecoded s = sg_events s"

definition blocksDropped :: "DecodeStage \<Rightarrow> u64" where
  "blocksDropped s = q_dropped (sg_queue s)"

definition corruptAggregates :: "DecodeStage \<Rightarrow> nat" where
  "corruptAggregates s = dc_corrupt (dec_counters (sg_decoder s))"

definition boardFailures :: "DecodeStage \<Rightarrow> nat" where
  "boardFailures s = dc_boardFail (dec_counters (sg_decoder s))"

definition incompleteEvents :: "DecodeStage \<Rightarrow> nat" where
  "incompleteEvents s = dc_incomplete (dec_counters (sg_decoder s))"

section \<open>One block\<close>

text \<open>The events of a sequence of blocks, decoded in order by one decoder.\<close>

fun decode_blocks :: "AggregateDecoder \<Rightarrow> BlockPtr list \<Rightarrow> (AggregateDecoder \<times> DecodedEvent list) option" where
  "decode_blocks d [] = Some (d, [])"
| "decode_blocks d (None # bs) = decode_blocks d bs"
| "decode_blocks d (Some data # bs) = do {
     (d, evs) \<leftarrow> decode d data;
     (d, rest) \<leftarrow> decode_blocks d bs;
     Some (d, evs @ rest)
   }"

definition block_ok :: "BlockPtr \<Rightarrow> bool" where
  "block_ok b \<longleftrightarrow> block_size b < 2 ^ 33"

text \<open>The stage's invariant: its decoder is sound and the store is the fill of some history.\<close>

definition stage_ok :: "(rat \<Rightarrow> rat) \<Rightarrow> DecodedEvent list \<Rightarrow> DecodeStage \<Rightarrow> bool" where
  "stage_ok lg es s \<longleftrightarrow> decoder_ok (sg_decoder s) \<and> events_ok es \<and>
     foldM (fill lg) [] es = Some (sg_store s)"

lemma event_ok_fields: "event_ok e \<Longrightarrow> fields16 e"
  by (simp add: event_ok_def fields16_def)

lemma fills_total:
  assumes "events_ok es"
  shows "\<exists>m. foldM (fill lg) [] es = Some m"
proof -
  have "\<forall>e \<in> set es. fields16 e" using assms by (auto simp: events_ok_def event_ok_fields)
  from fills_spec [OF this, of lg] show ?thesis by blast
qed

lemma stage_block_step:
  assumes "stage_ok lg es s" and "block_ok (Some data)" and dec: "decode (sg_decoder s) data = Some (d, evs)"
  shows "\<exists>s'. stage_block lg s (Some data) = Some s' \<and> stage_ok lg (es @ evs) s' \<and>
    sg_decoder s' = d \<and> sg_events s' = sg_events s + of_nat (length evs)"
proof -
  have len: "length data < 2 ^ 33" using assms(2) by (simp add: block_ok_def block_size_def)
  have ok: "decoder_ok (sg_decoder s)" using assms(1) by (simp add: stage_ok_def)
  have d: "decoder_ok d \<and> events_ok evs"
  proof -
    have "\<exists>s'. decode (sg_decoder s) data = Some s' \<and> decoder_ok (fst s') \<and> events_ok (snd s')"
      by (rule decode_rule [OF len ok])
        (auto simp: events_ok_def appends_ok_def dest!: decode_aggregate_appends)
    then show ?thesis using dec by simp
  qed
  have es: "events_ok (es @ evs)" using assms(1) d by (auto simp: stage_ok_def events_ok_def)
  obtain m where m: "foldM (fill lg) [] (es @ evs) = Some m" using fills_total [OF es] by blast
  then have "foldM (fill lg) (sg_store s) evs = Some m"
    using assms(1) by (simp add: stage_ok_def foldM_append)
  then show ?thesis
    using m d es by (simp add: stage_block_def dec stage_ok_def Let_def)
qed

lemma stage_blocks_step:
  assumes "stage_ok lg es s" and "list_all block_ok bs"
  shows "\<exists>s' d evs. foldM (stage_block lg) s bs = Some s' \<and>
    decode_blocks (sg_decoder s) bs = Some (d, evs) \<and> stage_ok lg (es @ evs) s' \<and>
    sg_decoder s' = d \<and> sg_events s' = sg_events s + of_nat (length evs)"
  using assms
proof (induction bs arbitrary: s es)
  case Nil
  then show ?case by simp
next
  case (Cons b bs)
  show ?case
  proof (cases b)
    case None
    then show ?thesis using Cons by (simp add: stage_block_def)
  next
    case (Some data)
    have b: "block_ok (Some data)" "list_all block_ok bs" using Cons.prems Some by simp_all
    have len: "length data < 2 ^ 33" using b by (simp add: block_ok_def block_size_def)
    have ok: "decoder_ok (sg_decoder s)" using Cons.prems(1) by (simp add: stage_ok_def)
    obtain d1 e1 where dec: "decode (sg_decoder s) data = Some (d1, e1)"
      using decode_rule [OF len ok, of "\<lambda>_. True"] by auto
    obtain s1 where s1: "stage_block lg s (Some data) = Some s1" "stage_ok lg (es @ e1) s1"
      "sg_decoder s1 = d1" "sg_events s1 = sg_events s + of_nat (length e1)"
      using stage_block_step [OF Cons.prems(1) b(1) dec] by blast
    from Cons.IH [OF s1(2) b(2)] show ?thesis
      using s1 Some dec by (auto simp: algebra_simps)
  qed
qed

lemma stage_ok_queue [simp]:
  "stage_ok lg es (s\<lparr> sg_queue := q \<rparr>) = stage_ok lg es s"
  "stage_ok lg es (s\<lparr> sg_running := r \<rparr>) = stage_ok lg es s"
  "stage_ok lg es (s\<lparr> sg_thread := r \<rparr>) = stage_ok lg es s"
  by (simp_all add: stage_ok_def)

lemma stage_stop_drains:
  assumes "sg_running s" and "sg_thread s" and "stage_ok lg es s"
    and "list_all block_ok (q_items (sg_queue s))"
  shows "\<exists>s' d evs. stage_stop lg s = Some s' \<and> q_items (sg_queue s') = [] \<and>
    decode_blocks (sg_decoder s) (q_items (sg_queue s)) = Some (d, evs) \<and>
    stage_ok lg (es @ evs) s' \<and> eventsDecoded s' = eventsDecoded s + of_nat (length evs)"
proof -
  let ?s = "s\<lparr> sg_running := False, sg_queue := close (sg_queue s) \<rparr>"
  obtain s1 d evs where s1: "foldM (stage_block lg) ?s (q_items (sg_queue s)) = Some s1"
    "decode_blocks (sg_decoder s) (q_items (sg_queue s)) = Some (d, evs)"
    "stage_ok lg (es @ evs) s1" "sg_events s1 = sg_events s + of_nat (length evs)"
    using stage_blocks_step [of lg es ?s, OF _ assms(4)] assms(3) by auto
  have items: "q_items (sg_queue ?s) = q_items (sg_queue s)" and cl: "closed (sg_queue ?s)"
    by (simp_all add: close_def)
  obtain q where "drain_loop pop (stage_block lg) (sg_queue ?s) ?s = Some (q, s1)" "q_items q = []"
    using bq.drain [OF cl, of "stage_block lg" ?s s1] s1(1) items by auto
  then have "stage_stop lg s = Some (s1\<lparr> sg_queue := q, sg_thread := False \<rparr>)"
    using assms(1,2) by (simp add: stage_stop_def stage_loop_def)
  then show ?thesis using s1 \<open>q_items q = []\<close> by (auto simp: stage_ok_def eventsDecoded_def)
qed

text \<open>
  C11. Stopping the decode stage of a board loses nothing that was queued: whatever bytes the
  queued blocks hold, \<open>stop\<close> returns, the queue is empty, the histograms are exactly the
  tally of the earlier events followed by the decoded events of the queued blocks in order,
  and the event counter has advanced by their number.
\<close>

theorem stop_decodes_everything_queued:
  assumes "sg_running s" and "sg_thread s" and "stage_ok lg es s"
    and "list_all block_ok (q_items (sg_queue s))"
  shows "\<exists>s' d evs. stage_stop lg s = Some s' \<and> q_items (sg_queue s') = [] \<and>
    decode_blocks (sg_decoder s) (q_items (sg_queue s)) = Some (d, evs) \<and>
    foldM (fill lg) [] (es @ evs) = Some (sg_store s') \<and>
    eventsDecoded s' = eventsDecoded s + of_nat (length evs)"
  using stage_stop_drains [OF assms] by (auto simp: stage_ok_def)

lemma stage_ok_new:
  assumes "events_ok es" "foldM (fill lg) [] es = Some store"
  shows "stage_ok lg es (DecodeStage_new info store tap n)"
  using assms
  by (auto simp: stage_ok_def DecodeStage_new_def registerBoard_info_def intro!: inv_intros)

theorem stop_decodes_everything_queued_witness:
  "\<exists>s'. stage_stop id (stage_submit id (Some [1, 2, 3]) (stage_start
      (DecodeStage_new BoardInfo_init [] HitTap_init 4))) = Some s' \<and> q_items (sg_queue s') = []"
proof -
  let ?s = "stage_submit id (Some [1, 2, 3]) (stage_start (DecodeStage_new BoardInfo_init [] HitTap_init 4))"
  have "stage_ok id [] (DecodeStage_new BoardInfo_init [] HitTap_init 4)"
    by (rule stage_ok_new) (simp_all add: events_ok_def)
  then have "stage_ok id [] ?s" by (simp add: stage_submit_def stage_start_def)
  moreover have "sg_running ?s" "sg_thread ?s"
    by (simp_all add: stage_submit_def stage_start_def DecodeStage_new_def)
  moreover have "list_all block_ok (q_items (sg_queue ?s))"
    by (simp add: stage_submit_def stage_start_def DecodeStage_new_def push_def push_enter_def
        BlockQueue_new_def block_ok_def block_size_def)
  ultimately show ?thesis using stop_decodes_everything_queued [of ?s id "[]"] by blast
qed

end
