(* ===== verification/Board_Runner.thy ===== *)
theory Board_Runner
  imports Digitizer Decode_Stage
begin

text \<open>
  \<open>BoardRunner\<close>: one board's reader thread, which fans each buffer out to the shared write queue
  and to the board's own decode stage. The board is reached through \<open>IDigitizer\<close> over the world
  \<open>'w\<close>; the write queue is shared and passed along. What other threads do between two accesses
  of the reader is an input: one \<open>ReaderTick\<close> per iteration of its loop. No method throws, so
  the \<open>catch\<close> clauses are unreachable and not modelled; log lines are not modelled.
\<close>

section \<open>State\<close>

record BoardRunnerConfig =
  reconnectBackoffMs :: int
  idlePollMs :: int
  rc_write :: bool
  rc_decode :: bool
  decodeQueueCapacity :: nat

definition BoardRunnerConfig_init :: BoardRunnerConfig where
  "BoardRunnerConfig_init =
     \<lparr> reconnectBackoffMs = 500, idlePollMs = 1, rc_write = True, rc_decode = False,
       decodeQueueCapacity = 1024 \<rparr>"

text \<open>
  The decode stage works on the runner's histograms and hit tap by reference; the model keeps
  them in the stage once there is one.
\<close>

record 'w BoardRunner =
  br_dgtz :: "'w Digitizer"
  br_cfg :: BoardRunnerConfig
  br_hasQueue :: bool
  br_info :: BoardInfo
  br_histograms :: HistogramStore
  br_hits :: HitTap
  br_stage :: "DecodeStage option"
  br_reader :: bool
  br_running :: bool
  br_buffersRead :: u64
  br_bytesRead :: u64
  br_bytesWritten :: u64
  br_blocksDropped :: u64
  br_commErrors :: u64

definition BoardRunner_new :: "'w Digitizer \<Rightarrow> BoardRunnerConfig \<Rightarrow> bool \<Rightarrow> 'w BoardRunner" where
  "BoardRunner_new d c hasQueue =
     \<lparr> br_dgtz = d, br_cfg = c, br_hasQueue = hasQueue, br_info = BoardInfo_init, br_histograms = [],
       br_hits = HitTap_init, br_stage = None, br_reader = False, br_running = False,
       br_buffersRead = 0, br_bytesRead = 0, br_bytesWritten = 0, br_blocksDropped = 0, br_commErrors = 0 \<rparr>"

definition runner_histograms :: "'w BoardRunner \<Rightarrow> HistogramStore" where
  "runner_histograms r = (case br_stage r of None \<Rightarrow> br_histograms r | Some s \<Rightarrow> sg_store s)"

definition runner_hits :: "'w BoardRunner \<Rightarrow> HitTap" where
  "runner_hits r = (case br_stage r of None \<Rightarrow> br_hits r | Some s \<Rightarrow> sg_hits s)"

definition runner_eventsDecoded :: "'w BoardRunner \<Rightarrow> u64" where
  "runner_eventsDecoded r = (case br_stage r of None \<Rightarrow> 0 | Some s \<Rightarrow> eventsDecoded s)"

definition runner_decodeDropped :: "'w BoardRunner \<Rightarrow> u64" where
  "runner_decodeDropped r = (case br_stage r of None \<Rightarrow> 0 | Some s \<Rightarrow> blocksDropped s)"

definition runner_boardFailures :: "'w BoardRunner \<Rightarrow> nat" where
  "runner_boardFailures r = (case br_stage r of None \<Rightarrow> 0 | Some s \<Rightarrow> boardFailures s)"

definition runner_incompleteEvents :: "'w BoardRunner \<Rightarrow> nat" where
  "runner_incompleteEvents r = (case br_stage r of None \<Rightarrow> 0 | Some s \<Rightarrow> incompleteEvents s)"

definition setSyncRole :: "SyncRole \<Rightarrow> 'w BoardRunner \<Rightarrow> 'w BoardRunner" where
  "setSyncRole role r = r\<lparr> br_info := (br_info r)\<lparr> syncRole := role \<rparr> \<rparr>"

section \<open>Starting\<close>

definition runner_prepare :: "'w BoardRunner \<Rightarrow> 'w \<Rightarrow> bool \<times> 'w BoardRunner \<times> 'w" where
  "runner_prepare r w =
     (let (ok, w) = dg_open (br_dgtz r) w in
      if \<not> ok then (False, r, w)
      else let (ok, w) = dg_configure (br_dgtz r) w in
      if \<not> ok then (False, r, w)
      else let r = r\<lparr> br_info := dg_info (br_dgtz r) w \<rparr>;
               r = (if rc_decode (br_cfg r)
                    then r\<lparr> br_stage := Some (DecodeStage_new (br_info r) (runner_histograms r) (runner_hits r)
                                               (decodeQueueCapacity (br_cfg r))) \<rparr>
                    else r)
           in (True, r, w))"

definition runner_start :: "'w BoardRunner \<Rightarrow> 'w \<Rightarrow> bool \<times> 'w BoardRunner \<times> 'w" where
  "runner_start r w =
     (if br_running r then (True, r, w)
      else let r = r\<lparr> br_running := True \<rparr>; (ok, w) = dg_start (br_dgtz r) w
           in if \<not> ok then (False, r\<lparr> br_running := False \<rparr>, w) else (True, r, w))"

definition runner_arm :: "'w BoardRunner \<Rightarrow> 'w \<Rightarrow> bool \<times> 'w BoardRunner \<times> 'w" where
  "runner_arm r w =
     (if br_running r then (True, r, w)
      else let r = r\<lparr> br_running := True \<rparr>; (ok, w) = dg_arm (br_dgtz r) w
           in if \<not> ok then (False, r\<lparr> br_running := False \<rparr>, w)
              else (True, r\<lparr> br_info := dg_info (br_dgtz r) w \<rparr>, w))"

definition startReader :: "'w BoardRunner \<Rightarrow> 'w BoardRunner" where
  "startReader r =
     (if br_reader r then r
      else r\<lparr> br_stage := map_option stage_start (br_stage r), br_reader := True \<rparr>)"

section \<open>One buffer\<close>

text \<open>What other threads do to the two queues while a push waits for room.\<close>

record PushEnv =
  pe_write :: "BlockQueue \<Rightarrow> BlockQueue"
  pe_decode :: "BlockQueue \<Rightarrow> BlockQueue"

definition quiet :: PushEnv where
  "quiet = \<lparr> pe_write = id, pe_decode = id \<rparr>"

definition runner_dispatch ::
  "PushEnv \<Rightarrow> u8 list \<Rightarrow> 'w BoardRunner \<Rightarrow> BlockQueue \<Rightarrow> 'w BoardRunner \<times> BlockQueue" where
  "runner_dispatch env data r q =
     (let r = r\<lparr> br_buffersRead := br_buffersRead r + 1,
                 br_bytesRead := br_bytesRead r + of_nat (length data) \<rparr>;
          (r, q) = (if rc_write (br_cfg r) \<and> br_hasQueue r
                    then let (ok, q) = push (pe_write env) (Some data) q
                         in if ok then (r\<lparr> br_bytesWritten := br_bytesWritten r + of_nat (length data) \<rparr>, q)
                            else (r\<lparr> br_blocksDropped := br_blocksDropped r + 1 \<rparr>, q)
                    else (r, q))
      in (r\<lparr> br_stage := map_option (stage_submit (pe_decode env) (Some data)) (br_stage r) \<rparr>, q))"

section \<open>The reader loop\<close>

text \<open>
  One iteration: what the thread finds in the two shared flags, what the other threads did to
  the write queue and the decode stage since the last one, and how the iteration ended. The
  pauses are results: how long the thread then sleeps.
\<close>

record ReaderTick =
  rt_running :: bool
  rt_writerFailed :: bool
  rt_queue :: "BlockQueue \<Rightarrow> BlockQueue"
  rt_stage :: "DecodeStage \<Rightarrow> DecodeStage"
  rt_push :: PushEnv

datatype reader_outcome =
    ReaderStopped
  | ReaderAborted
  | ReaderBackoff int
  | ReaderIdle int
  | ReaderDispatched nat

definition reader_iter ::
  "ReaderTick \<Rightarrow> 'w BoardRunner \<Rightarrow> BlockQueue \<Rightarrow> 'w
     \<Rightarrow> reader_outcome \<times> 'w BoardRunner \<times> BlockQueue \<times> 'w" where
  "reader_iter t r q w =
     (let q = rt_queue t q; r = r\<lparr> br_stage := map_option (rt_stage t) (br_stage r) \<rparr> in
      if \<not> rt_running t then (ReaderStopped, r, q, w)
      else if rt_writerFailed t then (ReaderAborted, r, q, w)
      else case dg_read (br_dgtz r) w of
             (None, w) \<Rightarrow> (ReaderBackoff (reconnectBackoffMs (br_cfg r)),
                          r\<lparr> br_commErrors := br_commErrors r + 1 \<rparr>, q, w)
           | (Some [], w) \<Rightarrow> (ReaderIdle (if idlePollMs (br_cfg r) > 0 then idlePollMs (br_cfg r) else 0), r, q, w)
           | (Some data, w) \<Rightarrow> (let (r, q) = runner_dispatch (rt_push t) data r q
                               in (ReaderDispatched (length data), r, q, w)))"

fun reader_loop ::
  "ReaderTick list \<Rightarrow> 'w BoardRunner \<Rightarrow> BlockQueue \<Rightarrow> 'w \<Rightarrow> 'w BoardRunner \<times> BlockQueue \<times> 'w" where
  "reader_loop [] r q w = (r, q, w)"
| "reader_loop (t # ts) r q w =
     (case reader_iter t r q w of
        (ReaderStopped, r, q, w) \<Rightarrow> (r, q, w)
      | (ReaderAborted, r, q, w) \<Rightarrow> (r, q, w)
      | (_, r, q, w) \<Rightarrow> reader_loop ts r q w)"

section \<open>Stopping\<close>

text \<open>
  \<open>drain\<close>: at most \<open>kMaxReads\<close> reads; \<open>late i\<close> is whether the two seconds have passed at the
  \<open>i\<close>-th test, \<open>env i\<close> what happens during its pushes.
\<close>

definition kMaxReads :: nat where "kMaxReads = 1000"

function drain_reads ::
  "(nat \<Rightarrow> bool) \<Rightarrow> (nat \<Rightarrow> PushEnv) \<Rightarrow> nat \<Rightarrow> 'w BoardRunner \<Rightarrow> BlockQueue \<Rightarrow> 'w
     \<Rightarrow> 'w BoardRunner \<times> BlockQueue \<times> 'w" where
  "drain_reads late env i r q w =
     (if \<not> (i < kMaxReads \<and> \<not> late i) then (r, q, w)
      else case dg_read (br_dgtz r) w of
             (None, w) \<Rightarrow> (r, q, w)
           | (Some [], w) \<Rightarrow> (r, q, w)
           | (Some data, w) \<Rightarrow> (let (r, q) = runner_dispatch (env i) data r q
                               in drain_reads late env (i + 1) r q w))"
  by pat_completeness auto
termination
  by (relation "measure (\<lambda>(late, env, i, r, q, w). kMaxReads - i)") (auto simp: kMaxReads_def)

declare drain_reads.simps [simp del]

definition runner_drain ::
  "(nat \<Rightarrow> bool) \<Rightarrow> (nat \<Rightarrow> PushEnv) \<Rightarrow> 'w BoardRunner \<Rightarrow> BlockQueue \<Rightarrow> 'w \<Rightarrow> 'w BoardRunner \<times> BlockQueue \<times> 'w" where
  "runner_drain late env r q w = drain_reads late env 0 r q w"

text \<open>
  What a call of \<open>stop\<close> meets: the iterations the reader thread still completes before it sees
  the cleared flag and the join returns, and the conditions of the drain. \<open>lg\<close> is \<open>std::log10\<close>.
\<close>

record StopEnv =
  se_reader :: "ReaderTick list"
  se_late :: "nat \<Rightarrow> bool"
  se_push :: "nat \<Rightarrow> PushEnv"

text \<open>\<open>join\<close>: the thread's remaining iterations, if there is a thread.\<close>

definition runner_join ::
  "ReaderTick list \<Rightarrow> 'w BoardRunner \<Rightarrow> BlockQueue \<Rightarrow> 'w \<Rightarrow> 'w BoardRunner \<times> BlockQueue \<times> 'w" where
  "runner_join ts r q w =
     (if br_reader r
      then let (r, q, w) = reader_loop ts r q w in (r\<lparr> br_reader := False \<rparr>, q, w)
      else (r, q, w))"

definition runner_stop ::
  "(rat \<Rightarrow> rat) \<Rightarrow> StopEnv \<Rightarrow> 'w BoardRunner \<Rightarrow> BlockQueue \<Rightarrow> 'w
     \<Rightarrow> ('w BoardRunner \<times> BlockQueue \<times> 'w) option" where
  "runner_stop lg env r q w =
     (if \<not> br_running r then Some (r, q, w)
      else let r = r\<lparr> br_running := False \<rparr>;
               w = snd (dg_stop (br_dgtz r) w);
               (r, q, w) = runner_join (se_reader env) r q w;
               (r, q, w) = runner_drain (se_late env) (se_push env) r q w
           in do {
                stage \<leftarrow> (case br_stage r of
                            None \<Rightarrow> Some None
                          | Some s \<Rightarrow> map_option Some (stage_stop lg s));
                Some (r\<lparr> br_stage := stage \<rparr>, q, dg_close (br_dgtz r) w)
              })"

section \<open>Accounting\<close>

text \<open>What the log of a logged board says was read.\<close>

fun blocks_read :: "(nat \<times> board_call) list \<Rightarrow> u8 list list" where
  "blocks_read [] = []"
| "blocks_read ((i, CallRead (Some (b # bs))) # l) = (b # bs) # blocks_read l"
| "blocks_read (_ # l) = blocks_read l"

fun read_errors :: "(nat \<times> board_call) list \<Rightarrow> nat" where
  "read_errors [] = 0"
| "read_errors ((i, CallRead None) # l) = Suc (read_errors l)"
| "read_errors (_ # l) = read_errors l"

fun is_read_of :: "nat \<Rightarrow> nat \<times> board_call \<Rightarrow> bool" where
  "is_read_of i (j, CallRead r) = (j = i)"
| "is_read_of i _ = False"

lemma blocks_read_append [simp]: "blocks_read (a @ b) = blocks_read a @ blocks_read b"
  by (induction a rule: blocks_read.induct) auto

lemma read_errors_append [simp]: "read_errors (a @ b) = read_errors a + read_errors b"
  by (induction a rule: read_errors.induct) auto

abbreviation total_bytes :: "u8 list list \<Rightarrow> u64" where
  "total_bytes bs \<equiv> of_nat (sum_list (map length bs))"

definition writes_file :: "'w BoardRunner \<Rightarrow> bool" where
  "writes_file r \<longleftrightarrow> rc_write (br_cfg r) \<and> br_hasQueue r"

text \<open>From \<open>r\<close> to \<open>r'\<close> the blocks \<open>got\<close> were dispatched, of which the write queue took \<open>acc\<close>.\<close>

definition moved :: "'w BoardRunner \<Rightarrow> u8 list list \<Rightarrow> u8 list list \<Rightarrow> 'w BoardRunner \<Rightarrow> bool" where
  "moved r got acc r' \<longleftrightarrow>
     subseq acc got \<and>
     br_buffersRead r' = br_buffersRead r + of_nat (length got) \<and>
     br_bytesRead r' = br_bytesRead r + total_bytes got \<and>
     br_bytesWritten r' = br_bytesWritten r + total_bytes acc \<and>
     br_blocksDropped r' = br_blocksDropped r + (if writes_file r then of_nat (length got) - of_nat (length acc) else 0) \<and>
     (\<not> writes_file r \<longrightarrow> acc = []) \<and>
     br_dgtz r' = br_dgtz r \<and> br_cfg r' = br_cfg r \<and> br_hasQueue r' = br_hasQueue r \<and>
     br_running r' = br_running r \<and> br_info r' = br_info r"

lemma moved_refl: "moved r [] [] r"
  by (simp add: moved_def)

lemma moved_trans: "moved r got acc s \<Longrightarrow> moved s got' acc' t \<Longrightarrow> moved r (got @ got') (acc @ acc') t"
  by (auto simp: moved_def writes_file_def list_emb_append_mono)

lemma moved_untouched:
  "moved r got acc r' \<Longrightarrow> moved r got acc (r'\<lparr> br_stage := s \<rparr>)"
  "moved r got acc r' \<Longrightarrow> moved r got acc (r'\<lparr> br_reader := b \<rparr>)"
  "moved r got acc r' \<Longrightarrow> moved r got acc (r'\<lparr> br_commErrors := n \<rparr>)"
  by (simp_all add: moved_def)

text \<open>The queue a dispatch pushes to: as the caller found it, or as the others left it during the wait.\<close>

definition pushed_to :: "PushEnv \<Rightarrow> u8 list \<Rightarrow> 'w BoardRunner \<Rightarrow> BlockQueue \<Rightarrow> BlockQueue" where
  "pushed_to env data r q =
     (if writes_file r \<and> fst (push_enter (Some data) q) = MustWait then pe_write env q else q)"

lemma dispatch_queue:
  assumes "runner_dispatch env data r q = (r', q')"
  shows "\<exists>acc. moved r [data] acc r' \<and> br_reader r' = br_reader r \<and> br_commErrors r' = br_commErrors r \<and>
    q_items q' = q_items (pushed_to env data r q) @ map Some acc \<and>
    closed q' = closed (pushed_to env data r q) \<and> (closed q' \<longrightarrow> acc = [])"
proof (cases "writes_file r \<and> fst (push (pe_write env) (Some data) q)")
  case True
  then show ?thesis
    using assms by (intro exI [of _ "[data]"])
      (auto simp: runner_dispatch_def moved_def writes_file_def pushed_to_def push_def bq_ops Let_def
        split: prod.splits if_splits)
next
  case False
  then show ?thesis
    using assms by (intro exI [of _ "[]"])
      (auto simp: runner_dispatch_def moved_def writes_file_def pushed_to_def push_def bq_ops Let_def
        split: prod.splits if_splits)
qed

lemma dispatch_moved:
  assumes "runner_dispatch env data r q = (r', q')"
  shows "\<exists>acc. moved r [data] acc r' \<and> br_reader r' = br_reader r \<and> br_commErrors r' = br_commErrors r"
  using dispatch_queue [OF assms] by blast

text \<open>One read of a logged board.\<close>

lemma logged_readE:
  assumes "dg_read (logged_board i d) w = (res, w')"
  obtains h where "w' = (fst w @ [(i, CallRead res)], h)"
  using assms by (auto simp: logged_simps elim: log_callE)

lemma reader_iter_moved:
  assumes "reader_iter t r q w = (out, r', q', w')" and "br_dgtz r = logged_board i d"
  shows "\<exists>new acc. fst w' = fst w @ new \<and> moved r (blocks_read new) acc r' \<and> list_all (is_read_of i) new \<and>
    br_commErrors r' = br_commErrors r + of_nat (read_errors new) \<and>
    (pe_write (rt_push t) = id \<longrightarrow> q_items q' = q_items (rt_queue t q) @ map Some acc \<and> closed q' = closed (rt_queue t q) \<and> (closed q' \<longrightarrow> acc = []))"
proof (cases "rt_running t \<and> \<not> rt_writerFailed t")
  case False
  then show ?thesis
    using assms(1) by (intro exI [of _ "[]"]) (auto simp: reader_iter_def Let_def moved_def split: if_splits)
next
  case True
  let ?r = "r\<lparr> br_stage := map_option (rt_stage t) (br_stage r) \<rparr>"
  obtain res w1 where rd: "dg_read (br_dgtz r) w = (res, w1)" by (cases "dg_read (br_dgtz r) w")
  then obtain h where w1: "w1 = (fst w @ [(i, CallRead res)], h)"
    using assms(2) by (auto elim: logged_readE)
  have base: "moved r [] [] ?r" by (intro moved_untouched moved_refl)
  consider "res = None" | "res = Some []" | x xs where "res = Some (x # xs)"
    by (metis list.exhaust option.exhaust)
  then show ?thesis
  proof cases
    case 1
    then show ?thesis
      using assms(1) True rd w1 base by (intro exI [of _ "[(i, CallRead None)]"] exI [of _ "[]"])
        (auto simp: reader_iter_def Let_def intro: moved_untouched)
  next
    case 2
    then show ?thesis
      using assms(1) True rd w1 base by (intro exI [of _ "[(i, CallRead (Some []))]"] exI [of _ "[]"])
        (auto simp: reader_iter_def Let_def)
  next
    case 3
    obtain r2 q2 where dp: "runner_dispatch (rt_push t) (x # xs) ?r (rt_queue t q) = (r2, q2)" by fastforce
    from dispatch_queue [OF this] obtain acc where
      acc: "moved ?r [x # xs] acc r2" "br_commErrors r2 = br_commErrors ?r"
        "q_items q2 = q_items (pushed_to (rt_push t) (x # xs) ?r (rt_queue t q)) @ map Some acc"
        "closed q2 = closed (pushed_to (rt_push t) (x # xs) ?r (rt_queue t q))" "closed q2 \<longrightarrow> acc = []" by blast
    have "moved r [x # xs] acc r2" using moved_trans [OF base acc(1)] by simp
    then show ?thesis
      using assms(1) True rd w1 dp acc(2,3,4,5) 3 by (intro exI [of _ "[(i, CallRead (Some (x # xs)))]"] exI [of _ acc])
        (auto simp: reader_iter_def Let_def pushed_to_def)
  qed
qed

lemma reader_loop_moved:
  assumes "reader_loop ts r q w = (r', q', w')" and "br_dgtz r = logged_board i d"
  shows "\<exists>new acc. fst w' = fst w @ new \<and> moved r (blocks_read new) acc r' \<and> list_all (is_read_of i) new \<and>
    br_commErrors r' = br_commErrors r + of_nat (read_errors new)"
  using assms
proof (induction ts arbitrary: r q w)
  case Nil
  then show ?case by (auto intro!: exI [of _ "[]"] moved_refl)
next
  case (Cons t ts)
  obtain out r1 q1 w1 where it: "reader_iter t r q w = (out, r1, q1, w1)" by (metis surj_pair)
  from reader_iter_moved [OF this Cons.prems(2)] obtain new acc where
    n: "fst w1 = fst w @ new" "moved r (blocks_read new) acc r1" "list_all (is_read_of i) new"
      "br_commErrors r1 = br_commErrors r + of_nat (read_errors new)" by blast
  show ?case
  proof (cases "out = ReaderStopped \<or> out = ReaderAborted")
    case True
    then have "r' = r1 \<and> w' = w1" using Cons.prems(1) it by auto
    then show ?thesis using n by blast
  next
    case False
    then have lp: "reader_loop ts r1 q1 w1 = (r', q', w')"
      using Cons.prems(1) it by (cases out) auto
    have "br_dgtz r1 = logged_board i d" using n(2) Cons.prems(2) by (simp add: moved_def)
    from Cons.IH [OF lp this] obtain new' acc' where
      n': "fst w' = fst w1 @ new'" "moved r1 (blocks_read new') acc' r'" "list_all (is_read_of i) new'"
        "br_commErrors r' = br_commErrors r1 + of_nat (read_errors new')" by blast
    then show ?thesis
      using n moved_trans [OF n(2) n'(2)]
      by (intro exI [of _ "new @ new'"] exI [of _ "acc @ acc'"]) (auto simp: algebra_simps)
  qed
qed

section \<open>The readout after the stop\<close>

text \<open>A read that handed over data, that is, after which \<open>drain\<close> goes on.\<close>

fun handed_data :: "nat \<times> board_call \<Rightarrow> bool" where
  "handed_data (i, CallRead (Some (b # bs))) = True"
| "handed_data _ = False"

lemma drain_reads_log:
  assumes "drain_reads late env n r q w = (r', q', w')" and "br_dgtz r = logged_board i d"
  shows "\<exists>new acc. fst w' = fst w @ new \<and> moved r (blocks_read new) acc r' \<and> list_all (is_read_of i) new \<and>
    br_reader r' = br_reader r \<and>
    (n + length new \<ge> kMaxReads \<or> (n + length new < kMaxReads \<and> late (n + length new) \<and> list_all handed_data new) \<or>
     (\<exists>front r. new = front @ [r] \<and> list_all handed_data front \<and> \<not> handed_data r))"
  using assms
proof (induction late env n r q w rule: drain_reads.induct)
  case (1 late env n r q w)
  show ?case
  proof (cases "n < kMaxReads \<and> \<not> late n")
    case False
    then have "drain_reads late env n r q w = (r, q, w)" by (simp add: drain_reads.simps [of late env n])
    then show ?thesis using 1(2) False by (auto intro!: exI [of _ "[]"] moved_refl)
  next
    case True
    obtain res w1 where rd: "dg_read (br_dgtz r) w = (res, w1)" by (cases "dg_read (br_dgtz r) w")
    then obtain h where w1: "w1 = (fst w @ [(i, CallRead res)], h)"
      using 1(3) by (auto elim: logged_readE)
    show ?thesis
    proof (cases "\<exists>x xs. res = Some (x # xs)")
      case False
      then have "res = None \<or> res = Some []" by (metis list.exhaust option.exhaust)
      then show ?thesis
        using 1(2) True rd w1 by (intro exI [of _ "[(i, CallRead res)]"] exI [of _ "[]"])
          (auto simp: drain_reads.simps [of late env n] moved_refl)
    next
      case data: True
      then obtain x xs where res: "res = Some (x # xs)" by blast
      obtain r2 q2 where dp: "runner_dispatch (env n) (x # xs) r q = (r2, q2)" by fastforce
      from dispatch_moved [OF this] obtain acc where acc: "moved r [x # xs] acc r2" "br_reader r2 = br_reader r" by blast
      have lp: "drain_reads late env (n + 1) r2 q2 w1 = (r', q', w')"
        using 1(2) True rd dp res by (simp add: drain_reads.simps [of late env n])
      have "br_dgtz r2 = logged_board i d" using acc 1(3) by (simp add: moved_def)
      have go: "\<not> \<not> (n < kMaxReads \<and> \<not> late n)" using True by simp
      from 1(1) [OF go rd [symmetric] res refl refl dp [symmetric] lp \<open>br_dgtz r2 = logged_board i d\<close>]
      obtain new acc' where
        n: "fst w' = fst w1 @ new" "moved r2 (blocks_read new) acc' r'" "list_all (is_read_of i) new"
          "br_reader r' = br_reader r2"
          "n + 1 + length new \<ge> kMaxReads \<or>
           (n + 1 + length new < kMaxReads \<and> late (n + 1 + length new) \<and> list_all handed_data new) \<or>
           (\<exists>front r. new = front @ [r] \<and> list_all handed_data front \<and> \<not> handed_data r)"
        by blast
      let ?e = "(i, CallRead (Some (x # xs)))"
      have "moved r (blocks_read (?e # new)) (acc @ acc') r'"
        using moved_trans [OF acc(1) n(2)] by simp
      moreover have "(\<exists>front r. new = front @ [r] \<and> list_all handed_data front \<and> \<not> handed_data r) \<Longrightarrow>
          (\<exists>front r. ?e # new = front @ [r] \<and> list_all handed_data front \<and> \<not> handed_data r)"
        by (force simp: Cons_eq_append_conv)
      ultimately show ?thesis
        using n w1 res acc(2) by (intro exI [of _ "?e # new"] exI [of _ "acc @ acc'"]) auto
    qed
  qed
qed

section \<open>Properties of a runner\<close>


text \<open>A board that answers from a script, and a schedule in which nobody interferes.\<close>

definition scripted :: "RawBlock option list Digitizer" where
  "scripted =
     \<lparr> dg_name = ''script'', dg_open = (\<lambda>w. (True, w)), dg_configure = (\<lambda>w. (True, w)),
       dg_startMode = (\<lambda>_. kStartModeSW), dg_start = (\<lambda>w. (True, w)), dg_arm = (\<lambda>w. (True, w)),
       dg_sendSWTrigger = (\<lambda>w. (True, w)),
       dg_read = (\<lambda>w. case w of [] \<Rightarrow> (Some [], []) | a # w \<Rightarrow> (a, w)),
       dg_writeRegister = (\<lambda>_ _ w. (False, w)), dg_readRegister = (\<lambda>_ w. (None, w)),
       dg_stop = (\<lambda>w. (True, w)), dg_close = (\<lambda>w. w), dg_info = (\<lambda>_. BoardInfo_init),
       dg_connected = (\<lambda>_. True) \<rparr>"

definition calm :: "bool \<Rightarrow> ReaderTick" where
  "calm run = \<lparr> rt_running = run, rt_writerFailed = False, rt_queue = id, rt_stage = id, rt_push = quiet \<rparr>"

definition demo_runner :: "RawBlock option list logged_world BoardRunner" where
  "demo_runner = (BoardRunner_new (logged_board 0 scripted) BoardRunnerConfig_init True)\<lparr> br_running := True \<rparr>"


text \<open>Stopping, step by step.\<close>

lemma runner_join_moved:
  assumes "runner_join ts r q w = (r', q', w')" and "br_dgtz r = logged_board i d"
  shows "\<exists>new acc. fst w' = fst w @ new \<and> moved r (blocks_read new) acc r' \<and> list_all (is_read_of i) new \<and>
    \<not> br_reader r'"
proof (cases "br_reader r")
  case True
  obtain r2 q2 w2 where lp: "reader_loop ts r q w = (r2, q2, w2)" by (metis surj_pair)
  from reader_loop_moved [OF lp assms(2)] show ?thesis
    using True lp assms(1) by (fastforce simp: runner_join_def intro: moved_untouched(2))
next
  case False
  then show ?thesis using assms(1) by (auto simp: runner_join_def moved_refl intro!: exI [of _ "[]"])
qed

lemma runner_stop_log:
  assumes "br_running r" and "br_dgtz r = logged_board i d" and "runner_stop lg env r q w = Some (r', q', w')"
  shows "\<exists>ok reads acc. fst w' = fst w @ (i, CallStop ok) # reads @ [(i, CallClose)] \<and>
    list_all (is_read_of i) reads \<and> moved (r\<lparr> br_running := False \<rparr>) (blocks_read reads) acc r' \<and>
    \<not> br_running r' \<and> \<not> br_reader r'"
proof -
  let ?r = "r\<lparr> br_running := False \<rparr>"
  obtain ok w1 where st: "dg_stop (br_dgtz r) w = (ok, w1)" by (cases "dg_stop (br_dgtz r) w")
  then obtain h1 where w1: "w1 = (fst w @ [(i, CallStop ok)], h1)"
    using assms(2) by (auto simp: logged_simps elim: log_callE)
  have d: "br_dgtz ?r = logged_board i d" using assms(2) by simp
  obtain r2 q2 w2 where rd: "runner_join (se_reader env) ?r q w1 = (r2, q2, w2)" by (metis surj_pair)
  from runner_join_moved [OF rd d] obtain new acc where n: "fst w2 = fst w1 @ new"
    "moved ?r (blocks_read new) acc r2" "list_all (is_read_of i) new" "\<not> br_reader r2" by blast
  have "br_dgtz r2 = logged_board i d" using n(2) d by (simp add: moved_def)
  moreover obtain r3 q3 w3 where dr: "runner_drain (se_late env) (se_push env) r2 q2 w2 = (r3, q3, w3)"
    by (metis surj_pair)
  ultimately obtain new' acc' where n': "fst w3 = fst w2 @ new'" "moved r2 (blocks_read new') acc' r3"
    "list_all (is_read_of i) new'" "br_reader r3 = br_reader r2"
    using drain_reads_log [of "se_late env" "se_push env" 0 r2 q2 w2 r3 q3 w3 i d] by (auto simp: runner_drain_def)
  have mv: "moved ?r (blocks_read (new @ new')) (acc @ acc') r3" using moved_trans [OF n(2) n'(2)] by simp
  obtain stage where "r' = r3\<lparr> br_stage := stage \<rparr>" "w' = dg_close (br_dgtz r3) w3"
    using assms(1,3) st rd dr by (auto simp: runner_stop_def Let_def bind_eq_Some_conv)
  moreover have "br_dgtz r3 = logged_board i d" using mv assms(2) by (simp add: moved_def)
  ultimately show ?thesis
    using n n' w1 mv by (intro exI [of _ ok] exI [of _ "new @ new'"] exI [of _ "acc @ acc'"])
      (auto simp: logged_simps moved_def)
qed


definition demo_stop :: StopEnv where
  "demo_stop = \<lparr> se_reader = [calm False], se_late = (\<lambda>_. False), se_push = (\<lambda>_. quiet) \<rparr>"

lemma demo_stop_run:
  "runner_stop id demo_stop demo_runner (BlockQueue_new 1) ([], [Some [1, 2], Some [3]]) =
     Some (demo_runner\<lparr> br_running := False, br_buffersRead := 2, br_bytesRead := 3, br_bytesWritten := 2,
             br_blocksDropped := 1 \<rparr>,
           (BlockQueue_new 1)\<lparr> q_items := [Some [1, 2]], q_dropped := 1, q_dropped_bytes := 1 \<rparr>,
           ([(0, CallStop True), (0, CallRead (Some [1, 2])), (0, CallRead (Some [3])), (0, CallRead (Some [])),
             (0, CallClose)], []))"
  by (simp add: runner_stop_def runner_join_def runner_drain_def drain_reads.simps demo_runner_def demo_stop_def
      BoardRunner_new_def BoardRunnerConfig_init_def quiet_def logged_simps log_call_def scripted_def kMaxReads_def
      runner_dispatch_def push_def bq_ops BlockQueue_new_def block_size_def Let_def)


text \<open>
  The readout after the stop gives up only for a reason: every buffer the board hands over is
  dispatched, and it ends when a read brings nothing (the board is empty or does not answer),
  after \<open>kMaxReads\<close> reads, or when the two seconds have passed.
\<close>

theorem drain_reads_until_empty:
  assumes "runner_drain late env r q (l, h) = (r', q', (l', h'))" and "br_dgtz r = logged_board i d"
  shows "\<exists>new. l' = l @ new \<and> list_all (is_read_of i) new \<and>
    br_buffersRead r' = br_buffersRead r + of_nat (length (blocks_read new)) \<and>
    (kMaxReads \<le> length new \<or> late (length new) \<or> (new \<noteq> [] \<and> \<not> handed_data (last new)))"
  using drain_reads_log [of late env 0 r q "(l, h)" r' q' "(l', h')" i d] assms
  by (fastforce simp: moved_def runner_drain_def)

theorem drain_reads_until_empty_witness:
  "\<exists>r' q' l' h'. runner_drain (\<lambda>_. False) (\<lambda>_. quiet) demo_runner (BlockQueue_new 1) ([], [Some [1], None]) =
     (r', q', (l', h')) \<and> br_buffersRead r' = 1 \<and> \<not> handed_data (last l')"
proof -
  let ?run = "runner_drain (\<lambda>_. False) (\<lambda>_. quiet) demo_runner (BlockQueue_new 1) ([], [Some [1], None])"
  obtain r' q' l' h' where run: "?run = (r', q', (l', h'))" by (metis surj_pair)
  have "l' = [(0, CallRead (Some [1])), (0, CallRead None)]"
    using run by (simp add: runner_drain_def drain_reads.simps demo_runner_def
      BoardRunner_new_def BoardRunnerConfig_init_def quiet_def logged_simps log_call_def scripted_def kMaxReads_def
      runner_dispatch_def push_def bq_ops BlockQueue_new_def Let_def)
  moreover have "br_dgtz demo_runner = logged_board 0 scripted"
    by (simp add: demo_runner_def BoardRunner_new_def)
  ultimately show ?thesis
    using drain_reads_until_empty [OF run] run by (auto simp: demo_runner_def BoardRunner_new_def kMaxReads_def)
qed

text \<open>That \<open>stop\<close> returns: what the other threads and the board may do meanwhile.\<close>

definition queue_fit :: "BlockQueue \<Rightarrow> bool" where
  "queue_fit q \<longleftrightarrow> list_all block_ok (q_items q)"

text \<open>A stage whose thread is up (\<open>live\<close>) or was never started.\<close>

definition stage_fit :: "(rat \<Rightarrow> rat) \<Rightarrow> bool \<Rightarrow> DecodeStage \<Rightarrow> bool" where
  "stage_fit lg live s \<longleftrightarrow> (\<exists>es. stage_ok lg es s) \<and> sg_running s = live \<and> sg_thread s = live \<and>
     queue_fit (sg_queue s)"

definition runner_fit :: "(rat \<Rightarrow> rat) \<Rightarrow> bool \<Rightarrow> 'w BoardRunner \<Rightarrow> bool" where
  "runner_fit lg live r \<longleftrightarrow> (case br_stage r of None \<Rightarrow> True | Some s \<Rightarrow> stage_fit lg live s)"

definition push_fit :: "PushEnv \<Rightarrow> bool" where
  "push_fit e \<longleftrightarrow> (\<forall>q. queue_fit q \<longrightarrow> queue_fit (pe_decode e q))"

definition tick_fit :: "(rat \<Rightarrow> rat) \<Rightarrow> ReaderTick \<Rightarrow> bool" where
  "tick_fit lg t \<longleftrightarrow> (\<forall>live s. stage_fit lg live s \<longrightarrow> stage_fit lg live (rt_stage t s)) \<and> push_fit (rt_push t)"

definition stop_fit :: "(rat \<Rightarrow> rat) \<Rightarrow> StopEnv \<Rightarrow> bool" where
  "stop_fit lg e \<longleftrightarrow> list_all (tick_fit lg) (se_reader e) \<and> (\<forall>i. push_fit (se_push e i))"

text \<open>Buffer sizes are 32-bit in the driver interface.\<close>

definition reads_fit :: "'w Digitizer \<Rightarrow> bool" where
  "reads_fit d \<longleftrightarrow> (\<forall>w b w'. dg_read d w = (Some b, w') \<longrightarrow> length b < 2 ^ 32)"

lemma submit_fit:
  assumes "stage_fit lg live s" "push_fit e" "length data < 2 ^ 32"
  shows "stage_fit lg live (stage_submit (pe_decode e) (Some data) s)"
proof -
  have "block_ok (Some data)" using assms(3) by (simp add: block_ok_def block_size_def)
  moreover have "queue_fit (sg_queue s)" "queue_fit (pe_decode e (sg_queue s))"
    using assms(1,2) by (simp_all add: stage_fit_def push_fit_def)
  ultimately have "queue_fit (snd (push (pe_decode e) (Some data) (sg_queue s)))"
    by (auto simp: push_def bq_ops queue_fit_def Let_def)
  then show ?thesis using assms(1) by (simp add: stage_fit_def stage_submit_def)
qed

lemma dispatch_fit:
  assumes "runner_dispatch e data r q = (r', q')" "runner_fit lg live r" "push_fit e" "length data < 2 ^ 32"
  shows "runner_fit lg live r' \<and> br_dgtz r' = br_dgtz r"
  using assms submit_fit [of lg live _ e data]
  by (auto simp: runner_dispatch_def runner_fit_def Let_def split: option.splits prod.splits if_splits)

lemma reader_iter_fit:
  assumes "reader_iter t r q w = (out, r', q', w')" "runner_fit lg live r" "tick_fit lg t" "reads_fit (br_dgtz r)"
  shows "runner_fit lg live r' \<and> br_dgtz r' = br_dgtz r"
proof -
  let ?r = "r\<lparr> br_stage := map_option (rt_stage t) (br_stage r) \<rparr>"
  have r: "runner_fit lg live ?r"
    using assms(2,3) by (auto simp: runner_fit_def tick_fit_def split: option.splits)
  obtain res w1 where rd: "dg_read (br_dgtz r) w = (res, w1)" by (cases "dg_read (br_dgtz r) w")
  show ?thesis
  proof (cases "\<exists>x xs. res = Some (x # xs) \<and> rt_running t \<and> \<not> rt_writerFailed t")
    case True
    then obtain x xs where res: "res = Some (x # xs)" "rt_running t" "\<not> rt_writerFailed t" by blast
    obtain r2 q2 where dp: "runner_dispatch (rt_push t) (x # xs) ?r (rt_queue t q) = (r2, q2)" by fastforce
    have "length (x # xs) < 2 ^ 32" using assms(4) rd res(1) unfolding reads_fit_def by blast
    from dispatch_fit [OF dp r _ this] assms(1,3) rd res dp show ?thesis
      by (auto simp: reader_iter_def tick_fit_def)
  next
    case False
    then show ?thesis
      using assms(1) rd r by (auto simp: reader_iter_def Let_def runner_fit_def split: if_splits option.splits list.splits)
  qed
qed

lemma reader_loop_fit:
  assumes "reader_loop ts r q w = (r', q', w')" "runner_fit lg live r" "list_all (tick_fit lg) ts" "reads_fit (br_dgtz r)"
  shows "runner_fit lg live r' \<and> br_dgtz r' = br_dgtz r"
  using assms
proof (induction ts arbitrary: r q w)
  case (Cons t ts)
  obtain out r1 q1 w1 where it: "reader_iter t r q w = (out, r1, q1, w1)" by (metis surj_pair)
  have r1: "runner_fit lg live r1 \<and> br_dgtz r1 = br_dgtz r"
    using reader_iter_fit [OF it] Cons.prems by simp
  then show ?case using Cons it by (cases out) auto
qed simp

lemma drain_fit:
  assumes "drain_reads late env n r q w = (r', q', w')" "runner_fit lg live r" "\<forall>i. push_fit (env i)" "reads_fit (br_dgtz r)"
  shows "runner_fit lg live r' \<and> br_dgtz r' = br_dgtz r"
  using assms
proof (induction late env n r q w rule: drain_reads.induct)
  case (1 late env n r q w)
  obtain res w1 where rd: "dg_read (br_dgtz r) w = (res, w1)" by (cases "dg_read (br_dgtz r) w")
  show ?case
  proof (cases "\<exists>x xs. res = Some (x # xs) \<and> n < kMaxReads \<and> \<not> late n")
    case True
    then obtain x xs where res: "res = Some (x # xs)" and go: "n < kMaxReads \<and> \<not> late n" by blast
    have gon: "\<not> \<not> (n < kMaxReads \<and> \<not> late n)" using go by simp
    obtain r2 q2 where dp: "runner_dispatch (env n) (x # xs) r q = (r2, q2)" by fastforce
    have "length (x # xs) < 2 ^ 32" using 1(5) rd res unfolding reads_fit_def by blast
    note d = dispatch_fit [OF dp 1(3) _ this]
    have "drain_reads late env (n + 1) r2 q2 w1 = (r', q', w')"
      using 1(2) go rd dp res by (simp add: drain_reads.simps [of late env n])
    from 1(1) [OF gon rd [symmetric] res refl refl dp [symmetric] this] d 1(4,5) show ?thesis by simp
  next
    case False
    then have "drain_reads late env n r q w = (r, q, w) \<or> drain_reads late env n r q w = (r, q, w1)"
      using rd by (auto simp: drain_reads.simps [of late env n] split: option.splits list.splits)
    then show ?thesis using 1(2,3) by auto
  qed
qed

lemma runner_stop_total:
  assumes "runner_fit lg live r" and "stop_fit lg env" and "reads_fit (br_dgtz r)" and "br_running r"
  shows "\<exists>r' q' w'. runner_stop lg env r q w = Some (r', q', w') \<and>
    (case br_stage r' of None \<Rightarrow> True
     | Some s \<Rightarrow> \<not> sg_thread s \<and> (\<exists>es. stage_ok lg es s) \<and> (live \<longrightarrow> q_items (sg_queue s) = []))"
proof -
  let ?r = "r\<lparr> br_running := False \<rparr>"
  let ?w = "snd (dg_stop (br_dgtz r) w)"
  have r: "runner_fit lg live ?r" "reads_fit (br_dgtz ?r)" using assms by (simp_all add: runner_fit_def)
  obtain r2 q2 w2 where jn: "runner_join (se_reader env) ?r q ?w = (r2, q2, w2)" by (metis surj_pair)
  obtain ra qa wa where lp: "reader_loop (se_reader env) ?r q ?w = (ra, qa, wa)" by (metis surj_pair)
  have "runner_fit lg live ra \<and> br_dgtz ra = br_dgtz r"
    using reader_loop_fit [OF lp r(1) _ r(2)] assms(2) by (simp add: stop_fit_def)
  then have j: "runner_fit lg live r2 \<and> br_dgtz r2 = br_dgtz r"
    using jn lp r(1) by (auto simp: runner_join_def runner_fit_def split: if_splits)
  obtain r3 q3 w3 where dr: "runner_drain (se_late env) (se_push env) r2 q2 w2 = (r3, q3, w3)" by (metis surj_pair)
  have d: "runner_fit lg live r3" using drain_fit [of "se_late env" "se_push env" 0 r2 q2 w2 r3 q3 w3 lg live] dr j assms
    by (auto simp: runner_drain_def stop_fit_def)
  have stop: "runner_stop lg env r q w = do {
      stage \<leftarrow> (case br_stage r3 of None \<Rightarrow> Some None | Some s \<Rightarrow> map_option Some (stage_stop lg s));
      Some (r3\<lparr> br_stage := stage \<rparr>, q3, dg_close (br_dgtz r3) w3) }"
    using assms(4) jn dr by (simp add: runner_stop_def)
  show ?thesis
  proof (cases "br_stage r3")
    case None
    then show ?thesis unfolding stop by simp
  next
    case (Some s)
    then obtain es where s: "stage_ok lg es s" "sg_running s = live" "sg_thread s = live" "list_all block_ok (q_items (sg_queue s))"
      using d by (auto simp: runner_fit_def stage_fit_def queue_fit_def)
    have "\<exists>s'. stage_stop lg s = Some s' \<and> \<not> sg_thread s' \<and> (\<exists>es. stage_ok lg es s') \<and>
        (live \<longrightarrow> q_items (sg_queue s') = [])"
    proof (cases live)
      case True
      with stage_stop_drains [OF _ _ s(1,4)] s(2,3) obtain s' es' where
        s': "stage_stop lg s = Some s'" "stage_ok lg es' s'" "q_items (sg_queue s') = []" by blast
      moreover have "\<not> sg_thread s'" using s'(1) True s(2,3) by (auto simp: stage_stop_def Let_def bind_eq_Some_conv)
      ultimately show ?thesis by blast
    next
      case False
      then show ?thesis using s by (auto simp: stage_stop_def)
    qed
    then show ?thesis unfolding stop by (auto simp: Some)
  qed
qed


lemma dispatch_keeps_stage:
  "runner_dispatch e data r q = (r', q') \<Longrightarrow> br_stage r' = None \<longleftrightarrow> br_stage r = None"
  by (auto simp: runner_dispatch_def Let_def split: prod.splits if_splits)

lemma reader_loop_keeps_stage:
  "reader_loop ts r q w = (r', q', w') \<Longrightarrow> br_stage r' = None \<longleftrightarrow> br_stage r = None"
proof (induction ts arbitrary: r q w)
  case (Cons t ts)
  obtain out r1 q1 w1 where it: "reader_iter t r q w = (out, r1, q1, w1)" by (metis surj_pair)
  then have "br_stage r1 = None \<longleftrightarrow> br_stage r = None"
    by (auto simp: reader_iter_def Let_def dest!: dispatch_keeps_stage split: if_splits prod.splits option.splits list.splits)
  then show ?case using Cons it by (cases out) auto
qed simp

lemma drain_keeps_stage:
  "drain_reads late env n r q w = (r', q', w') \<Longrightarrow> br_stage r' = None \<longleftrightarrow> br_stage r = None"
proof (induction late env n r q w rule: drain_reads.induct)
  case (1 late env n r q w)
  obtain res w1 where rd: "dg_read (br_dgtz r) w = (res, w1)" by (cases "dg_read (br_dgtz r) w")
  show ?case
  proof (cases "\<exists>x xs. res = Some (x # xs) \<and> n < kMaxReads \<and> \<not> late n")
    case True
    then obtain x xs where res: "res = Some (x # xs)" and go: "\<not> \<not> (n < kMaxReads \<and> \<not> late n)" by blast
    obtain r2 q2 where dp: "runner_dispatch (env n) (x # xs) r q = (r2, q2)" by fastforce
    have "drain_reads late env (n + 1) r2 q2 w1 = (r', q', w')"
      using 1(2) go rd dp res by (simp add: drain_reads.simps [of late env n])
    from 1(1) [OF go rd [symmetric] res refl refl dp [symmetric] this] dispatch_keeps_stage [OF dp]
    show ?thesis by simp
  next
    case False
    then have "drain_reads late env n r q w = (r, q, w) \<or> drain_reads late env n r q w = (r, q, w1)"
      using rd by (auto simp: drain_reads.simps [of late env n] split: option.splits list.splits)
    then show ?thesis using 1(2) by auto
  qed
qed

lemma stop_keeps_stage:
  assumes "runner_stop lg env r q w = Some (r', q', w')"
  shows "br_stage r' = None \<longleftrightarrow> br_stage r = None"
proof (cases "br_running r")
  case True
  obtain r2 q2 w2 where jn: "runner_join (se_reader env) (r\<lparr> br_running := False \<rparr>) q (snd (dg_stop (br_dgtz r) w)) = (r2, q2, w2)"
    by (metis surj_pair)
  obtain r3 q3 w3 where dr: "runner_drain (se_late env) (se_push env) r2 q2 w2 = (r3, q3, w3)" by (metis surj_pair)
  have "br_stage r2 = None \<longleftrightarrow> br_stage r = None"
    using jn by (auto simp: runner_join_def dest!: reader_loop_keeps_stage split: if_splits prod.splits)
  then have "br_stage r3 = None \<longleftrightarrow> br_stage r = None"
    using drain_keeps_stage dr by (metis runner_drain_def)
  then show ?thesis
    using assms True jn dr by (auto simp: runner_stop_def bind_eq_Some_conv split: option.splits)
qed (use assms in \<open>simp add: runner_stop_def\<close>)

text \<open>A freshly prepared runner is fit, and its stage is live once the reader is up.\<close>

lemma prepared_fit:
  assumes "runner_prepare (BoardRunner_new d c b) w = (True, r, w')"
  shows "runner_fit lg False r" "\<not> br_reader r" "br_dgtz r = d"
  using assms stage_ok_new [of "[]" lg "[]" "dg_info d w'" HitTap_init "decodeQueueCapacity c"]
  by (auto simp: runner_prepare_def BoardRunner_new_def runner_fit_def stage_fit_def Let_def runner_histograms_def
      runner_hits_def queue_fit_def DecodeStage_new_def BlockQueue_new_def events_ok_def split: prod.splits if_splits)

lemma startReader_fit: "runner_fit lg False r \<Longrightarrow> \<not> br_reader r \<Longrightarrow> runner_fit lg True (startReader r)"
  by (auto simp: startReader_def runner_fit_def stage_fit_def stage_start_def stage_ok_def split: option.splits)

definition babbling :: "unit Digitizer" where
  "babbling =
     \<lparr> dg_name = ''b'', dg_open = (\<lambda>w. (True, w)), dg_configure = (\<lambda>w. (True, w)),
       dg_startMode = (\<lambda>_. kStartModeSW), dg_start = (\<lambda>w. (True, w)), dg_arm = (\<lambda>w. (True, w)),
       dg_sendSWTrigger = (\<lambda>w. (True, w)), dg_read = (\<lambda>w. (Some [1, 2, 3, 4], w)),
       dg_writeRegister = (\<lambda>_ _ w. (False, w)), dg_readRegister = (\<lambda>_ w. (None, w)),
       dg_stop = (\<lambda>w. (False, w)), dg_close = (\<lambda>w. w), dg_info = (\<lambda>_. BoardInfo_init),
       dg_connected = (\<lambda>_. True) \<rparr>"


end
