(* ===== verification/File_Header.thy ===== *)
theory File_Header
  imports Board_Model Data_Frame
begin

text \<open>
  \<open>DataFileHeader.hpp\<close>: the XDAQ header at the start of the first file of a run, one packed
  word per board, and what a reader of the format recovers from it.
\<close>

definition kXdaqKeyFrame :: u32 where "kXdaqKeyFrame = 0xFA0201A0"

record XdaqBoardDef =
  bd_nsPerSample :: u8
  bd_nsPerTimetag :: u8
  dppVersion :: u8
  bd_channels :: u8
  bd_regId :: u8

fun xdaqDppVersion :: "DppType \<Rightarrow> u8" where
  "xdaqDppVersion PSD = 1"
| "xdaqDppVersion PHA = 0"
| "xdaqDppVersion _ = 0"

definition boardDefFrom :: "BoardInfo \<Rightarrow> XdaqBoardDef" where
  "boardDefFrom bi =
     \<lparr> bd_nsPerSample = nsPerSample bi, bd_nsPerTimetag = nsPerTimetag bi,
       dppVersion = xdaqDppVersion (dppType bi), bd_channels = ucast (bi_channels bi),
       bd_regId = ucast (boardRegId bi) \<rparr>"

definition packBoardDef :: "XdaqBoardDef \<Rightarrow> u32" where
  "packBoardDef b =
     (ucast (bd_nsPerSample b) AND 0x3F)
     OR push_bit 6 (ucast (bd_nsPerTimetag b) AND 0x3F)
     OR push_bit 12 (ucast (dppVersion b) AND 0x0F)
     OR push_bit 16 (ucast (bd_channels b) AND 0xFF)
     OR push_bit 24 (ucast (bd_regId b) AND 0xFF)"

definition buildXdaqHeader :: "XdaqBoardDef list \<Rightarrow> u32 \<Rightarrow> u32 \<Rightarrow> u32 \<Rightarrow> u32 list" where
  "buildXdaqHeader boards epochStartTime ts0 ts1 =
     (let nb = of_nat (length boards) in
      [6 + nb, kXdaqKeyFrame, nb, ts0, ts1, epochStartTime] @ map packBoardDef boards)"

text \<open>\<open>std::time\<close> is an input: the seconds since the epoch.\<close>

definition nowEpoch32 :: "int \<Rightarrow> u32" where
  "nowEpoch32 now = of_int now"

section \<open>Reading a board word back\<close>

text \<open>The layout the file documents: five fields at fixed bit ranges.\<close>

definition unpackBoardDef :: "u32 \<Rightarrow> XdaqBoardDef" where
  "unpackBoardDef w =
     \<lparr> bd_nsPerSample = ucast (ExtractBits w 0 5), bd_nsPerTimetag = ucast (ExtractBits w 6 11),
       dppVersion = ucast (ExtractBits w 12 15), bd_channels = ucast (ExtractBits w 16 23),
       bd_regId = ucast (ExtractBits w 24 31) \<rparr>"

definition board_def_fits :: "XdaqBoardDef \<Rightarrow> bool" where
  "board_def_fits b \<longleftrightarrow> unat (bd_nsPerSample b) < 2 ^ 6 \<and> unat (bd_nsPerTimetag b) < 2 ^ 6 \<and> unat (dppVersion b) < 2 ^ 4"

lemma mask_lits: "(0x3F :: u32) = mask 6" "(0x0F :: u32) = mask 4" "(0xFF :: u32) = mask 8"
  by (simp_all add: mask_eq_exp_minus_1)

lemma small_u8_bit:
  assumes "unat (w :: u8) < 2 ^ n" "bit w i"
  shows "i < n"
  using bit_nat_less [OF assms(1)] assms(2) by (simp add: bit_unsigned_iff)

lemmas field_bits = packBoardDef_def ExtractBits_take mask_lits bit_simps

text \<open>Each field of a packed word, whatever the others hold.\<close>

lemma packed_nsPerSample:
  "unat (bd_nsPerSample b) < 2 ^ 6 \<Longrightarrow> ucast (ExtractBits (packBoardDef b) 0 5) = bd_nsPerSample b"
  by (rule bit_word_eqI) (auto simp: field_bits dest: small_u8_bit [of "bd_nsPerSample b" 6, simplified])

lemma packed_nsPerTimetag:
  "unat (bd_nsPerTimetag b) < 2 ^ 6 \<Longrightarrow> ucast (ExtractBits (packBoardDef b) 6 11) = bd_nsPerTimetag b"
  by (rule bit_word_eqI) (auto simp: field_bits dest: small_u8_bit [of "bd_nsPerTimetag b" 6, simplified])

lemma packed_dppVersion:
  "unat (dppVersion b) < 2 ^ 4 \<Longrightarrow> ucast (ExtractBits (packBoardDef b) 12 15) = dppVersion b"
  by (rule bit_word_eqI) (auto simp: field_bits dest: small_u8_bit [of "dppVersion b" 4, simplified])

lemma packed_channels: "ucast (ExtractBits (packBoardDef b) 16 23) = bd_channels b"
  by (rule bit_word_eqI) (auto simp: field_bits)

lemma packed_regId: "ucast (ExtractBits (packBoardDef b) 24 31) = bd_regId b"
  by (rule bit_word_eqI) (auto simp: field_bits)

lemma unpack_pack: "board_def_fits b \<Longrightarrow> unpackBoardDef (packBoardDef b) = b"
  by (simp add: unpackBoardDef_def board_def_fits_def packed_nsPerSample packed_nsPerTimetag
      packed_dppVersion packed_channels packed_regId)

text \<open>
  The board table of the file header is lossless: every board word written from fields that
  fit their bit ranges reads back to exactly those fields.
\<close>

theorem board_def_roundtrip:
  assumes "board_def_fits b"
  shows "unpackBoardDef (packBoardDef b) = b"
  using assms by (rule unpack_pack)

definition demo_def :: XdaqBoardDef where
  "demo_def = \<lparr> bd_nsPerSample = 10, bd_nsPerTimetag = 10, dppVersion = 0, bd_channels = 8, bd_regId = 3 \<rparr>"

theorem board_def_roundtrip_witness: "unpackBoardDef (packBoardDef demo_def) = demo_def"
  by (rule board_def_roundtrip) (simp add: board_def_fits_def demo_def_def)

lemma length_buildXdaqHeader: "length (buildXdaqHeader boards ep ts0 ts1) = 6 + length boards"
  by (simp add: buildXdaqHeader_def Let_def)

text \<open>
  C22. The header states its own size and board count: its first word is its length in words,
  its second the key frame, and word \<open>6 + i\<close> reads back to the definition of board \<open>i\<close>.
\<close>

theorem header_self_describing:
  assumes "length boards < 2 ^ 31" and "i < length boards" and "board_def_fits (boards ! i)"
    and "h = buildXdaqHeader boards ep ts0 ts1"
  shows "unat (h ! 0) = length h \<and> h ! 1 = kXdaqKeyFrame \<and> unat (h ! 2) = length boards \<and>
    unpackBoardDef (h ! (6 + i)) = boards ! i"
proof -
  have "unat (of_nat (6 + length boards) :: u32) = 6 + length boards"
    using assms(1) by (simp only: unat_of_nat) simp
  moreover have "unat (of_nat (length boards) :: u32) = length boards"
    using assms(1) by (simp only: unat_of_nat) simp
  ultimately show ?thesis
    using assms(2) unpack_pack [OF assms(3)]
    by (simp add: assms(4) buildXdaqHeader_def Let_def nth_append)
qed

theorem header_self_describing_witness:
  "unpackBoardDef (buildXdaqHeader [demo_def] 7 0 0 ! 6) = demo_def"
  using header_self_describing [of "[demo_def]" 0 _ 7 0 0]
  by (simp add: board_def_fits_def demo_def_def)

end
