(* ===== verification/File_Writer.thy ===== *)
theory File_Writer
  imports File_Header
begin

text \<open>
  \<open>RawFileWriter\<close>: one payload stream over a sequence of part files. The file system is
  explicit: the contents by path, the paths the program opened in order, and a fault for each
  I/O call (\<open>None\<close>: it succeeds; \<open>Some k\<close>: it fails, a write after \<open>k\<close> bytes), any sequence
  of which is allowed. What a stream buffers counts as written; the model says nothing about a
  crash. Part counters are \<open>nat\<close> (an \<open>int\<close> in the source, far from its bound).
\<close>

section \<open>The file system\<close>

record Disk =
  files :: "string \<Rightarrow> u8 list option"
  opened :: "string list"
  io_calls :: nat
  faults :: "nat \<Rightarrow> nat option"

definition io_call :: "Disk \<Rightarrow> nat option \<times> Disk" where
  "io_call d = (faults d (io_calls d), d\<lparr> io_calls := io_calls d + 1 \<rparr>)"

text \<open>\<open>std::ofstream\<close>: the open file, if any, and the state bits.\<close>

record Stream =
  st_path :: "string option"
  st_good :: bool

definition stream_open :: "string \<Rightarrow> Disk \<Rightarrow> Stream \<times> Disk" where
  "stream_open p d =
     (case io_call d of
        (None, d) \<Rightarrow> (\<lparr> st_path = Some p, st_good = True \<rparr>,
                      d\<lparr> files := (files d)(p \<mapsto> []), opened := opened d @ [p] \<rparr>)
      | (Some _, d) \<Rightarrow> (\<lparr> st_path = None, st_good = False \<rparr>, d))"

definition append_file :: "string \<Rightarrow> u8 list \<Rightarrow> Disk \<Rightarrow> Disk" where
  "append_file p bs d =
     d\<lparr> files := (files d)(p \<mapsto> (case files d p of Some c \<Rightarrow> c | None \<Rightarrow> []) @ bs) \<rparr>"

definition stream_write :: "u8 list \<Rightarrow> Stream \<Rightarrow> Disk \<Rightarrow> Stream \<times> Disk" where
  "stream_write bs s d =
     (case st_path s of
        None \<Rightarrow> (s\<lparr> st_good := False \<rparr>, d)
      | Some p \<Rightarrow> if \<not> st_good s then (s, d)
                  else (case io_call d of
                          (None, d) \<Rightarrow> (s, append_file p bs d)
                        | (Some k, d) \<Rightarrow> (s\<lparr> st_good := False \<rparr>, append_file p (take k bs) d)))"

definition stream_flush :: "Stream \<Rightarrow> Disk \<Rightarrow> Stream \<times> Disk" where
  "stream_flush s d =
     (if st_path s = None \<or> \<not> st_good s then (s, d)
      else case io_call d of
             (None, d) \<Rightarrow> (s, d)
           | (Some _, d) \<Rightarrow> (s\<lparr> st_good := False \<rparr>, d))"

section \<open>Paths\<close>

text \<open>\<open>fs::path(dir) / name\<close> and the three parts of a path \<open>uniquePath\<close> takes apart.\<close>

definition path_join :: "string \<Rightarrow> string \<Rightarrow> string" where
  "path_join dir name =
     (if dir = '''' then name else if last dir = CHR ''/'' then dir @ name else dir @ ''/'' @ name)"

definition file_name :: "string \<Rightarrow> string" where
  "file_name p = rev (takeWhile (\<lambda>c. c \<noteq> CHR ''/'') (rev p))"

definition parent_path :: "string \<Rightarrow> string" where
  "parent_path p =
     (let d = rev (dropWhile (\<lambda>c. c \<noteq> CHR ''/'') (rev p));
          r = rev (dropWhile (\<lambda>c. c = CHR ''/'') (rev d))
      in if r = '''' then d else r)"

definition stem :: "string \<Rightarrow> string" where
  "stem p = (let f = file_name p; r = rev (tl (dropWhile (\<lambda>c. c \<noteq> CHR ''.'') (rev f)))
             in if r = '''' then f else r)"

definition extension :: "string \<Rightarrow> string" where
  "extension p = (let f = file_name p in drop (length (stem p)) f)"

section \<open>The writer\<close>

record WriterConfig =
  directory :: string
  runNumber :: u32
  maxFileBytes :: nat
  writeHeader :: bool

definition WriterConfig_init :: WriterConfig where
  "WriterConfig_init = \<lparr> directory = ''.'', runNumber = 0, maxFileBytes = 0, writeHeader = True \<rparr>"

record RawFileWriter =
  cfg :: WriterConfig
  boardDefs :: "XdaqBoardDef list"
  stream :: Stream
  cycle :: nat
  fileBytes :: nat
  totalBytes :: nat
  totalBuffers :: nat
  headerWritten :: bool
  wclosed :: bool

definition RawFileWriter_new :: "WriterConfig \<Rightarrow> RawFileWriter" where
  "RawFileWriter_new c =
     \<lparr> cfg = c, boardDefs = [], stream = \<lparr> st_path = None, st_good = True \<rparr>, cycle = 0,
       fileBytes = 0, totalBytes = 0, totalBuffers = 0, headerWritten = False, wclosed = True \<rparr>"

definition setBoards :: "XdaqBoardDef list \<Rightarrow> RawFileWriter \<Rightarrow> RawFileWriter" where
  "setBoards bs w = w\<lparr> boardDefs := bs \<rparr>"

definition part_name :: "nat \<Rightarrow> nat \<Rightarrow> string" where
  "part_name run c =
     ''run_'' @ nat_str run @ ''_'' @ replicate (4 - length (nat_str c)) CHR ''0'' @ nat_str c @ ''.caendat''"

definition makePath :: "WriterConfig \<Rightarrow> nat \<Rightarrow> string" where
  "makePath c n = path_join (directory c) (part_name (unat (runNumber c)) n)"

definition suffixed :: "string \<Rightarrow> nat \<Rightarrow> string" where
  "suffixed p n = path_join (parent_path p) (stem p @ ''_'' @ nat_str n @ extension p)"

function first_free :: "(string \<Rightarrow> bool) \<Rightarrow> (nat \<Rightarrow> string) \<Rightarrow> nat \<Rightarrow> string option" where
  "first_free ex mk n =
     (if n < 100000 then if \<not> ex (mk n) then Some (mk n) else first_free ex mk (n + 1)
      else None)"
  by auto
termination by (relation "measure (\<lambda>(_, _, n). 100000 - n)") auto

declare first_free.simps [simp del]

definition uniquePath :: "Disk \<Rightarrow> string \<Rightarrow> string" where
  "uniquePath d p =
     (if files d p = None then p
      else case first_free (\<lambda>q. files d q \<noteq> None) (suffixed p) 1 of
             Some q \<Rightarrow> q
           | None \<Rightarrow> p)"

text \<open>
  \<open>openCycle\<close>. The time of the header is an input. The log lines are not modelled.
\<close>

definition openCycle :: "int \<Rightarrow> bool \<Rightarrow> RawFileWriter \<Rightarrow> Disk \<Rightarrow> bool \<times> RawFileWriter \<times> Disk" where
  "openCycle now firstFile w d =
     (case io_call d of
        (Some _, d) \<Rightarrow> (False, w, d)
      | (None, d) \<Rightarrow>
          let path = uniquePath d (makePath (cfg w) (cycle w));
              (s, d) = stream_open path d;
              w = w\<lparr> stream := s \<rparr>
          in if st_path s = None then (False, w, d)
             else let w = w\<lparr> fileBytes := 0, wclosed := False \<rparr>
                  in if firstFile \<and> writeHeader (cfg w)
                     then let header = bytes_of_words (buildXdaqHeader (boardDefs w) (nowEpoch32 now) 0 0);
                              (s, d) = stream_write header (stream w) d;
                              w = w\<lparr> stream := s \<rparr>
                          in if \<not> st_good s then (False, w, d)
                             else (True, w\<lparr> fileBytes := w64 (fileBytes w + length header),
                                            headerWritten := True \<rparr>, d)
                     else (True, w, d))"

definition writer_open :: "int \<Rightarrow> RawFileWriter \<Rightarrow> Disk \<Rightarrow> bool \<times> RawFileWriter \<times> Disk" where
  "writer_open now w d =
     openCycle now True
       (w\<lparr> cycle := 0, totalBytes := 0, totalBuffers := 0, headerWritten := False \<rparr>) d"

text \<open>The part of \<open>write\<close> after the rotation.\<close>

definition write_payload :: "u8 list \<Rightarrow> RawFileWriter \<Rightarrow> Disk \<Rightarrow> bool \<times> RawFileWriter \<times> Disk" where
  "write_payload data w d =
     (let (s, d) = stream_write data (stream w) d;
          w = w\<lparr> stream := s \<rparr>
      in if \<not> st_good s then (False, w, d)
         else (True, w\<lparr> fileBytes := w64 (fileBytes w + length data),
                        totalBytes := w64 (totalBytes w + length data),
                        totalBuffers := w64 (totalBuffers w + 1) \<rparr>, d))"

definition writer_write :: "int \<Rightarrow> u8 list \<Rightarrow> RawFileWriter \<Rightarrow> Disk \<Rightarrow> bool \<times> RawFileWriter \<times> Disk" where
  "writer_write now data w d =
     (if wclosed w then (False, w, d)
      else if length data = 0 then (True, w, d)
      else if maxFileBytes (cfg w) \<noteq> 0 \<and> w64 (fileBytes w + length data) > maxFileBytes (cfg w)
              \<and> fileBytes w > 0
      then case openCycle now False (w\<lparr> cycle := cycle w + 1 \<rparr>) d of
             (True, w, d) \<Rightarrow> write_payload data w d
           | (False, w, d) \<Rightarrow> (False, w, d)
      else write_payload data w d)"

definition writer_flush :: "RawFileWriter \<Rightarrow> Disk \<Rightarrow> bool \<times> RawFileWriter \<times> Disk" where
  "writer_flush w d =
     (if wclosed w \<or> st_path (stream w) = None then (True, w, d)
      else let (s, d) = stream_flush (stream w) d in (st_good s, w\<lparr> stream := s \<rparr>, d))"

definition writer_close :: "RawFileWriter \<Rightarrow> Disk \<Rightarrow> RawFileWriter \<times> Disk" where
  "writer_close w d =
     (if wclosed w then (w, d)
      else let (s, d) = (if st_path (stream w) \<noteq> None
                         then let (s, d) = stream_flush (stream w) d in (s\<lparr> st_path := None \<rparr>, d)
                         else (stream w, d))
           in (w\<lparr> stream := s, wclosed := True \<rparr>, d))"

section \<open>Fresh names\<close>

lemma path_join_inj: "path_join dir a = path_join dir b \<longleftrightarrow> a = b"
  by (simp add: path_join_def)

lemma suffixed_inj: "suffixed p m = suffixed p n \<longleftrightarrow> m = n"
  by (simp add: suffixed_def path_join_inj nat_str_inj)

lemma first_free_Some: "first_free ex mk n = Some q \<Longrightarrow> \<not> ex q"
  by (induction ex mk n rule: first_free.induct)
    (subst (asm) (2) first_free.simps, auto split: if_splits)

lemma first_free_None:
  "first_free ex mk n = None \<Longrightarrow> n \<le> m \<Longrightarrow> m < 100000 \<Longrightarrow> ex (mk m)"
proof (induction ex mk n rule: first_free.induct)
  case (1 ex mk n)
  have ex: "ex (mk n)" "first_free ex mk (n + 1) = None"
    using 1(2,3,4) by (subst (asm) first_free.simps, auto split: if_splits)+
  show ?case
  proof (cases "m = n")
    case False
    then show ?thesis using 1 ex by auto
  qed (use ex in simp)
qed

text \<open>With fewer than 99999 files on the disk a free name is always found.\<close>

definition disk_room :: "Disk \<Rightarrow> bool" where
  "disk_room d \<longleftrightarrow> finite (dom (files d)) \<and> card (dom (files d)) < 99999"

lemma uniquePath_fresh:
  assumes "disk_room d"
  shows "files d (uniquePath d p) = None"
proof (cases "first_free (\<lambda>q. files d q \<noteq> None) (suffixed p) 1")
  case None
  have "suffixed p ` {1..<100000} \<subseteq> dom (files d)"
    using first_free_None [OF None] by auto
  then have "card (suffixed p ` {1..<100000}) \<le> card (dom (files d))"
    using assms by (intro card_mono) (auto simp: disk_room_def)
  moreover have "card (suffixed p ` {1..<100000}) = 99999"
    by (subst card_image) (auto simp: inj_on_def suffixed_inj)
  ultimately show ?thesis using assms by (simp add: disk_room_def)
next
  case (Some q)
  then show ?thesis using first_free_Some [OF Some] by (simp add: uniquePath_def)
qed

section \<open>What each operation does to the disk\<close>

text \<open>The disk seen by a run: what was there, and the parts opened since, all new and distinct.\<close>

definition parts_inv :: "(string \<Rightarrow> u8 list option) \<Rightarrow> RawFileWriter \<Rightarrow> Disk \<Rightarrow> bool" where
  "parts_inv fs0 w d \<longleftrightarrow>
     distinct (opened d) \<and>
     (\<forall>p \<in> set (opened d). fs0 p = None \<and> files d p \<noteq> None) \<and>
     (\<forall>p. p \<notin> set (opened d) \<longrightarrow> files d p = fs0 p) \<and>
     (\<forall>p. st_path (stream w) = Some p \<longrightarrow> opened d \<noteq> [] \<and> p = last (opened d))"

definition payload :: "Disk \<Rightarrow> u8 list" where
  "payload d = concat (map (\<lambda>p. the (files d p)) (opened d))"

lemma io_call_simps [simp]:
  "files (snd (io_call d)) = files d" "opened (snd (io_call d)) = opened d"
  by (simp_all add: io_call_def)

lemma io_callD: "io_call d = (r, d') \<Longrightarrow> files d' = files d \<and> opened d' = opened d"
  by (auto simp: io_call_def)

lemma stream_open_cases:
  assumes "stream_open p d = (s, d')"
  obtains (opened) "st_path s = Some p" "st_good s" "files d' = (files d)(p \<mapsto> [])" "opened d' = opened d @ [p]"
  | (failed) "st_path s = None" "files d' = files d" "opened d' = opened d"
  using assms by (auto simp: stream_open_def split: prod.splits option.splits dest!: io_callD)

lemma stream_write_cases:
  assumes "stream_write bs s d = (s', d')"
  obtains (none) "\<not> st_good s'" "st_path s' = st_path s" "files d' = files d" "opened d' = opened d"
  | (part) p k where "st_path s = Some p" "st_path s' = Some p" "st_good s' \<longrightarrow> take k bs = bs"
      "files d' = (files d)(p \<mapsto> (case files d p of Some c \<Rightarrow> c | None \<Rightarrow> []) @ take k bs)"
      "opened d' = opened d"
proof (cases "st_path s")
  case None
  then show ?thesis using assms none by (auto simp: stream_write_def)
next
  case (Some p)
  show ?thesis
  proof (cases "st_good s")
    case False
    then show ?thesis using assms Some none by (auto simp: stream_write_def)
  next
    case True
    obtain r d1 where io: "io_call d = (r, d1)" by force
    show ?thesis
    proof (cases r)
      case None
      then show ?thesis
        using assms Some True io io_callD [OF io]
        by (intro part [of p "length bs"]) (auto simp: stream_write_def append_file_def)
    next
      case (Some k)
      then show ?thesis
        using assms \<open>st_path s = Some p\<close> True io io_callD [OF io]
        by (intro part [of p k]) (auto simp: stream_write_def append_file_def)
    qed
  qed
qed

lemma payload_snoc:
  assumes "opened d' = opened d @ [p]" "files d' = (files d)(p \<mapsto> [])" "p \<notin> set (opened d)"
  shows "payload d' = payload d"
  using assms by (auto simp: payload_def intro!: arg_cong [where f = concat] map_cong)

lemma payload_append:
  assumes "distinct (opened d)" "opened d \<noteq> []" "p = last (opened d)" "files d p = Some c"
    and "opened d' = opened d" "files d' = (files d)(p \<mapsto> c @ bs)"
  shows "payload d' = payload d @ bs"
proof -
  obtain ps where ps: "opened d = ps @ [p]" using assms(2,3) by (metis append_butlast_last_id)
  then have "p \<notin> set ps" using assms(1) by auto
  then have "concat (map (\<lambda>q. the (files d' q)) ps) = concat (map (\<lambda>q. the (files d q)) ps)"
    by (intro arg_cong [where f = concat] map_cong) (auto simp: assms(6))
  moreover have "files d' p = Some (c @ bs)" by (simp add: assms(6))
  ultimately show ?thesis using assms(4,5) by (simp add: payload_def ps)
qed

text \<open>A write through the stream extends the last part by a prefix of the data, all of it if it succeeds.\<close>

lemma stream_write_payload:
  assumes "stream_write bs (stream w) d = (s, d')" and "parts_inv fs0 w d"
  shows "parts_inv fs0 (w\<lparr> stream := s \<rparr>) d' \<and> opened d' = opened d \<and>
    (\<exists>k. payload d' = payload d @ take k bs \<and> (st_good s \<longrightarrow> take k bs = bs))"
  using assms(1)
proof (cases rule: stream_write_cases)
  case none
  then show ?thesis using assms(2)
    by (auto simp: parts_inv_def payload_def intro!: exI [of _ 0])
next
  case (part p k)
  then have p: "opened d \<noteq> []" "p = last (opened d)" using assms(2) by (auto simp: parts_inv_def)
  then have "p \<in> set (opened d)" by simp
  then obtain c where c: "files d p = Some c" using assms(2) by (auto simp: parts_inv_def)
  have "payload d' = payload d @ take k bs"
    using assms(2) part c p by (intro payload_append) (auto simp: parts_inv_def)
  then show ?thesis using assms(2) part c p by (auto simp: parts_inv_def)
qed

text \<open>Opening a part adds one new, empty part and changes nothing that existed.\<close>

lemma stream_open_parts:
  assumes "stream_open p d = (s, d')" and "parts_inv fs0 w d" and "files d p = None"
  shows "parts_inv fs0 (w\<lparr> stream := s \<rparr>) d' \<and> payload d' = payload d \<and>
    (st_path s \<noteq> None \<longrightarrow> st_good s) \<and>
    length (opened d') \<le> length (opened d) + 1"
proof -
  have new: "p \<notin> set (opened d)" "fs0 p = None"
    using assms(2,3) unfolding parts_inv_def by metis+
  from assms(1) show ?thesis
  proof (cases rule: stream_open_cases)
    case opened
    then show ?thesis using assms(2) new payload_snoc [of d' d p] by (auto simp: parts_inv_def)
  next
    case failed
    then show ?thesis using assms(2) by (auto simp: parts_inv_def payload_def)
  qed
qed

lemma parts_inv_cong:
  "files d' = files d \<Longrightarrow> opened d' = opened d \<Longrightarrow> stream w' = stream w \<Longrightarrow>
     parts_inv fs0 w' d' = parts_inv fs0 w d"
  by (simp add: parts_inv_def)

definition header_bytes :: "int \<Rightarrow> RawFileWriter \<Rightarrow> u8 list" where
  "header_bytes now w =
     (if writeHeader (cfg w) then bytes_of_words (buildXdaqHeader (boardDefs w) (nowEpoch32 now) 0 0) else [])"

lemma openCycle_parts:
  assumes "openCycle now first w d = (r, w', d')" and inv: "parts_inv fs0 w d" and room: "disk_room d"
  shows "parts_inv fs0 w' d' \<and> length (opened d') \<le> length (opened d) + 1 \<and>
    cfg w' = cfg w \<and> boardDefs w' = boardDefs w \<and>
    (\<exists>k. payload d' = payload d @ take k (if first then header_bytes now w else [])) \<and>
    (r \<longrightarrow> \<not> wclosed w' \<and> st_good (stream w') \<and> st_path (stream w') \<noteq> None \<and>
       payload d' = payload d @ (if first then header_bytes now w else []) \<and>
       totalBytes w' = totalBytes w \<and> totalBuffers w' = totalBuffers w)"
proof -
  obtain f d1 where io: "io_call d = (f, d1)" by force
  have d1: "files d1 = files d" "opened d1 = opened d" using io_callD [OF io] by simp_all
  show ?thesis
  proof (cases f)
    case (Some k)
    then show ?thesis
      using assms(1) io d1 inv by (auto simp: openCycle_def parts_inv_def payload_def intro!: exI [of _ 0])
  next
    case None
    let ?path = "uniquePath d1 (makePath (cfg w) (cycle w))"
    obtain s d2 where op: "stream_open ?path d1 = (s, d2)" by force
    have fresh: "files d1 ?path = None"
      using room d1 by (intro uniquePath_fresh) (simp add: disk_room_def)
    have inv1: "parts_inv fs0 w d1" using inv d1 parts_inv_cong by blast
    note o = stream_open_parts [OF op inv1 fresh]
    have pl: "payload d1 = payload d" by (simp add: payload_def d1)
    show ?thesis
    proof (cases "st_path s = None \<or> \<not> (first \<and> writeHeader (cfg w))")
      case True
      have eq: "(r, w', d') = (if st_path s = None then (False, w\<lparr> stream := s \<rparr>, d2)
          else (True, w\<lparr> stream := s, fileBytes := 0, wclosed := False \<rparr>, d2))"
        using assms(1) True by (auto simp: openCycle_def io None op Let_def)
      then show ?thesis
        using o d1 pl True
        by (auto simp: header_bytes_def parts_inv_def split: if_splits intro!: exI [of _ 0])
    next
      case False
      let ?w = "w\<lparr> stream := s, fileBytes := 0, wclosed := False \<rparr>"
      let ?h = "bytes_of_words (buildXdaqHeader (boardDefs w) (nowEpoch32 now) 0 0)"
      obtain s' d3 where wr: "stream_write ?h s d2 = (s', d3)" by force
      have "parts_inv fs0 ?w d2" using o by (auto simp: parts_inv_def)
      from stream_write_payload [OF _ this, of ?h s' d3] wr
      obtain k where k: "parts_inv fs0 (?w\<lparr> stream := s' \<rparr>) d3" "opened d3 = opened d2"
        "payload d3 = payload d2 @ take k ?h" "st_good s' \<longrightarrow> take k ?h = ?h" by auto
      have path: "st_path s' = st_path s"
        using wr by (cases rule: stream_write_cases) auto
      have eq: "(r, w', d') = (if \<not> st_good s' then (False, ?w\<lparr> stream := s' \<rparr>, d3)
          else (True, ?w\<lparr> stream := s', fileBytes := w64 (length ?h), headerWritten := True \<rparr>, d3))"
      proof -
        from False obtain sp where "st_path s = Some sp" "first" "writeHeader (cfg w)" by (cases "st_path s") auto
        then show ?thesis
          using assms(1) wr by (cases "st_good s'") (simp_all add: openCycle_def io None op Let_def)
      qed
      have hb: "(if first then header_bytes now w else []) = ?h"
        using False by (simp add: header_bytes_def)
      have "parts_inv fs0 w' d3" using k(1) eq by (auto simp: parts_inv_def split: if_splits)
      then show ?thesis
        unfolding hb using o d1 pl k path False eq by (auto split: if_splits intro!: exI [of _ k])
    qed
  qed
qed

lemma write_payload_parts:
  assumes "write_payload data w d = (r, w', d')" and "parts_inv fs0 w d"
  shows "parts_inv fs0 w' d' \<and> opened d' = opened d \<and> cfg w' = cfg w \<and> wclosed w' = wclosed w \<and>
    (\<exists>k. payload d' = payload d @ take k data) \<and>
    (r \<longrightarrow> payload d' = payload d @ data \<and> st_good (stream w') \<and>
       totalBytes w' = w64 (totalBytes w + length data) \<and>
       fileBytes w' = w64 (fileBytes w + length data))"
proof -
  obtain s d1 where wr: "stream_write data (stream w) d = (s, d1)" by force
  from stream_write_payload [OF wr assms(2)] obtain k where
    k: "parts_inv fs0 (w\<lparr> stream := s \<rparr>) d1" "opened d1 = opened d"
      "payload d1 = payload d @ take k data" "st_good s \<longrightarrow> take k data = data" by auto
  have eq: "d' = d1" "r = st_good s" "stream w' = s" "cfg w' = cfg w" "wclosed w' = wclosed w"
    "r \<longrightarrow> totalBytes w' = w64 (totalBytes w + length data) \<and> fileBytes w' = w64 (fileBytes w + length data)"
    using assms(1) wr by (auto simp: write_payload_def Let_def split: if_splits)
  have "parts_inv fs0 w' d1" using k(1) eq by (auto simp: parts_inv_def)
  then show ?thesis using k eq by auto
qed

lemma writer_write_parts:
  assumes "writer_write now data w d = (r, w', d')" and inv: "parts_inv fs0 w d" and room: "disk_room d"
  shows "parts_inv fs0 w' d' \<and> length (opened d') \<le> length (opened d) + 1 \<and> cfg w' = cfg w \<and>
    (\<exists>k. payload d' = payload d @ take k data) \<and>
    (r \<longrightarrow> \<not> wclosed w' \<and> payload d' = payload d @ data \<and>
       totalBytes w' = (if data = [] then totalBytes w else w64 (totalBytes w + length data)))"
proof -
  have nil: "\<exists>k. payload d = payload d @ take k data" by (intro exI [of _ 0]) simp
  let ?rot = "maxFileBytes (cfg w) \<noteq> 0 \<and> w64 (fileBytes w + length data) > maxFileBytes (cfg w)
    \<and> fileBytes w > 0"
  consider "wclosed w" | "\<not> wclosed w" "data = []" | "\<not> wclosed w" "data \<noteq> []" "\<not> ?rot"
    | "\<not> wclosed w" "data \<noteq> []" ?rot by blast
  then show ?thesis
  proof cases
    case 1
    then show ?thesis using assms nil by (simp add: writer_write_def)
  next
    case 2
    then show ?thesis using assms by (auto simp: writer_write_def)
  next
    case 3
    then have "write_payload data w d = (r, w', d')" using assms(1) by (auto simp: writer_write_def)
    from write_payload_parts [OF this inv] 3 show ?thesis by auto
  next
    case 4
    obtain r1 w1 d1 where oc: "openCycle now False (w\<lparr> cycle := cycle w + 1 \<rparr>) d = (r1, w1, d1)"
      by (metis prod_cases3)
    have "parts_inv fs0 (w\<lparr> cycle := cycle w + 1 \<rparr>) d" using inv by (simp add: parts_inv_def)
    note o = openCycle_parts [OF oc this room]
    show ?thesis
    proof (cases r1)
      case False
      then have "w' = w1" "d' = d1" "\<not> r" using assms(1) 4 oc by (simp_all add: writer_write_def)
      then show ?thesis using o by (auto intro: exI [of _ 0])
    next
      case True
      then have "write_payload data w1 d1 = (r, w', d')"
        using assms(1) 4 oc by (simp add: writer_write_def)
      from write_payload_parts [OF this] o True 4 show ?thesis by auto
    qed
  qed
qed

section \<open>A run of the writer\<close>

text \<open>\<open>open\<close>, then a sequence of writes; what each call returned.\<close>

fun write_run :: "(int \<times> u8 list) list \<Rightarrow> RawFileWriter \<Rightarrow> Disk \<Rightarrow> bool list \<times> RawFileWriter \<times> Disk" where
  "write_run [] w d = ([], w, d)"
| "write_run ((now, data) # bs) w d =
     (let (r, w, d) = writer_write now data w d; (rs, w, d) = write_run bs w d in (r # rs, w, d))"

definition disk_ready :: "nat \<Rightarrow> Disk \<Rightarrow> bool" where
  "disk_ready n d \<longleftrightarrow> opened d = [] \<and> finite (dom (files d)) \<and> card (dom (files d)) + n < 99999"

lemma parts_inv_room:
  assumes "parts_inv (files d0) w d" "disk_ready n d0" "length (opened d) \<le> n"
  shows "disk_room d"
proof -
  have sub: "dom (files d) \<subseteq> dom (files d0) \<union> set (opened d)"
    using assms(1) unfolding parts_inv_def dom_def by (metis (mono_tags, lifting) UnCI mem_Collect_eq subsetI)
  have fin: "finite (dom (files d0) \<union> set (opened d))" using assms(2) by (simp add: disk_ready_def)
  have "card (dom (files d)) \<le> card (dom (files d0) \<union> set (opened d))" by (rule card_mono [OF fin sub])
  also have "\<dots> \<le> card (dom (files d0)) + card (set (opened d))" by (rule card_Un_le)
  also have "card (set (opened d)) \<le> n" using card_length [of "opened d"] assms(3) by linarith
  finally show ?thesis
    using assms(2) finite_subset [OF sub fin] by (simp add: disk_room_def disk_ready_def)
qed

lemma write_run_parts:
  assumes "write_run bs w d = (rs, w', d')" and "parts_inv (files d0) w d"
    and "disk_ready n d0" and "length (opened d) + length bs \<le> n"
  shows "parts_inv (files d0) w' d' \<and>
    (list_all id rs \<longrightarrow> payload d' = payload d @ concat (map snd bs))"
  using assms
proof (induction bs arbitrary: w d rs)
  case (Cons b bs)
  obtain now data where b: "b = (now, data)" by force
  obtain r w1 d1 rs1 where st: "writer_write now data w d = (r, w1, d1)"
    "write_run bs w1 d1 = (rs1, w', d')" "rs = r # rs1"
    using Cons.prems(1) by (auto simp: b Let_def split: prod.splits)
  have room: "disk_room d" using parts_inv_room [OF Cons.prems(2,3)] Cons.prems(4) by simp
  note p = writer_write_parts [OF st(1) Cons.prems(2) room]
  have "length (opened d1) + length bs \<le> n" using p Cons.prems(4) by auto
  from Cons.IH [OF st(2) _ Cons.prems(3) this] p show ?case by (auto simp: st(3) b)
qed auto

lemma parts_inv_start: "opened d = [] \<Longrightarrow> parts_inv (files d) (w\<lparr> stream := \<lparr> st_path = None, st_good = g \<rparr> \<rparr>) d"
  by (simp add: parts_inv_def)

lemma writer_start:
  assumes "disk_ready n d" "st_path (stream w) = None" "0 < n"
    and "writer_open now w d = (r, w', d')"
  shows "parts_inv (files d) w' d' \<and> length (opened d') \<le> 1 \<and>
    (r \<longrightarrow> payload d' = header_bytes now w \<and> \<not> wclosed w')"
proof -
  let ?w = "w\<lparr> cycle := 0, totalBytes := 0, totalBuffers := 0, headerWritten := False \<rparr>"
  have o: "opened d = []" using assms(1) by (simp add: disk_ready_def)
  then have inv: "parts_inv (files d) ?w d" using assms(2) by (simp add: parts_inv_def)
  have room: "disk_room d" using assms(1,3) by (simp add: disk_ready_def disk_room_def)
  have "openCycle now True ?w d = (r, w', d')" using assms(4) by (simp add: writer_open_def)
  from openCycle_parts [OF this inv room] o show ?thesis
    by (auto simp: payload_def header_bytes_def)
qed

text \<open>
  C14. The stream on disk is the run: if \<open>open\<close> and every \<open>write\<close> of a run succeed, the parts the
  run created, read in the order they were created, contain the file header followed by the
  blocks in the order they were written, and nothing else; rotation neither loses, repeats nor
  reorders a byte, and no trailer follows.
\<close>

theorem parts_hold_the_run:
  assumes "disk_ready (1 + length bs) d" and "st_path (stream w) = None"
    and "writer_open now w d = (True, w1, d1)" and "write_run bs w1 d1 = (rs, w2, d2)"
    and "list_all id rs"
  shows "payload d2 = header_bytes now w @ concat (map snd bs)"
proof -
  note s = writer_start [OF assms(1,2) _ assms(3), simplified]
  have "length (opened d1) + length bs \<le> 1 + length bs" using s by simp
  from write_run_parts [OF assms(4) _ assms(1) this] s assms(5) show ?thesis by simp
qed

text \<open>
  C15. An existing file is never overwritten or truncated: whatever I/O calls fail during
  \<open>open\<close> and a run of writes, and whatever their results, every file that was on the disk
  before keeps its contents, and the parts of the run are distinct new files (on a disk with
  fewer than 99999 files, the bound of the search for a free name).
\<close>

theorem existing_files_untouched:
  assumes "disk_ready (1 + length bs) d" and "st_path (stream w) = None"
    and "writer_open now w d = (r, w1, d1)" and "write_run bs w1 d1 = (rs, w2, d2)"
    and "files d p = Some c"
  shows "files d2 p = Some c \<and> p \<notin> set (opened d2) \<and> distinct (opened d2)"
proof -
  note s = writer_start [OF assms(1,2) _ assms(3), simplified]
  have "length (opened d1) + length bs \<le> 1 + length bs" using s by simp
  from write_run_parts [OF assms(4) _ assms(1) this] s have "parts_inv (files d) w2 d2" by simp
  then show ?thesis using assms(5) unfolding parts_inv_def by (metis option.distinct(1))
qed

definition demo_disk :: "Disk" where
  "demo_disk = \<lparr> files = (\<lambda>p. if p = ''./run_0_0000.caendat'' then Some [42] else None), opened = [],
                 io_calls = 0, faults = (\<lambda>_. None) \<rparr>"

lemma demo_disk_ready: "n < 99998 \<Longrightarrow> disk_ready n demo_disk"
proof -
  have "dom (files demo_disk) = {''./run_0_0000.caendat''}"
    by (auto simp: demo_disk_def split: if_splits)
  then show "n < 99998 \<Longrightarrow> disk_ready n demo_disk"
    by (simp add: disk_ready_def) (simp add: demo_disk_def)
qed

lemma demo_disk_run:
  "\<exists>w1 d1 w2 d2. writer_open 0 (RawFileWriter_new (WriterConfig_init\<lparr> writeHeader := False \<rparr>)) demo_disk
       = (True, w1, d1) \<and> write_run [(0, [1, 2]), (0, [3])] w1 d1 = ([True, True], w2, d2)"
  by (simp add: writer_open_def openCycle_def io_call_def stream_open_def Let_def
      RawFileWriter_new_def WriterConfig_init_def demo_disk_def writer_write_def write_payload_def
      stream_write_def append_file_def)

theorem parts_hold_the_run_witness:
  "\<exists>w1 d1 w2 d2. writer_open 0 (RawFileWriter_new (WriterConfig_init\<lparr> writeHeader := False \<rparr>)) demo_disk
       = (True, w1, d1) \<and> write_run [(0, [1, 2]), (0, [3])] w1 d1 = ([True, True], w2, d2) \<and>
     payload d2 = [1, 2, 3]"
proof -
  let ?w = "RawFileWriter_new (WriterConfig_init\<lparr> writeHeader := False \<rparr>)"
  let ?bs = "[(0, [1, 2]), (0, [3])] :: (int \<times> u8 list) list"
  obtain w1 d1 w2 d2 where o: "writer_open 0 ?w demo_disk = (True, w1, d1)"
    "write_run ?bs w1 d1 = ([True, True], w2, d2)" using demo_disk_run by blast
  have r: "disk_ready (1 + length ?bs) demo_disk" by (rule demo_disk_ready) simp
  have "st_path (stream ?w) = None" by (simp add: RawFileWriter_new_def)
  from parts_hold_the_run [OF r this o] have "payload d2 = header_bytes 0 ?w @ [1, 2, 3]" by simp
  then show ?thesis
    using o by (simp add: header_bytes_def RawFileWriter_new_def WriterConfig_init_def)
qed

theorem existing_files_untouched_witness:
  "\<exists>w1 d1 w2 d2. writer_open 0 (RawFileWriter_new (WriterConfig_init\<lparr> writeHeader := False \<rparr>)) demo_disk
       = (True, w1, d1) \<and> write_run [(0, [1, 2]), (0, [3])] w1 d1 = ([True, True], w2, d2) \<and>
     files d2 ''./run_0_0000.caendat'' = Some [42]"
proof -
  let ?w = "RawFileWriter_new (WriterConfig_init\<lparr> writeHeader := False \<rparr>)"
  let ?bs = "[(0, [1, 2]), (0, [3])] :: (int \<times> u8 list) list"
  obtain w1 d1 w2 d2 where o: "writer_open 0 ?w demo_disk = (True, w1, d1)"
    "write_run ?bs w1 d1 = ([True, True], w2, d2)" using demo_disk_run by blast
  have r: "disk_ready (1 + length ?bs) demo_disk" by (rule demo_disk_ready) simp
  have "st_path (stream ?w) = None" by (simp add: RawFileWriter_new_def)
  moreover have "files demo_disk ''./run_0_0000.caendat'' = Some [42]" by (simp add: demo_disk_def)
  ultimately show ?thesis using existing_files_untouched [OF r _ o] o by blast
qed

section \<open>Rotation\<close>



end
