(* ===== verification/Writer_Thread.thy ===== *)
theory Writer_Thread
  imports File_Writer Block_Queue
begin

text \<open>
  The writer thread of \<open>Daq\<close> (\<open>writerLoop\<close>, \<open>teardownWriter\<close>): it drains the shared write queue
  into the run's file, flushes once a second and whenever data stops arriving, and raises
  \<open>writerFailed_\<close> on an I/O error. What the other threads do to the queue between two iterations
  is an input, as are the clocks. The loop has no bound of its own: that it ends once the queue is
  closed is proved. No method throws, so the \<open>catch\<close> clauses are not modelled.
\<close>

section \<open>State\<close>

text \<open>
  The writer, the shared failure flag, whether there is a thread to join, whether its loop has
  ended, and the two locals of the loop. Times are nanoseconds.
\<close>

record WriterThread =
  wt_writer :: "RawFileWriter option"
  wt_failed :: bool
  wt_thread :: bool
  wt_ended :: bool
  wt_lastFlush :: int
  wt_dirty :: bool

definition WriterThread_init :: WriterThread where
  "WriterThread_init =
     \<lparr> wt_writer = None, wt_failed = False, wt_thread = False, wt_ended = False, wt_lastFlush = 0,
       wt_dirty = False \<rparr>"

text \<open>One iteration's inputs: the other threads' effect on the queue, and three clock readings.\<close>

record WriterTick =
  wk_queue :: "BlockQueue \<Rightarrow> BlockQueue"
  wk_epoch :: int
  wk_now :: int
  wk_flushed :: int

definition kFlushEvery :: int where "kFlushEvery = 1000000000"

section \<open>The loop\<close>

text \<open>The block, if it is not null, goes to the file: whether the write succeeded.\<close>

definition write_block :: "int \<Rightarrow> BlockPtr \<Rightarrow> WriterThread \<Rightarrow> Disk \<Rightarrow> bool \<times> WriterThread \<times> Disk" where
  "write_block epoch b wt d =
     (case b of
        None \<Rightarrow> (True, wt, d)
      | Some data \<Rightarrow>
          (case wt_writer wt of
             None \<Rightarrow> (True, wt\<lparr> wt_dirty := True \<rparr>, d)
           | Some wr \<Rightarrow>
               (let (ok, wr, d) = writer_write epoch data wr d;
                    wt = wt\<lparr> wt_writer := Some wr \<rparr>
                in if ok then (True, wt\<lparr> wt_dirty := True \<rparr>, d) else (False, wt, d))))"

definition flush_due :: "WriterTick \<Rightarrow> bool \<Rightarrow> WriterThread \<Rightarrow> Disk \<Rightarrow> WriterThread \<times> Disk" where
  "flush_due t timedOut wt d =
     (case wt_writer wt of
        None \<Rightarrow> (wt, d)
      | Some wr \<Rightarrow>
          if wt_dirty wt \<and> (timedOut \<or> wk_now t - wt_lastFlush wt \<ge> kFlushEvery)
          then let (_, wr, d) = writer_flush wr d
               in (wt\<lparr> wt_writer := Some wr, wt_lastFlush := wk_flushed t, wt_dirty := False \<rparr>, d)
          else (wt, d))"

definition writer_iter ::
  "WriterTick \<Rightarrow> WriterThread \<Rightarrow> BlockQueue \<Rightarrow> Disk \<Rightarrow> bool \<times> WriterThread \<times> BlockQueue \<times> Disk" where
  "writer_iter t wt q d =
     (let (block, timedOut, q) = popFor (wk_queue t q) in
      if block = None \<and> \<not> timedOut then (False, wt\<lparr> wt_ended := True \<rparr>, q, d)
      else let (ok, wt, d) = write_block (wk_epoch t) (case block of None \<Rightarrow> None | Some b \<Rightarrow> b) wt d
           in if \<not> ok then (False, wt\<lparr> wt_failed := True, wt_ended := True \<rparr>, q, d)
              else let (wt, d) = flush_due t timedOut wt d in (True, wt, q, d))"

partial_function (option) writer_loop ::
  "(nat \<Rightarrow> WriterTick) \<Rightarrow> nat \<Rightarrow> WriterThread \<Rightarrow> BlockQueue \<Rightarrow> Disk
     \<Rightarrow> (WriterThread \<times> BlockQueue \<times> Disk) option" where
  "writer_loop ticks i wt q d =
     (let (go, wt, q, d) = writer_iter (ticks i) wt q d
      in if go then writer_loop ticks (i + 1) wt q d else Some (wt, q, d))"

section \<open>Teardown\<close>

text \<open>\<open>join\<close>: the iterations the thread still makes, unless its loop has already ended.\<close>

definition writer_join ::
  "(nat \<Rightarrow> WriterTick) \<Rightarrow> WriterThread \<Rightarrow> BlockQueue \<Rightarrow> Disk \<Rightarrow> (WriterThread \<times> BlockQueue \<times> Disk) option" where
  "writer_join ticks wt q d =
     (if \<not> wt_thread wt then Some (wt, q, d)
      else do {
        (wt, q, d) \<leftarrow> (if wt_ended wt then Some (wt, q, d) else writer_loop ticks 0 wt q d);
        Some (wt\<lparr> wt_thread := False \<rparr>, q, d)
      })"

definition teardownWriter ::
  "(nat \<Rightarrow> WriterTick) \<Rightarrow> WriterThread \<Rightarrow> BlockQueue \<Rightarrow> Disk \<Rightarrow> (WriterThread \<times> BlockQueue \<times> Disk) option" where
  "teardownWriter ticks wt q d = do {
     (wt, q, d) \<leftarrow> writer_join ticks wt (close q) d;
     Some (case wt_writer wt of
             None \<Rightarrow> (wt, q, d)
           | Some wr \<Rightarrow> (let (wr, d) = writer_close wr d in (wt\<lparr> wt_writer := Some wr \<rparr>, q, d)))
   }"

section \<open>One iteration\<close>

text \<open>What a null-free list of queue entries holds.\<close>

definition block_data :: "BlockPtr \<Rightarrow> u8 list" where
  "block_data b = (case b of None \<Rightarrow> [] | Some d \<Rightarrow> d)"

abbreviation blocks_data :: "BlockPtr list \<Rightarrow> u8 list" where
  "blocks_data bs \<equiv> concat (map block_data bs)"

text \<open>
  The thread's view of the disk: an open writer over the parts of the run, with room for \<open>n\<close> more
  part files.
\<close>

definition writing :: "Disk \<Rightarrow> nat \<Rightarrow> WriterThread \<Rightarrow> Disk \<Rightarrow> bool" where
  "writing d0 n wt d \<longleftrightarrow>
     (\<exists>wr. wt_writer wt = Some wr \<and> parts_inv (files d0) wr d \<and>
       disk_ready (length (opened d) + n) d0)"

lemma stream_flush_disk: "stream_flush s d = (s', d') \<Longrightarrow>
    files d' = files d \<and> opened d' = opened d \<and> st_path s' = st_path s"
  by (auto simp: stream_flush_def split: if_splits prod.splits option.splits dest!: io_callD)

lemma writer_flush_parts:
  assumes "writer_flush wr d = (r, wr', d')"
  shows "parts_inv fs wr' d' = parts_inv fs wr d \<and> payload d' = payload d \<and> opened d' = opened d"
  using assms stream_flush_disk
  by (auto simp: writer_flush_def parts_inv_def payload_def split: if_splits prod.splits)

lemma writer_close_parts:
  assumes "writer_close wr d = (wr', d')" and "parts_inv fs wr d"
  shows "parts_inv fs wr' d' \<and> payload d' = payload d \<and> opened d' = opened d \<and> wclosed wr'"
  using assms stream_flush_disk
  by (auto simp: writer_close_def parts_inv_def payload_def Let_def split: if_splits prod.splits)

lemma writing_mono: "writing d0 n wt d \<Longrightarrow> m \<le> n \<Longrightarrow> writing d0 m wt d"
  by (auto simp: writing_def disk_ready_def)

lemma write_block_writing:
  assumes "write_block e b wt d = (ok, wt', d')" and "writing d0 (Suc n) wt d"
  shows "writing d0 n wt' d' \<and> (\<exists>k. payload d' = payload d @ take k (block_data b)) \<and>
    (ok \<longrightarrow> payload d' = payload d @ block_data b) \<and>
    wt_thread wt' = wt_thread wt \<and> wt_failed wt' = wt_failed wt \<and> wt_ended wt' = wt_ended wt"
proof -
  obtain wr where wr: "wt_writer wt = Some wr" "parts_inv (files d0) wr d"
    "disk_ready (length (opened d) + Suc n) d0" using assms(2) by (auto simp: writing_def)
  show ?thesis
  proof (cases b)
    case None
    then show ?thesis using assms writing_mono [OF assms(2), of n]
      by (auto simp: write_block_def block_data_def)
  next
    case (Some data)
    obtain r wr' d1 where st: "writer_write e data wr d = (r, wr', d1)" by (metis surj_pair)
    have room: "disk_room d" using parts_inv_room [OF wr(2,3)] by simp
    note p = writer_write_parts [OF st wr(2) room]
    have "disk_ready (length (opened d1) + n) d0" using p wr(3) by (auto simp: disk_ready_def)
    moreover have "d' = d1" "ok = r" "wt_writer wt' = Some wr'" "block_data b = data"
      "wt_thread wt' = wt_thread wt \<and> wt_failed wt' = wt_failed wt \<and> wt_ended wt' = wt_ended wt"
      using assms(1) wr(1) Some st by (auto simp: write_block_def block_data_def Let_def split: if_splits)
    ultimately show ?thesis using p by (auto simp: writing_def)
  qed
qed

lemma flush_due_writing:
  assumes "flush_due t b wt d = (wt', d')" and "writing d0 n wt d"
  shows "writing d0 n wt' d' \<and> payload d' = payload d \<and>
    wt_thread wt' = wt_thread wt \<and> wt_failed wt' = wt_failed wt \<and> wt_ended wt' = wt_ended wt"
proof -
  obtain wr where wr: "wt_writer wt = Some wr" using assms(2) by (auto simp: writing_def)
  obtain r wr' d1 where fl: "writer_flush wr d = (r, wr', d1)" by (metis surj_pair)
  note p = writer_flush_parts [OF fl]
  show ?thesis
    using assms p wr fl by (auto simp: flush_due_def writing_def split: if_splits)
qed

text \<open>
  An iteration on the queue \<open>q\<close> it finds: it ends the loop when the queue is closed and empty, or
  the write fails; otherwise the file has grown by the block it popped.
\<close>

lemma writer_iter_writing:
  assumes "writer_iter t wt q d = (go, wt', q', d')" and "writing d0 (Suc n) wt d" and "wk_queue t q = q1"
  shows "writing d0 n wt' d' \<and> wt_thread wt' = wt_thread wt \<and> closed q' = closed q1 \<and> capacity q' = capacity q1 \<and>
    (case q_items q1 of
       [] \<Rightarrow> q_items q' = [] \<and> payload d' = payload d \<and> wt_failed wt' = wt_failed wt \<and> go = (\<not> closed q1) \<and>
             wt_ended wt' = (if go then wt_ended wt else True)
     | b # bs \<Rightarrow> q_items q' = bs \<and> (\<exists>k. payload d' = payload d @ take k (block_data b)) \<and>
         (if go then payload d' = payload d @ block_data b \<and> wt_failed wt' = wt_failed wt \<and> wt_ended wt' = wt_ended wt
          else wt_failed wt' \<and> wt_ended wt'))"
proof -
  have le: "n \<le> Suc n" by simp
  show ?thesis
  proof (cases "q_items q1")
    case Nil
    show ?thesis
    proof (cases "closed q1")
      case True
      then show ?thesis
        using assms Nil writing_mono [OF assms(2) le]
        by (auto simp: writer_iter_def popFor_def pop_def writing_def)
    next
      case False
      obtain wt1 d1 where f: "flush_due t True wt d = (wt1, d1)" by force
      then show ?thesis
        using assms(1,3) Nil False flush_due_writing [OF f writing_mono [OF assms(2) le]]
        by (auto simp: writer_iter_def popFor_def pop_def write_block_def)
    qed
  next
    case (Cons b bs)
    obtain ok wt1 d1 where w: "write_block (wk_epoch t) b wt d = (ok, wt1, d1)" by (metis surj_pair)
    note ww = write_block_writing [OF w assms(2)]
    obtain wt2 d2 where f: "flush_due t False wt1 d1 = (wt2, d2)" by force
    have pop: "popFor q1 = (Some b, False, q1\<lparr> q_items := bs \<rparr>)"
      using Cons by (simp add: popFor_def pop_def)
    show ?thesis
    proof (cases ok)
      case False
      then show ?thesis
        using assms(1,3) ww w Cons pop by (auto simp: writer_iter_def writing_def)
    next
      case True
      have fw: "writing d0 n wt2 d2" "payload d2 = payload d1" "wt_thread wt2 = wt_thread wt1"
        "wt_failed wt2 = wt_failed wt1" "wt_ended wt2 = wt_ended wt1"
        using flush_due_writing [OF f] ww by blast+
      have eq: "go = True" "wt' = wt2" "d' = d2" "q' = q1\<lparr> q_items := bs \<rparr>"
        using assms(1,3) True w f pop by (auto simp: writer_iter_def)
      show ?thesis using fw ww True Cons unfolding eq by (auto intro: exI [of _ "length (block_data b)"])
    qed
  qed
qed

section \<open>The whole loop\<close>

text \<open>Once the queue is closed nobody but this thread changes it: pushes are refused.\<close>

definition settled :: "(nat \<Rightarrow> WriterTick) \<Rightarrow> bool" where
  "settled ticks \<longleftrightarrow> (\<forall>i q. closed q \<longrightarrow> wk_queue (ticks i) q = q)"

text \<open>What the writer has made of the blocks \<open>bs\<close> when its loop is over.\<close>

definition drained :: "Disk \<Rightarrow> BlockPtr list \<Rightarrow> WriterThread \<Rightarrow> BlockQueue \<Rightarrow> Disk \<Rightarrow> bool" where
  "drained d bs wt' q' d' \<longleftrightarrow>
     (if wt_failed wt' then \<exists>k. payload d' = payload d @ take k (blocks_data bs)
      else q_items q' = [] \<and> payload d' = payload d @ blocks_data bs)"

lemma drained_Cons:
  assumes "drained d1 bs wt' q' d'" and "payload d1 = payload d @ block_data b"
  shows "drained d (b # bs) wt' q' d'"
proof (cases "wt_failed wt'")
  case True
  then obtain k where "payload d' = (payload d @ block_data b) @ take k (blocks_data bs)"
    using assms by (auto simp: drained_def)
  then have "payload d' = payload d @ take (length (block_data b) + k) (blocks_data (b # bs))" by simp
  then show ?thesis using True by (auto simp only: drained_def if_True)
qed (use assms in \<open>simp add: drained_def\<close>)

lemma writer_loop_drains:
  assumes "closed q" and "settled ticks" and "writing d0 (length (q_items q) + 1) wt d" and "\<not> wt_failed wt"
  shows "\<exists>wt' q' d'. writer_loop ticks i wt q d = Some (wt', q', d') \<and> writing d0 0 wt' d' \<and>
    wt_thread wt' = wt_thread wt \<and> closed q' \<and> wt_ended wt' \<and> drained d (q_items q) wt' q' d'"
  using assms(1,3,4)
proof (induction "q_items q" arbitrary: q wt d i)
  case Nil
  obtain go wt1 q1 d1 where it: "writer_iter (ticks i) wt q d = (go, wt1, q1, d1)" by (metis surj_pair)
  have k: "wk_queue (ticks i) q = q" using assms(2) Nil.prems(1) by (simp add: settled_def)
  have "writing d0 (Suc 0) wt d" using Nil by simp
  note st = writer_iter_writing [OF it this k]
  have n: "q_items q = []" using Nil.hyps by simp
  then have "\<not> go" "closed q1" "writing d0 0 wt1 d1" "wt_thread wt1 = wt_thread wt" "wt_ended wt1"
    "drained d [] wt1 q1 d1"
    using st Nil.prems by (simp_all add: drained_def)
  then show ?case unfolding n by (subst writer_loop.simps) (simp add: it)
next
  case (Cons b bs)
  obtain go wt1 q1 d1 where it: "writer_iter (ticks i) wt q d = (go, wt1, q1, d1)" by (metis surj_pair)
  have k: "wk_queue (ticks i) q = q" using assms(2) Cons.prems(1) by (simp add: settled_def)
  have "writing d0 (Suc (length bs + 1)) wt d" using Cons.prems(2) Cons.hyps(2) [symmetric] by simp
  note st = writer_iter_writing [OF it this k]
  show ?case
  proof (cases go)
    case False
    obtain k where "payload d1 = payload d @ take k (block_data b)"
      using st Cons.hyps(2) [symmetric] by auto
    then have "payload d1 = payload d @ take (min k (length (block_data b))) (blocks_data (b # bs))"
      by (simp add: take_append min_def)
    then have "drained d (q_items q) wt1 q1 d1"
      using st False Cons.hyps(2) [symmetric] by (auto simp only: drained_def if_True list.case if_False)
    then show ?thesis
      using st False Cons.hyps(2) [symmetric] Cons.prems(1) writing_mono [of d0 _ wt1 d1 0]
      by (subst writer_loop.simps) (auto simp: it)
  next
    case True
    have s1: "q_items q1 = bs" "closed q1" "\<not> wt_failed wt1" "payload d1 = payload d @ block_data b"
      using st True Cons.hyps(2) [symmetric] Cons.prems by auto
    obtain wt' q' d' where r: "writer_loop ticks (i + 1) wt1 q1 d1 = Some (wt', q', d')" "writing d0 0 wt' d'"
      "wt_thread wt' = wt_thread wt1" "closed q'" "wt_ended wt'" "drained d1 bs wt' q' d'"
      using Cons.hyps(1) [of q1 wt1 d1 "i + 1"] s1 st by auto
    have "drained d (q_items q) wt' q' d'"
      using drained_Cons [OF r(6) s1(4)] Cons.hyps(2) by simp
    then show ?thesis
      using r st True by (subst writer_loop.simps) (auto simp: it)
  qed
qed

lemma writer_iter_closed:
  assumes "writer_iter t wt q d = (go, wt', q', d')" and "wk_queue t q = q" and "closed q"
  shows "closed q' \<and> wt_thread wt' = wt_thread wt \<and> (go \<longrightarrow> length (q_items q) = Suc (length (q_items q')))"
proof -
  have wb: "wt_thread wt2 = wt_thread wt1" if "write_block e b wt1 d1 = (ok, wt2, d2)" for e b wt1 d1 ok wt2 d2
    using that by (auto simp: write_block_def Let_def split: option.splits prod.splits if_splits)
  have fd: "wt_thread wt2 = wt_thread wt1" if "flush_due t b wt1 d1 = (wt2, d2)" for b wt1 d1 wt2 d2
    using that by (auto simp: flush_due_def Let_def split: option.splits prod.splits if_splits)
  show ?thesis
    using assms by (cases "q_items q")
      (auto simp: writer_iter_def popFor_def pop_def Let_def dest!: wb fd split: prod.splits if_splits)
qed

text \<open>The loop on a closed queue returns, whatever happens to the file.\<close>

lemma writer_loop_closed:
  assumes "closed q" and "settled ticks"
  shows "\<exists>wt' q' d'. writer_loop ticks i wt q d = Some (wt', q', d') \<and> closed q' \<and> wt_thread wt' = wt_thread wt"
  using assms(1)
proof (induction "length (q_items q)" arbitrary: i wt q d rule: less_induct)
  case less
  obtain go wt1 q1 d1 where it: "writer_iter (ticks i) wt q d = (go, wt1, q1, d1)" by (metis surj_pair)
  have "wk_queue (ticks i) q = q" using assms(2) less.prems by (simp add: settled_def)
  note st = writer_iter_closed [OF it this less.prems]
  show ?case
  proof (cases go)
    case True
    then obtain wt' q' d' where "writer_loop ticks (i + 1) wt1 q1 d1 = Some (wt', q', d')" "closed q'"
      "wt_thread wt' = wt_thread wt1" using less.hyps [of q1 "i + 1" wt1 d1] st by auto
    then show ?thesis using st True by (subst writer_loop.simps) (simp add: it)
  qed (use st in \<open>subst writer_loop.simps, simp add: it\<close>)
qed

lemma teardown_returns:
  assumes "settled ticks"
  shows "\<exists>wt' q' d'. teardownWriter ticks wt q d = Some (wt', q', d') \<and> \<not> wt_thread wt' \<and> closed q'"
proof -
  have q: "closed (close q)" by (simp add: close_def)
  obtain wt1 q1 d1 where "writer_loop ticks 0 wt (close q) d = Some (wt1, q1, d1)" "closed q1"
    using writer_loop_closed [OF q assms] by blast
  then have "\<exists>wt2 q2 d2. writer_join ticks wt (close q) d = Some (wt2, q2, d2) \<and> \<not> wt_thread wt2 \<and> closed q2"
    using q by (auto simp: writer_join_def)
  then obtain wt2 q2 d2 where j: "writer_join ticks wt (close q) d = Some (wt2, q2, d2)" "\<not> wt_thread wt2" "closed q2"
    by blast
  show ?thesis
  proof (cases "wt_writer wt2")
    case None
    then show ?thesis using j by (simp add: teardownWriter_def)
  next
    case (Some wr)
    then show ?thesis using j by (cases "writer_close wr d2") (simp add: teardownWriter_def)
  qed
qed


definition demo_tick :: WriterTick where
  "demo_tick = \<lparr> wk_queue = id, wk_epoch = 0, wk_now = 0, wk_flushed = 0 \<rparr>"

definition demo_thread :: WriterThread where
  "demo_thread =
     WriterThread_init\<lparr> wt_thread := True,
       wt_writer := Some ((RawFileWriter_new WriterConfig_init)\<lparr> wclosed := False,
         stream := \<lparr> st_path = Some ''run'', st_good = True \<rparr> \<rparr>) \<rparr>"

definition demo_open_disk :: Disk where
  "demo_open_disk = \<lparr> files = [''run'' \<mapsto> [9]], opened = [''run''], io_calls = 0, faults = (\<lambda>_. None) \<rparr>"

definition demo_queue :: BlockQueue where
  "demo_queue = (BlockQueue_new 8)\<lparr> q_items := [Some [1, 2], Some [3]] \<rparr>"


end
