(* ===== verification/Clock_Sync.thy ===== *)
theory Clock_Sync
  imports Board_Model
begin

text \<open>
  \<open>ClockSync\<close>: the order of the clock chain and the re-align procedure. The boards are reached
  only through read/write callbacks; \<open>'w\<close> is whatever those callbacks and the passing of time
  act on (the boards, the wires). A callback may be empty (\<open>None\<close>). The polling loop has no
  structural bound, so it is a \<^theory_text>\<open>partial_function\<close>; that it returns is proved.
  Log lines are not modelled, the reason they report is.
\<close>

section \<open>Registers\<close>

definition kRegSoftwareClockSync :: u32 where "kRegSoftwareClockSync = 0x813C"
definition kRegAcquisitionStatus :: u32 where "kRegAcquisitionStatus = 0x8104"
definition kRegVmeStatus :: u32 where "kRegVmeStatus = 0xEF04"
definition kRegAcqControl :: u32 where "kRegAcqControl = 0x8100"
definition kAcqStatusExternalClock :: u32 where "kAcqStatusExternalClock = push_bit 5 1"
definition kAcqStatusNoPllUnlock :: u32 where "kAcqStatusNoPllUnlock = push_bit 7 1"
definition kAcqStatusBoardReady :: u32 where "kAcqStatusBoardReady = push_bit 8 1"
definition kAcqControlExternalClock :: u32 where "kAcqControlExternalClock = push_bit 6 1"

section \<open>The chain\<close>

definition external_clock :: "u32 \<Rightarrow> bool" where
  "external_clock acq \<longleftrightarrow> acq AND kAcqControlExternalClock \<noteq> 0"

definition clockChainOrder :: "u32 list \<Rightarrow> int \<Rightarrow> nat list" where
  "clockChainOrder acq masterIndex =
     (if \<not> list_ex external_clock acq then []
      else let haveMaster = (masterIndex \<ge> 0 \<and> nat masterIndex < length acq)
           in (if haveMaster then [nat masterIndex] else []) @
              filter (\<lambda>i. \<not> (haveMaster \<and> i = nat masterIndex) \<and> external_clock (acq ! i))
                [0..<length acq])"

text \<open>
  C20. The clock chain is the right one: it is empty exactly when no board takes an external
  clock; otherwise it lists, each board once, the valid master first and then, in board order,
  exactly the other boards whose Acquisition Control selects the external clock.
\<close>

theorem clock_chain_order:
  "(clockChainOrder acq m = [] \<longleftrightarrow> \<not> list_ex external_clock acq) \<and>
   distinct (clockChainOrder acq m) \<and>
   (let valid = (0 \<le> m \<and> nat m < length acq); rest = (if valid then tl else id) (clockChainOrder acq m)
    in list_ex external_clock acq \<longrightarrow>
       (valid \<longrightarrow> hd (clockChainOrder acq m) = nat m) \<and> sorted rest \<and>
       set rest = {i. i < length acq \<and> external_clock (acq ! i) \<and> \<not> (valid \<and> i = nat m)})"
proof -
  have ex: "list_ex external_clock acq \<longleftrightarrow> (\<exists>i < length acq. external_clock (acq ! i))"
    by (metis list_ex_iff in_set_conv_nth)
  have s: "sorted (filter P [0..<n])" for P and n :: nat by (simp add: sorted_wrt_filter)
  show ?thesis
    by (auto simp: clockChainOrder_def Let_def ex s filter_empty_conv)
qed

theorem clock_chain_order_witness:
  "let acq = [0, kAcqControlExternalClock, 0, kAcqControlExternalClock]
   in list_ex external_clock acq \<and> hd (clockChainOrder acq 0) = 0 \<and> set (tl (clockChainOrder acq 0)) = {1, 3}"
proof -
  let ?acq = "[0, kAcqControlExternalClock, 0, kAcqControlExternalClock] :: u32 list"
  have e: "external_clock kAcqControlExternalClock" "\<not> external_clock 0"
    by (simp_all add: external_clock_def kAcqControlExternalClock_def)
  then have ex: "list_ex external_clock ?acq" by simp
  have lt: "i < length ?acq \<longleftrightarrow> i = 0 \<or> i = 1 \<or> i = 2 \<or> i = 3" for i by (simp, linarith)
  have "{i. i < length ?acq \<and> external_clock (?acq ! i) \<and> i \<noteq> 0} = {1, 3}"
    unfolding lt by (rule set_eqI) (auto simp: e)
  then show ?thesis
    using clock_chain_order [of ?acq 0] ex by (simp add: Let_def e)
qed

section \<open>The procedure\<close>

record 'w ChainBoard =
  cb_name :: string
  cb_master :: bool
  cb_write :: "(u32 \<Rightarrow> u32 \<Rightarrow> 'w \<Rightarrow> bool \<times> 'w) option"
  cb_read :: "(u32 \<Rightarrow> 'w \<Rightarrow> u32 option \<times> 'w) option"

record 'w ClockSyncOptions =
  settleMs :: int
  readyTimeoutMs :: int
  pollMs :: int
  stableMs :: int
  sleep :: "int \<Rightarrow> 'w \<Rightarrow> 'w"

definition ClockSyncOptions_default :: "(int \<Rightarrow> 'w \<Rightarrow> 'w) \<Rightarrow> 'w ClockSyncOptions" where
  "ClockSyncOptions_default sl =
     \<lparr> settleMs = 300, readyTimeoutMs = 2000, pollMs = 50, stableMs = 200, sleep = sl \<rparr>"

record ClockLockState =
  ls_name :: string
  ls_master :: bool
  synced :: bool
  statusRead :: bool
  ls_ready :: bool
  ls_stable :: bool
  ls_external :: bool

definition lock_ok :: "ClockLockState \<Rightarrow> bool" where
  "lock_ok s \<longleftrightarrow> synced s \<and> statusRead s \<and> ls_ready s \<and> ls_stable s \<and> (ls_master s \<or> ls_external s)"

definition initial_state :: "'w ChainBoard \<Rightarrow> ClockLockState" where
  "initial_state b =
     \<lparr> ls_name = cb_name b, ls_master = cb_master b, synced = False, statusRead = False,
       ls_ready = False, ls_stable = False, ls_external = False \<rparr>"

text \<open>Phase 1, one board: the re-align command, then the settling time.\<close>

definition realign :: "'w ClockSyncOptions \<Rightarrow> 'w ChainBoard \<Rightarrow> 'w \<Rightarrow> bool \<times> 'w" where
  "realign opts b w =
     (let (r, w) = (case cb_write b of None \<Rightarrow> (False, w) | Some wr \<Rightarrow> wr kRegSoftwareClockSync 1 w)
      in (r, sleep opts (settleMs opts) w))"

fun realign_all ::
  "'w ClockSyncOptions \<Rightarrow> ('w ChainBoard \<times> ClockLockState) list \<Rightarrow> 'w \<Rightarrow> ClockLockState list \<times> 'w" where
  "realign_all opts [] w = ([], w)"
| "realign_all opts ((b, s) # bs) w =
     (let (r, w) = realign opts b w; (ss, w) = realign_all opts bs w
      in (s\<lparr> synced := r \<rparr> # ss, w))"

text \<open>Phase 2: poll the acquisition status until Board Ready or the timeout.\<close>

partial_function (option) wait_ready ::
  "'w ClockSyncOptions \<Rightarrow> (u32 \<Rightarrow> 'w \<Rightarrow> u32 option \<times> 'w) \<Rightarrow> int \<Rightarrow> bool \<Rightarrow> u32 \<Rightarrow> 'w
     \<Rightarrow> (bool \<times> u32 \<times> 'w) option" where
  "wait_ready opts rdf waited got status w =
     (let (r, w) = rdf kRegAcquisitionStatus w;
          got = (r \<noteq> None \<or> got);
          status = (case r of Some v \<Rightarrow> v | None \<Rightarrow> status)
      in if r \<noteq> None \<and> status AND kAcqStatusBoardReady \<noteq> 0 then Some (got, status, w)
         else if waited \<ge> readyTimeoutMs opts then Some (got, status, w)
         else wait_ready opts rdf (waited + pollMs opts) got status (sleep opts (pollMs opts) w))"

definition check_lock ::
  "'w ClockSyncOptions \<Rightarrow> 'w ChainBoard \<Rightarrow> ClockLockState \<Rightarrow> 'w \<Rightarrow> (ClockLockState \<times> 'w) option" where
  "check_lock opts b s w =
     (case cb_read b of
        None \<Rightarrow> Some (s, w)
      | Some rdf \<Rightarrow> do {
          (got, status, w) \<leftarrow> wait_ready opts rdf 0 (statusRead s) 0 w;
          let s = s\<lparr> statusRead := got \<rparr>;
          if \<not> got then Some (s, w)
          else let s = s\<lparr> ls_ready := (status AND kAcqStatusBoardReady \<noteq> 0) \<rparr>;
                   w = snd (rdf kRegVmeStatus w);
                   w = sleep opts (stableMs opts) w;
                   (r, w) = rdf kRegAcquisitionStatus w
               in Some (case r of
                          Some status \<Rightarrow>
                            s\<lparr> ls_ready := (status AND kAcqStatusBoardReady \<noteq> 0),
                               ls_stable := (status AND kAcqStatusNoPllUnlock \<noteq> 0),
                               ls_external := (status AND kAcqStatusExternalClock \<noteq> 0) \<rparr>
                        | None \<Rightarrow> s\<lparr> statusRead := False \<rparr>, w)
        })"

fun check_all ::
  "'w ClockSyncOptions \<Rightarrow> ('w ChainBoard \<times> ClockLockState) list \<Rightarrow> 'w
     \<Rightarrow> (ClockLockState list \<times> 'w) option" where
  "check_all opts [] w = Some ([], w)"
| "check_all opts ((b, s) # bs) w = do {
     (s, w) \<leftarrow> check_lock opts b s w;
     (ss, w) \<leftarrow> check_all opts bs w;
     Some (s # ss, w)
   }"

definition synchroniseClockChain ::
  "'w ChainBoard list \<Rightarrow> 'w ClockSyncOptions \<Rightarrow> 'w \<Rightarrow> (ClockLockState list \<times> 'w) option" where
  "synchroniseClockChain chain opts w =
     (let states = map initial_state chain in
      if chain = [] then Some (states, w)
      else let (states, w) = realign_all opts (zip chain states) w
           in check_all opts (zip chain states) w)"

text \<open>Phase 3: the reason given for a board that is not locked.\<close>

datatype LockFailure = NotRealigned | StatusUnreadable | NotOnClkIn | NotReady | LostLock

definition lock_failure :: "ClockLockState \<Rightarrow> LockFailure option" where
  "lock_failure s =
     (if lock_ok s then None
      else Some (if \<not> synced s then NotRealigned
                 else if \<not> statusRead s then StatusUnreadable
                 else if \<not> ls_master s \<and> \<not> ls_external s then NotOnClkIn
                 else if \<not> ls_ready s then NotReady
                 else LostLock))"

text \<open>
  The reported reason is the true one: a board is reported exactly when it fails the check,
  and ``lost lock'' is reported only for a board that accepted the command, was readable, is on
  the right clock and is ready, so that only its PLL window failed.
\<close>

theorem lock_failure_exact:
  "(lock_failure s = None \<longleftrightarrow> lock_ok s) \<and>
   (lock_failure s = Some LostLock \<longleftrightarrow>
      synced s \<and> statusRead s \<and> (ls_master s \<or> ls_external s) \<and> ls_ready s \<and> \<not> ls_stable s)"
  by (auto simp: lock_failure_def lock_ok_def)

section \<open>Termination\<close>

lemma wait_ready_total:
  assumes "0 < pollMs opts"
  shows "wait_ready opts rdf waited got status w \<noteq> None"
proof (induction "nat (readyTimeoutMs opts - waited)" arbitrary: waited got status w rule: less_induct)
  case less
  obtain r w' where r: "rdf kRegAcquisitionStatus w = (r, w')" by force
  show ?case
  proof (cases "waited \<ge> readyTimeoutMs opts")
    case True
    then show ?thesis by (subst wait_ready.simps) (simp add: r Let_def del: not_None_eq)
  next
    case False
    have "wait_ready opts rdf (waited + pollMs opts) g st v \<noteq> None" for g st v
      using assms False by (intro less) simp
    then show ?thesis by (subst wait_ready.simps) (simp add: r Let_def del: not_None_eq)
  qed
qed

lemma check_lock_total:
  assumes "0 < pollMs opts"
  shows "\<exists>s' w'. check_lock opts b s w = Some (s', w') \<and> ls_name s' = ls_name s \<and>
    ls_master s' = ls_master s \<and> synced s' = synced s"
proof (cases "cb_read b")
  case None
  then show ?thesis by (simp add: check_lock_def)
next
  case (Some rdf)
  obtain g st v where "wait_ready opts rdf 0 (statusRead s) 0 w = Some (g, st, v)"
    using wait_ready_total [OF assms] by (metis option.exhaust prod_cases3)
  then show ?thesis using Some
    by (auto simp: check_lock_def Let_def split: prod.splits option.splits)
qed

lemma check_all_total:
  assumes "0 < pollMs opts"
  shows "\<exists>ss w'. check_all opts bs w = Some (ss, w') \<and> map ls_name ss = map (ls_name \<circ> snd) bs \<and>
    map synced ss = map (synced \<circ> snd) bs"
proof (induction bs arbitrary: w)
  case (Cons p bs)
  obtain b s where b: "p = (b, s)" by force
  obtain s' w1 where 1: "check_lock opts b s w = Some (s', w1)" "ls_name s' = ls_name s" "synced s' = synced s"
    using check_lock_total [OF assms] by blast
  obtain ss w2 where 2: "check_all opts bs w1 = Some (ss, w2)" "map ls_name ss = map (ls_name \<circ> snd) bs"
    "map synced ss = map (synced \<circ> snd) bs" using Cons.IH by blast
  show ?case by (simp add: b 1 2)
qed simp

lemma realign_all_states:
  "map ls_name (fst (realign_all opts bs w)) = map (ls_name \<circ> snd) bs"
proof (induction bs arbitrary: w)
  case (Cons p bs)
  obtain b s where p: "p = (b, s)" by force
  obtain r w1 where 1: "realign opts b w = (r, w1)" by force
  obtain ss w2 where 2: "realign_all opts bs w1 = (ss, w2)" by force
  show ?case using Cons.IH [of w1] by (simp add: p 1 2)
qed simp

lemma synchronise_total:
  assumes "0 < pollMs opts"
  shows "\<exists>states w'. synchroniseClockChain chain opts w = Some (states, w') \<and>
    map ls_name states = map cb_name chain"
proof (cases "chain = []")
  case True
  then show ?thesis by (simp add: synchroniseClockChain_def)
next
  case False
  obtain ss w1 where r: "realign_all opts (zip chain (map initial_state chain)) w = (ss, w1)" by force
  have n: "map ls_name ss = map cb_name chain"
    using realign_all_states [of opts "zip chain (map initial_state chain)" w] r
    by (simp add: map_zip_map2 zip_map2 initial_state_def comp_def map2_map_map zip_same_conv_map)
  then have len: "length chain = length ss" by (metis length_map)
  obtain ss' w2 where "check_all opts (zip chain ss) w1 = Some (ss', w2)"
    "map ls_name ss' = map (ls_name \<circ> snd) (zip chain ss)"
    using check_all_total [OF assms] by blast
  then show ?thesis
    using False r n len by (simp add: synchroniseClockChain_def flip: map_map)
qed

text \<open>
  C19. The procedure always ends and reports every board: with a positive polling period,
  whatever the boards answer, it returns one state per board of the chain, in chain order and
  under the board's name.
\<close>

theorem synchronise_returns:
  assumes "0 < pollMs opts"
  shows "\<exists>states w'. synchroniseClockChain chain opts w = Some (states, w') \<and>
    map ls_name states = map cb_name chain"
  by (rule synchronise_total [OF assms])

theorem synchronise_returns_witness:
  "\<exists>states w'. synchroniseClockChain
     [\<lparr> cb_name = ''b0'', cb_master = True, cb_write = None, cb_read = Some (\<lambda>_ w. (None, w)) \<rparr>]
     (ClockSyncOptions_default (\<lambda>ms w. w + ms)) 0 = Some (states, w') \<and> map ls_name states = [''b0'']"
  using synchronise_returns [of "ClockSyncOptions_default (\<lambda>ms w. w + ms)"
      "[\<lparr> cb_name = ''b0'', cb_master = True, cb_write = None, cb_read = Some (\<lambda>_ w. (None, w)) \<rparr>]" 0]
  by (simp add: ClockSyncOptions_default_def)

section \<open>Footprint\<close>

text \<open>
  Whatever may be said of each access and each wait, and composes, holds of the whole procedure:
  \<open>R\<close> relates the world before to the world after.
\<close>

locale footprint =
  fixes R :: "'w \<Rightarrow> 'w \<Rightarrow> bool"
  assumes same: "R w w" and compose: "R u v \<Longrightarrow> R v w \<Longrightarrow> R u w"
begin

lemma wait_ready_within:
  assumes "wait_ready opts rdf waited got status v = Some y"
    and "\<And>a w. R w (snd (rdf a w))" and "\<And>ms w. R w (sleep opts ms w)"
  shows "R v (snd (snd y))"
proof -
  have "(\<forall>a w. R w (snd (rdf a w))) \<longrightarrow> (\<forall>ms w. R w (sleep opts ms w)) \<longrightarrow> R v (snd (snd y))"
  proof (rule wait_ready.raw_induct [where P = "\<lambda>opts rdf _ _ _ v y. (\<forall>a w. R w (snd (rdf a w))) \<longrightarrow>
      (\<forall>ms w. R w (sleep opts ms w)) \<longrightarrow> R v (snd (snd y))", OF _ assms(1)], goal_cases)
    case (1 f opts rdf waited got status v y)
    show ?case
    proof (intro impI)
      assume r: "\<forall>a w. R w (snd (rdf a w))" and s: "\<forall>ms w. R w (sleep opts ms w)"
      obtain x v1 where x: "rdf kRegAcquisitionStatus v = (x, v1)" by (metis surj_pair)
      then have v1: "R v v1" using r by (metis snd_conv)
      from 1(2) x consider "snd (snd y) = v1"
        | g st where "f opts rdf (waited + pollMs opts) g st (sleep opts (pollMs opts) v1) = Some y"
        by (auto simp: Let_def split: if_splits)
      then show "R v (snd (snd y))"
      proof cases
        case 2
        with 1(1) r s have "R (sleep opts (pollMs opts) v1) (snd (snd y))" by blast
        then show ?thesis using compose [OF v1] compose s by blast
      qed (simp add: v1)
    qed
  qed
  then show ?thesis using assms by blast
qed

lemma check_lock_within:
  assumes "check_lock opts b s w = Some (s', w')"
    and "\<And>rdf a w. cb_read b = Some rdf \<Longrightarrow> R w (snd (rdf a w))" and "\<And>ms w. R w (sleep opts ms w)"
  shows "R w w'"
proof (cases "cb_read b")
  case None
  then show ?thesis using assms(1) same by (simp add: check_lock_def)
next
  case (Some rdf)
  from assms(1) obtain g st w1 where wr: "wait_ready opts rdf 0 (statusRead s) 0 w = Some (g, st, w1)"
    by (auto simp: check_lock_def Some bind_eq_Some_conv)
  have w1: "R w w1" using wait_ready_within [OF wr assms(2) [OF Some] assms(3)] by simp
  show ?thesis
  proof (cases g)
    case True
    let ?w2 = "snd (rdf kRegVmeStatus w1)"
    let ?w3 = "sleep opts (stableMs opts) ?w2"
    have "w' = snd (rdf kRegAcquisitionStatus ?w3)"
      using assms(1) True by (auto simp: check_lock_def Some wr Let_def split: prod.splits)
    moreover have "R w1 ?w2" "R ?w2 ?w3" "R ?w3 (snd (rdf kRegAcquisitionStatus ?w3))"
      using assms(2) [OF Some] assms(3) by blast+
    ultimately show ?thesis using w1 compose by blast
  qed (use assms(1) w1 in \<open>simp add: check_lock_def Some wr\<close>)
qed

lemma check_all_within:
  assumes "check_all opts bs w = Some (ss, w')"
    and "\<And>p rdf a w. p \<in> set bs \<Longrightarrow> cb_read (fst p) = Some rdf \<Longrightarrow> R w (snd (rdf a w))"
    and "\<And>ms w. R w (sleep opts ms w)"
  shows "R w w'"
  using assms(1,2)
proof (induction bs arbitrary: w ss)
  case (Cons p bs)
  obtain b s where p: "p = (b, s)" by force
  from Cons.prems(1) obtain s1 w1 ss1 where
    1: "check_lock opts b s w = Some (s1, w1)" "check_all opts bs w1 = Some (ss1, w')"
    by (auto simp: p bind_eq_Some_conv)
  have "R w w1" using check_lock_within [OF 1(1) _ assms(3)] Cons.prems(2) [of p] by (simp add: p)
  moreover have "R w1 w'" by (rule Cons.IH [OF 1(2)]) (rule Cons.prems(2), simp_all)
  ultimately show ?case by (rule compose)
qed (simp add: same)

lemma realign_all_within:
  assumes "realign_all opts bs w = (ss, w')"
    and "\<And>p wr a v w. p \<in> set bs \<Longrightarrow> cb_write (fst p) = Some wr \<Longrightarrow> R w (snd (wr a v w))"
    and "\<And>ms w. R w (sleep opts ms w)"
  shows "R w w'"
  using assms(1,2)
proof (induction bs arbitrary: w ss)
  case (Cons p bs)
  obtain b s where p: "p = (b, s)" by force
  obtain r w1 where 1: "realign opts b w = (r, w1)" by force
  obtain ss1 where 2: "realign_all opts bs w1 = (ss1, w')"
    using Cons.prems(1) by (auto simp: p 1 split: prod.splits)
  obtain x u where x: "(case cb_write b of None \<Rightarrow> (False, w) | Some wr \<Rightarrow> wr kRegSoftwareClockSync 1 w) = (x, u)"
    by (metis surj_pair)
  have u: "R w u"
  proof (cases "cb_write b")
    case (Some wr)
    then show ?thesis using x Cons.prems(2) [of p wr w kRegSoftwareClockSync 1] by (simp add: p)
  qed (use x same in simp)
  moreover have "w1 = sleep opts (settleMs opts) u" using 1 x by (simp add: realign_def)
  ultimately have "R w w1" using assms(3) compose by blast
  moreover have "R w1 w'" by (rule Cons.IH [OF 2]) (rule Cons.prems(2), simp_all)
  ultimately show ?case by (rule compose)
qed (simp add: same)

lemma synchronise_within:
  assumes "synchroniseClockChain chain opts w = Some (ss, w')"
    and "\<And>b wr a v w. b \<in> set chain \<Longrightarrow> cb_write b = Some wr \<Longrightarrow> R w (snd (wr a v w))"
    and "\<And>b rdf a w. b \<in> set chain \<Longrightarrow> cb_read b = Some rdf \<Longrightarrow> R w (snd (rdf a w))"
    and "\<And>ms w. R w (sleep opts ms w)"
  shows "R w w'"
proof (cases "chain = []")
  case True
  then show ?thesis using assms(1) same by (simp add: synchroniseClockChain_def)
next
  case False
  obtain ss1 w1 where r: "realign_all opts (zip chain (map initial_state chain)) w = (ss1, w1)" by (metis surj_pair)
  then have c: "check_all opts (zip chain ss1) w1 = Some (ss, w')"
    using assms(1) False by (simp add: synchroniseClockChain_def)
  have "R w w1" by (rule realign_all_within [OF r]) (auto dest: set_zip_leftD intro: assms(2,4))
  moreover have "R w1 w'" by (rule check_all_within [OF c]) (auto dest: set_zip_leftD intro: assms(3,4))
  ultimately show ?thesis by (rule compose)
qed

end

section \<open>What the procedure does on the bus\<close>

text \<open>
  The same callbacks with every access and wait recorded in front of the world they act on.
\<close>

datatype bus_event = BusWrite nat u32 u32 | BusRead nat u32 | BusSleep int

definition logged :: "nat \<Rightarrow> 'h ChainBoard \<Rightarrow> (bus_event list \<times> 'h) ChainBoard" where
  "logged i b =
     \<lparr> cb_name = cb_name b, cb_master = cb_master b,
       cb_write = map_option (\<lambda>wr a v w.
         (let (r, h) = wr a v (snd w) in (r, (fst w @ [BusWrite i a v], h)))) (cb_write b),
       cb_read = map_option (\<lambda>rdf a w.
         (let (r, h) = rdf a (snd w) in (r, (fst w @ [BusRead i a], h)))) (cb_read b) \<rparr>"

definition logged_opts :: "'h ClockSyncOptions \<Rightarrow> (bus_event list \<times> 'h) ClockSyncOptions" where
  "logged_opts opts =
     \<lparr> settleMs = settleMs opts, readyTimeoutMs = readyTimeoutMs opts, pollMs = pollMs opts,
       stableMs = stableMs opts, sleep = (\<lambda>ms w. (fst w @ [BusSleep ms], sleep opts ms (snd w))) \<rparr>"

fun is_write :: "bus_event \<Rightarrow> bool" where
  "is_write (BusWrite i a v) = True"
| "is_write _ = False"

definition reads_only :: "bus_event list \<Rightarrow> bus_event list \<Rightarrow> bool" where
  "reads_only l l' \<longleftrightarrow> (\<exists>r. l' = l @ r \<and> filter is_write r = [])"

lemma reads_only_refl [simp]: "reads_only l l"
  by (simp add: reads_only_def)

lemma reads_only_trans: "reads_only a b \<Longrightarrow> reads_only b c \<Longrightarrow> reads_only a c"
  by (auto simp: reads_only_def)

lemma reads_only_snoc [simp]:
  "reads_only l (l @ [BusRead i a])" "reads_only l (l @ [BusSleep ms])"
  by (auto simp: reads_only_def)

interpretation bus_reads: footprint "\<lambda>w w' :: bus_event list \<times> 'h. reads_only (fst w) (fst w')"
  by unfold_locales (auto intro: reads_only_trans)

lemma check_all_reads_only:
  assumes "check_all (logged_opts opts) bs w = Some (ss, w')"
    and "\<forall>p \<in> set bs. \<exists>i b. fst p = logged i b"
  shows "reads_only (fst w) (fst w')"
proof (rule bus_reads.check_all_within [OF assms(1)])
  fix p rdf a and v :: "bus_event list \<times> 'a"
  assume "p \<in> set bs" "cb_read (fst p) = Some rdf"
  then show "reads_only (fst v) (fst (snd (rdf a v)))"
    using assms(2) by (fastforce simp: logged_def split: prod.splits)
qed (simp add: logged_opts_def)

lemma realign_all_log:
  assumes "realign_all (logged_opts opts) (zip (map2 logged [k..<k + length bs] bs) ss) w = (ss', w')"
    and "length ss = length bs" and "\<forall>b \<in> set bs. cb_write b \<noteq> None"
  shows "fst w' = fst w @ concat (map (\<lambda>i. [BusWrite i kRegSoftwareClockSync 1, BusSleep (settleMs opts)])
      [k..<k + length bs])"
  using assms
proof (induction bs arbitrary: k ss ss' w)
  case (Cons b bs)
  obtain s ss1 where ss: "ss = s # ss1" using Cons.prems(2) by (cases ss) auto
  have upt: "[k..<k + length (b # bs)] = k # [Suc k..<Suc k + length bs]"
    by (simp add: upt_conv_Cons del: upt_Suc)
  obtain wr where wr: "cb_write b = Some wr" using Cons.prems(3) by auto
  let ?w1 = "snd (realign (logged_opts opts) (logged k b) w)"
  have w1: "fst ?w1 = fst w @ [BusWrite k kRegSoftwareClockSync 1, BusSleep (settleMs opts)]"
    by (simp add: realign_def logged_def wr logged_opts_def Let_def split: prod.splits)
  obtain ss2 where "realign_all (logged_opts opts) (zip (map2 logged [Suc k..<Suc k + length bs] bs) ss1) ?w1
      = (ss2, w')"
    using Cons.prems(1) unfolding ss upt by (auto split: prod.splits)
  from Cons.IH [OF this] Cons.prems ss show ?case
    unfolding upt by (simp add: w1)
qed simp

text \<open>
  C18. The re-align commands are issued in chain order and before anything is checked: on the
  bus, the procedure first writes 0x813C once to each board, first to last, each followed by
  the settling time, and from then on only reads and waits.
\<close>

theorem realign_in_chain_order:
  assumes "synchroniseClockChain (map2 logged [0..<length bs] bs) (logged_opts opts) ([], h) = Some (ss, (l, h'))"
    and "\<forall>b \<in> set bs. cb_write b \<noteq> None"
  shows "\<exists>rest. l = concat (map (\<lambda>i. [BusWrite i kRegSoftwareClockSync 1, BusSleep (settleMs opts)])
      [0..<length bs]) @ rest \<and> filter is_write rest = []"
proof (cases "bs = []")
  case True
  then show ?thesis using assms(1) by (simp add: synchroniseClockChain_def)
next
  case False
  let ?chain = "map2 logged [0..<length bs] bs"
  let ?st = "map initial_state ?chain"
  obtain ss1 w1 where r: "realign_all (logged_opts opts) (zip ?chain ?st) ([], h) = (ss1, w1)" by (metis surj_pair)
  have w1: "fst w1 = concat (map (\<lambda>i. [BusWrite i kRegSoftwareClockSync 1, BusSleep (settleMs opts)])
      [0..<length bs])"
    using realign_all_log [of opts 0 bs ?st "([], h)" ss1 w1] r assms(2) by simp
  have "?chain \<noteq> []" using False by (metis length_0_conv length_map length_zip length_upt min.idem diff_zero)
  then have "check_all (logged_opts opts) (zip ?chain ss1) w1 = Some (ss, (l, h'))"
    using assms(1) r by (simp add: synchroniseClockChain_def)
  moreover have "\<forall>p \<in> set (zip ?chain ss1). \<exists>i b. fst p = logged i b"
    by (auto dest!: set_zip_leftD) blast
  ultimately have "reads_only (fst w1) l"
    using check_all_reads_only by (metis fst_conv)
  then show ?thesis by (auto simp: reads_only_def w1)
qed

theorem realign_in_chain_order_witness:
  "\<exists>ss l h' rest. synchroniseClockChain (map2 logged [0..<2]
       [\<lparr> cb_name = ''b0'', cb_master = True, cb_write = Some (\<lambda>_ _ h. (True, h)), cb_read = None \<rparr>,
        \<lparr> cb_name = ''b1'', cb_master = False, cb_write = Some (\<lambda>_ _ h. (False, h)), cb_read = None \<rparr>])
     (logged_opts (ClockSyncOptions_default (\<lambda>ms h. h + ms))) ([], 0) = Some (ss, (l, h')) \<and>
     l = [BusWrite 0 kRegSoftwareClockSync 1, BusSleep 300, BusWrite 1 kRegSoftwareClockSync 1, BusSleep 300] @ rest"
proof -
  let ?bs = "[\<lparr> cb_name = ''b0'', cb_master = True, cb_write = Some (\<lambda>_ _ h. (True, h)), cb_read = None \<rparr>,
        \<lparr> cb_name = ''b1'', cb_master = False, cb_write = Some (\<lambda>_ _ h. (False, h)), cb_read = None \<rparr>]
        :: int ChainBoard list"
  let ?o = "ClockSyncOptions_default (\<lambda>ms h. h + ms) :: int ClockSyncOptions"
  have "0 < pollMs (logged_opts ?o)" by (simp add: logged_opts_def ClockSyncOptions_default_def)
  then obtain ss l h' where s: "synchroniseClockChain (map2 logged [0..<length ?bs] ?bs) (logged_opts ?o) ([], 0)
      = Some (ss, (l, h'))"
    using synchronise_total by (metis surj_pair)
  from realign_in_chain_order [OF s] show ?thesis
    using s by (auto simp: ClockSyncOptions_default_def numeral_2_eq_2)
qed

end
