(* ===== verification/Graphite_Client.thy ===== *)
theory Graphite_Client
  imports Prelude
begin

text \<open>
  \<open>GraphiteClient\<close>: best-effort delivery of metric lines to a Carbon server, on the POSIX
  branch of the sources. The operating system is a record of calls on the world \<open>'n\<close>, free to
  answer anything; durations are in milliseconds, the readings of the steady clock in nanoseconds.
  Log lines are not modelled, the flag that decides them is. The Windows branch is not modelled.
\<close>

section \<open>The operating system\<close>

datatype connect_result = ConnectDone | ConnectInProgress | ConnectFailed

text \<open>\<open>poll\<close> on one descriptor: interrupted, failed, timed out, or an event, writable or not.\<close>

datatype poll_result = PollInterrupted | PollFailed | PollTimeout | PollEvent bool

text \<open>\<open>send\<close>: how many bytes went out, or a failure, which may be a timeout.\<close>

datatype send_result = SentBytes nat | SendFailed bool

record 'n Net =
  net_now :: "'n \<Rightarrow> int \<times> 'n"
  net_getaddrinfo :: "string \<Rightarrow> string \<Rightarrow> 'n \<Rightarrow> bool \<times> 'n"
  net_socket :: "'n \<Rightarrow> int \<times> 'n"
  net_getfl :: "int \<Rightarrow> 'n \<Rightarrow> int \<times> 'n"
  net_setfl :: "int \<Rightarrow> int \<Rightarrow> 'n \<Rightarrow> bool \<times> 'n"
  net_connect :: "int \<Rightarrow> 'n \<Rightarrow> connect_result \<times> 'n"
  net_poll :: "int \<Rightarrow> int \<Rightarrow> 'n \<Rightarrow> poll_result \<times> 'n"
  net_sockerr :: "int \<Rightarrow> 'n \<Rightarrow> int option \<times> 'n"
  net_sndtimeo :: "int \<Rightarrow> int \<Rightarrow> 'n \<Rightarrow> 'n"
  net_send :: "int \<Rightarrow> string \<Rightarrow> 'n \<Rightarrow> send_result \<times> 'n"
  net_close :: "int \<Rightarrow> 'n \<Rightarrow> 'n"

definition kONonBlock :: int where "kONonBlock = 2048"

text \<open>False if the mode could not be set; nothing is written when the flags cannot be read.\<close>

definition setNonBlocking :: "'n Net \<Rightarrow> int \<Rightarrow> bool \<Rightarrow> 'n \<Rightarrow> bool \<times> 'n" where
  "setNonBlocking net s nb n =
     (let (flags, n) = net_getfl net s n in
      if flags < 0 then (False, n)
      else net_setfl net s (if nb then flags OR kONonBlock else flags AND NOT kONonBlock) n)"

text \<open>Retried while a signal interrupts it, each time with the whole timeout.\<close>

partial_function (option) waitWritable :: "'n Net \<Rightarrow> int \<Rightarrow> int \<Rightarrow> 'n \<Rightarrow> (int \<times> 'n) option" where
  "waitWritable net s timeoutMs n =
     (case net_poll net s timeoutMs n of
        (PollInterrupted, n) \<Rightarrow> waitWritable net s timeoutMs n
      | (PollFailed, n) \<Rightarrow> Some (- 1, n)
      | (PollTimeout, n) \<Rightarrow> Some (0, n)
      | (PollEvent writable, n) \<Rightarrow> Some (if writable then 1 else - 1, n))"

section \<open>The client\<close>

definition kDefaultConnectTimeoutMs :: int where "kDefaultConnectTimeoutMs = 200"
definition kDefaultSendTimeoutMs :: int where "kDefaultSendTimeoutMs = 200"
definition kRetryInitial :: int where "kRetryInitial = 1000"
definition kRetryMax :: int where "kRetryMax = 30000"

record GraphiteClient =
  gc_host :: string
  gc_port :: int
  connectTimeoutMs :: int
  sendTimeoutMs :: int
  gc_fd :: int
  nextAttempt :: int
  retryDelay :: int
  gc_warned :: bool

definition GraphiteClient_new :: "string \<Rightarrow> int \<Rightarrow> int \<Rightarrow> int \<Rightarrow> GraphiteClient" where
  "GraphiteClient_new host port ct st =
     \<lparr> gc_host = host, gc_port = port,
       connectTimeoutMs = (if ct > 0 then ct else kDefaultConnectTimeoutMs),
       sendTimeoutMs = (if st > 0 then st else kDefaultSendTimeoutMs),
       gc_fd = - 1, nextAttempt = 0, retryDelay = 0, gc_warned = False \<rparr>"

definition gc_enabled :: "GraphiteClient \<Rightarrow> bool" where
  "gc_enabled g \<longleftrightarrow> gc_host g \<noteq> '''' \<and> gc_port g > 0"

definition closeSocket :: "'n Net \<Rightarrow> GraphiteClient \<Rightarrow> 'n \<Rightarrow> GraphiteClient \<times> 'n" where
  "closeSocket net g n =
     (if gc_fd g = - 1 then (g, n) else (g\<lparr> gc_fd := - 1 \<rparr>, net_close net (gc_fd g) n))"

definition backingOff :: "'n Net \<Rightarrow> GraphiteClient \<Rightarrow> 'n \<Rightarrow> bool \<times> 'n" where
  "backingOff net g n =
     (if retryDelay g > 0 then let (now, n) = net_now net n in (now < nextAttempt g, n) else (False, n))"

definition nextDelay :: "int \<Rightarrow> int" where
  "nextDelay d = (if d = 0 then kRetryInitial else min (d * 2) kRetryMax)"

definition noteFailure :: "'n Net \<Rightarrow> GraphiteClient \<Rightarrow> 'n \<Rightarrow> GraphiteClient \<times> 'n" where
  "noteFailure net g n =
     (let (g, n) = closeSocket net g n;
          g = g\<lparr> retryDelay := nextDelay (retryDelay g) \<rparr>;
          (now, n) = net_now net n
      in (g\<lparr> nextAttempt := now + retryDelay g * 1000000, gc_warned := True \<rparr>, n))"

definition noteSuccess :: "GraphiteClient \<Rightarrow> GraphiteClient" where
  "noteSuccess g = g\<lparr> gc_warned := False, retryDelay := 0, nextAttempt := 0 \<rparr>"

text \<open>Whether a started connection came up: at once, or within the timeout and without an error.\<close>

definition await_connect :: "'n Net \<Rightarrow> GraphiteClient \<Rightarrow> int \<Rightarrow> 'n \<Rightarrow> (bool \<times> 'n) option" where
  "await_connect net g s n =
     (case net_connect net s n of
        (ConnectDone, n) \<Rightarrow> Some (True, n)
      | (ConnectFailed, n) \<Rightarrow> Some (False, n)
      | (ConnectInProgress, n) \<Rightarrow> do {
          (r, n) \<leftarrow> waitWritable net s (connectTimeoutMs g) n;
          Some (if r = 1 then let (e, n) = net_sockerr net s n in (e = Some 0, n) else (False, n))
        })"

definition connectSocket :: "'n Net \<Rightarrow> GraphiteClient \<Rightarrow> 'n \<Rightarrow> (bool \<times> GraphiteClient \<times> 'n) option" where
  "connectSocket net g n =
     (if \<not> gc_enabled g then Some (False, g, n)
      else let (found, n) = net_getaddrinfo net (gc_host g) (nat_str (nat (gc_port g))) n in
      if \<not> found then Some (False, g, n)
      else let (s, n) = net_socket net n in
      if s = - 1 then Some (False, g, n)
      else let (ok, n) = setNonBlocking net s True n in
      if \<not> ok then Some (False, g, net_close net s n)
      else do {
        (connected, n) \<leftarrow> await_connect net g s n;
        if \<not> connected then Some (False, g, net_close net s n)
        else let (ok, n) = setNonBlocking net s False n in
        if \<not> ok then Some (False, g, net_close net s n)
        else Some (True, g\<lparr> gc_fd := s \<rparr>, net_sndtimeo net s (sendTimeoutMs g) n)
      })"

text \<open>The send loop: the rest of the payload until it is gone or a call brings nothing.\<close>

function send_all :: "'n Net \<Rightarrow> int \<Rightarrow> string \<Rightarrow> 'n \<Rightarrow> bool \<times> 'n" where
  "send_all net s data n =
     (if data = [] then (True, n)
      else case net_send net s data n of
             (SentBytes k, n) \<Rightarrow> if k = 0 then (False, n) else send_all net s (drop k data) n
           | (SendFailed timedOut, n) \<Rightarrow> (False, n))"
  by pat_completeness auto
termination by (relation "measure (\<lambda>(net, s, data, n). length data)") auto

declare send_all.simps [simp del]

definition gc_send :: "'n Net \<Rightarrow> string \<Rightarrow> GraphiteClient \<Rightarrow> 'n \<Rightarrow> (bool \<times> GraphiteClient \<times> 'n) option" where
  "gc_send net payload g n =
     (if \<not> gc_enabled g \<or> payload = '''' then Some (True, g, n)
      else let (off, n) = (if gc_fd g = - 1 then backingOff net g n else (False, n)) in
      if off then Some (False, g, n)
      else do {
        (up, g, n) \<leftarrow> (if gc_fd g = - 1 then connectSocket net g n else Some (True, g, n));
        if \<not> up then let (g, n) = noteFailure net g n in Some (False, g, n)
        else let (ok, n) = send_all net (gc_fd g) payload n in
             if ok then Some (True, noteSuccess g, n)
             else let (g, n) = noteFailure net g n in Some (False, g, n)
      })"

section \<open>Sockets and bytes\<close>

text \<open>The same calls, with the open descriptors and the bytes sent recorded beside the world.\<close>

type_synonym 'n audited = "int list \<times> string \<times> 'n"

definition beside :: "('n \<Rightarrow> 'r \<times> 'n) \<Rightarrow> 'n audited \<Rightarrow> 'r \<times> 'n audited" where
  "beside f w = (let (r, n) = f (snd (snd w)) in (r, (fst w, fst (snd w), n)))"

definition audit :: "'n Net \<Rightarrow> 'n audited Net" where
  "audit net =
     \<lparr> net_now = beside (net_now net),
       net_getaddrinfo = (\<lambda>h p. beside (net_getaddrinfo net h p)),
       net_socket = (\<lambda>w. let (s, w) = beside (net_socket net) w
                         in (s, if s = - 1 then w else (s # fst w, snd w))),
       net_getfl = (\<lambda>s. beside (net_getfl net s)),
       net_setfl = (\<lambda>s f. beside (net_setfl net s f)),
       net_connect = (\<lambda>s. beside (net_connect net s)),
       net_poll = (\<lambda>s ms. beside (net_poll net s ms)),
       net_sockerr = (\<lambda>s. beside (net_sockerr net s)),
       net_sndtimeo = (\<lambda>s ms w. (fst w, fst (snd w), net_sndtimeo net s ms (snd (snd w)))),
       net_send = (\<lambda>s data w. let (r, w) = beside (net_send net s data) w
                              in (r, (fst w, fst (snd w) @ (case r of SentBytes k \<Rightarrow> take k data | SendFailed _ \<Rightarrow> []),
                                      snd (snd w)))),
       net_close = (\<lambda>s w. (remove1 s (fst w), fst (snd w), net_close net s (snd (snd w)))) \<rparr>"

abbreviation fds :: "'n audited \<Rightarrow> int list" where "fds \<equiv> fst"
abbreviation sent :: "'n audited \<Rightarrow> string" where "sent w \<equiv> fst (snd w)"

lemma besideD: "beside f w = (r, w') \<Longrightarrow> fds w' = fds w \<and> sent w' = sent w"
  by (auto simp: beside_def Let_def split: prod.splits)

lemma audit_simps:
  "net_now (audit net) = beside (net_now net)"
  "net_getaddrinfo (audit net) h p = beside (net_getaddrinfo net h p)"
  "net_getfl (audit net) s = beside (net_getfl net s)"
  "net_setfl (audit net) s f = beside (net_setfl net s f)"
  "net_connect (audit net) s = beside (net_connect net s)"
  "net_poll (audit net) s ms = beside (net_poll net s ms)"
  "net_sockerr (audit net) s = beside (net_sockerr net s)"
  "fds (net_sndtimeo (audit net) s ms w) = fds w" "sent (net_sndtimeo (audit net) s ms w) = sent w"
  "fds (net_close (audit net) s w) = remove1 s (fds w)" "sent (net_close (audit net) s w) = sent w"
  by (simp_all add: audit_def)

lemma audit_socketD:
  "net_socket (audit net) w = (s, w') \<Longrightarrow> fds w' = (if s = - 1 then fds w else s # fds w) \<and> sent w' = sent w"
  by (auto simp: audit_def Let_def split: prod.splits if_splits dest!: besideD)

lemma audit_sendD:
  "net_send (audit net) s data w = (r, w') \<Longrightarrow> fds w' = fds w \<and>
     sent w' = sent w @ (case r of SentBytes k \<Rightarrow> take k data | SendFailed _ \<Rightarrow> [])"
  by (auto simp: audit_def Let_def split: prod.splits if_splits dest!: besideD)

text \<open>The descriptors the client holds.\<close>

definition owned :: "GraphiteClient \<Rightarrow> int list" where
  "owned g = (if gc_fd g = - 1 then [] else [gc_fd g])"

lemma setNonBlocking_audit:
  "setNonBlocking (audit net) s b w = (r, w') \<Longrightarrow> fds w' = fds w \<and> sent w' = sent w"
  by (auto simp: setNonBlocking_def audit_simps Let_def split: prod.splits if_splits dest!: besideD)

lemma waitWritable_audit:
  assumes "waitWritable (audit net) s ms w = Some y"
  shows "fds (snd y) = fds w \<and> sent (snd y) = sent w"
proof -
  have "waitWritable nt s ms w = Some y \<Longrightarrow> nt = audit net \<longrightarrow> fds (snd y) = fds w \<and> sent (snd y) = sent w" for nt
  proof (induction rule: waitWritable.raw_induct [rotated, consumes 1])
    case (1 wait nt s ms w y)
    then show ?case
      by (auto simp: audit_simps split: prod.splits poll_result.splits dest!: besideD)
  qed
  then show ?thesis using assms by blast
qed

lemma await_connect_audit:
  assumes "await_connect (audit net) g s w = Some (r, w')"
  shows "fds w' = fds w \<and> sent w' = sent w"
proof -
  have ww: "waitWritable (audit net) s ms v = Some (k, v') \<Longrightarrow> fds v' = fds v \<and> sent v' = sent v" for ms v k v'
    using waitWritable_audit [of net s ms v "(k, v')"] by simp
  show ?thesis
    using assms by (auto simp: await_connect_def audit_simps Let_def bind_eq_Some_conv
      split: prod.splits connect_result.splits if_splits dest!: besideD ww)
qed

lemma connectSocket_audit:
  assumes "connectSocket (audit net) g w = Some (r, g', w')" "gc_fd g = - 1" "fds w = []"
  shows "fds w' = owned g' \<and> sent w' = sent w \<and> (r \<longleftrightarrow> gc_fd g' \<noteq> - 1) \<and> g' = g\<lparr> gc_fd := gc_fd g' \<rparr>"
  using assms
  by (auto simp: connectSocket_def audit_simps owned_def Let_def bind_eq_Some_conv split: prod.splits if_splits
      dest!: besideD audit_socketD setNonBlocking_audit await_connect_audit)

lemma send_all_audit:
  assumes "send_all (audit net) s data w = (r, w')"
  shows "fds w' = fds w \<and> (\<exists>k. sent w' = sent w @ take k data) \<and> (r \<longrightarrow> sent w' = sent w @ data)"
  using assms
proof (induction "length data" arbitrary: data w r w' rule: less_induct)
  case less
  show ?case
  proof (cases "data = []")
    case True
    then show ?thesis using less.prems by (simp add: send_all.simps [of _ _ "[]"])
  next
    case False
    obtain res w1 where sd: "net_send (audit net) s data w = (res, w1)" by (cases "net_send (audit net) s data w")
    note a = audit_sendD [OF sd]
    show ?thesis
    proof (cases "\<exists>k. res = SentBytes k \<and> k \<noteq> 0")
      case True
      then obtain k where k: "res = SentBytes k" "k \<noteq> 0" by blast
      have lt: "length (drop k data) < length data" using k False by simp
      have "send_all (audit net) s (drop k data) w1 = (r, w')"
        using less.prems sd k False by (simp add: send_all.simps [of _ _ data])
      from less.hyps [OF lt this] obtain k' where k': "fds w' = fds w1"
        "sent w' = sent w1 @ take k' (drop k data)" "r \<longrightarrow> sent w' = sent w1 @ drop k data" by blast
      have "sent w' = sent w @ take (k + k') data" using k'(2) a k(1) by (simp add: take_add)
      then show ?thesis using k' a k(1) by auto
    next
      case no: False
      then have "r = False" "w' = w1" using less.prems sd False
        by (auto simp: send_all.simps [of _ _ data] split: send_result.splits if_splits)
      then show ?thesis using a no by (auto split: send_result.splits intro: exI [of _ 0])
    qed
  qed
qed

lemma noteFailure_audit:
  assumes "noteFailure (audit net) g w = (g', w')" "fds w = owned g"
  shows "fds w' = [] \<and> sent w' = sent w \<and> gc_fd g' = - 1 \<and> retryDelay g' = nextDelay (retryDelay g) \<and>
    gc_host g' = gc_host g \<and> gc_port g' = gc_port g"
  using assms by (auto simp: noteFailure_def closeSocket_def audit_simps owned_def Let_def
      split: prod.splits if_splits dest!: besideD)

text \<open>What one call of \<open>send\<close> does, in the terms of the audit.\<close>

lemma gc_send_audit:
  assumes "gc_send (audit net) payload g w = Some (r, g', w')" and "fds w = owned g"
  shows "fds w' = owned g' \<and> gc_host g' = gc_host g \<and> gc_port g' = gc_port g \<and>
    (\<exists>k. sent w' = sent w @ take k payload) \<and>
    (gc_enabled g \<and> r \<longrightarrow> sent w' = sent w @ payload) \<and>
    (gc_enabled g \<and> payload \<noteq> '''' \<longrightarrow>
       (if r then retryDelay g' = 0
        else if gc_fd g = - 1 \<and> fst (backingOff (audit net) g w) then g' = g
        else retryDelay g' = nextDelay (retryDelay g) \<and> gc_fd g' = - 1))"
proof (cases "\<not> gc_enabled g \<or> payload = ''''")
  case True
  then show ?thesis using assms by (auto simp: gc_send_def)
next
  case act: False
  obtain off w1 where bo: "(if gc_fd g = - 1 then backingOff (audit net) g w else (False, w)) = (off, w1)"
    by (metis surj_pair)
  have w1: "fds w1 = fds w" "sent w1 = sent w"
    using bo by (auto simp: backingOff_def audit_simps Let_def split: prod.splits if_splits dest!: besideD)
  show ?thesis
  proof (cases off)
    case True
    then have "gc_fd g = - 1" "fst (backingOff (audit net) g w)" using bo by (auto split: if_splits)
    then show ?thesis using assms act bo True w1 by (auto simp: gc_send_def intro: exI [of _ 0])
  next
    case off: False
    then have nb: "\<not> (gc_fd g = - 1 \<and> fst (backingOff (audit net) g w))" using bo by auto
    obtain up g1 w2 where cn: "(if gc_fd g = - 1 then connectSocket (audit net) g w1 else Some (True, g, w1)) =
        Some (up, g1, w2)"
      using assms(1) act bo off by (auto simp: gc_send_def bind_eq_Some_conv)
    have g1: "fds w2 = owned g1 \<and> sent w2 = sent w1 \<and> g1 = g\<lparr> gc_fd := gc_fd g1 \<rparr>"
      using cn connectSocket_audit [of net g w1 up g1 w2] w1 assms(2)
      by (auto simp: owned_def split: if_splits)
    then obtain c where "g1 = g\<lparr> gc_fd := c \<rparr>" by blast
    then have keep: "gc_host g1 = gc_host g" "gc_port g1 = gc_port g" "retryDelay g1 = retryDelay g"
      by simp_all
    show ?thesis
    proof (cases up)
      case False
      then have "noteFailure (audit net) g1 w2 = (g', w') \<and> \<not> r"
        using assms(1) act bo off cn by (auto simp: gc_send_def split: prod.splits)
      with noteFailure_audit [of net g1 w2 g' w'] g1 keep w1 nb show ?thesis
        by (auto simp: owned_def intro: exI [of _ 0])
    next
      case True
      obtain ok w3 where sa: "send_all (audit net) (gc_fd g1) payload w2 = (ok, w3)" by (metis surj_pair)
      note s = send_all_audit [OF sa]
      show ?thesis
      proof (cases ok)
        case True
        then have "g' = noteSuccess g1" "w' = w3" "r"
          using assms(1) act bo off cn sa \<open>up\<close> by (auto simp: gc_send_def)
        then show ?thesis using s True g1 keep w1
          by (auto simp: owned_def noteSuccess_def intro: exI [of _ "length payload"])
      next
        case False
        then have "noteFailure (audit net) g1 w3 = (g', w') \<and> \<not> r"
          using assms(1) act bo off cn sa \<open>up\<close> by (auto simp: gc_send_def split: prod.splits)
        with noteFailure_audit [of net g1 w3 g' w'] s g1 keep w1 nb show ?thesis
          by (auto simp: owned_def)
      qed
    qed
  qed
qed

section \<open>Properties\<close>


text \<open>A server that takes two bytes at a time.\<close>

definition trickle :: "int Net" where
  "trickle =
     \<lparr> net_now = (\<lambda>n. (n, n)), net_getaddrinfo = (\<lambda>_ _ n. (True, n)), net_socket = (\<lambda>n. (3, n)),
       net_getfl = (\<lambda>_ n. (0, n)), net_setfl = (\<lambda>_ _ n. (True, n)), net_connect = (\<lambda>_ n. (ConnectDone, n)),
       net_poll = (\<lambda>_ _ n. (PollTimeout, n)), net_sockerr = (\<lambda>_ n. (None, n)), net_sndtimeo = (\<lambda>_ _ n. n),
       net_send = (\<lambda>_ _ n. (SentBytes 2, n)), net_close = (\<lambda>_ n. n) \<rparr>"


text \<open>A client over a sequence of calls, and how each of them went.\<close>

datatype send_event = Delivered | Skipped | Failed

fun gc_run :: "'n Net \<Rightarrow> string list \<Rightarrow> GraphiteClient \<Rightarrow> 'n \<Rightarrow> (send_event list \<times> GraphiteClient \<times> 'n) option" where
  "gc_run net [] g n = Some ([], g, n)"
| "gc_run net (p # ps) g n = do {
     let skip = (gc_fd g = - 1 \<and> fst (backingOff net g n));
     (r, g, n) \<leftarrow> gc_send net p g n;
     (es, g, n) \<leftarrow> gc_run net ps g n;
     Some ((if r then Delivered else if skip then Skipped else Failed) # es, g, n)
   }"

fun failures_from :: "nat \<Rightarrow> send_event list \<Rightarrow> nat" where
  "failures_from k [] = k"
| "failures_from k (Delivered # es) = failures_from 0 es"
| "failures_from k (Skipped # es) = failures_from k es"
| "failures_from k (Failed # es) = failures_from (Suc k) es"

definition delay_after :: "nat \<Rightarrow> int" where
  "delay_after k = (if k = 0 then 0 else min (1000 * 2 ^ (k - 1)) 30000)"

lemma nextDelay_after: "nextDelay (delay_after k) = delay_after (Suc k)"
  by (cases k) (auto simp: nextDelay_def delay_after_def kRetryInitial_def kRetryMax_def min_def)

lemma gc_run_audit:
  assumes "gc_run (audit net) ps g w = Some (es, g', w')" and "fds w = owned g" and "gc_enabled g"
    and "list_all (\<lambda>p. p \<noteq> '''') ps" and "retryDelay g = delay_after k"
  shows "fds w' = owned g' \<and> retryDelay g' = delay_after (failures_from k es)"
  using assms
proof (induction ps arbitrary: g w es k)
  case Nil
  then show ?case by simp
next
  case (Cons p ps)
  obtain r g1 w1 es1 where st: "gc_send (audit net) p g w = Some (r, g1, w1)"
    "gc_run (audit net) ps g1 w1 = Some (es1, g', w')"
    "es = (if r then Delivered else if gc_fd g = - 1 \<and> fst (backingOff (audit net) g w) then Skipped else Failed) # es1"
    using Cons.prems(1) by (auto simp: bind_eq_Some_conv Let_def)
  note s = gc_send_audit [OF st(1) Cons.prems(2)]
  have en: "gc_enabled g1" using s Cons.prems(3) by (simp add: gc_enabled_def)
  have p: "p \<noteq> ''''" "list_all (\<lambda>p. p \<noteq> '''') ps" using Cons.prems(4) by simp_all
  have "retryDelay g1 = delay_after (failures_from k [hd es])"
    using s Cons.prems(3,5) p(1) by (auto simp: st(3) nextDelay_after delay_after_def [of 0] split: if_splits)
  moreover have "failures_from (failures_from k [hd es]) es1 = failures_from k es"
    by (simp add: st(3))
  ultimately show ?case using Cons.IH [OF st(2) conjunct1 [OF s] en p(2)] by metis
qed

text \<open>
  C30. No socket is leaked: after any sequence of batches, whatever the network answered, the
  descriptors opened and not closed are exactly the one the client holds, and dropping it closes
  that one.
\<close>

theorem no_socket_leaked:
  assumes "gc_run (audit net) ps (GraphiteClient_new host port ct st) ([], '''', n) = Some (es, g', w')"
    and "list_all (\<lambda>p. p \<noteq> '''') ps" and "host \<noteq> ''''" and "port > 0"
  shows "fds w' = owned g' \<and> length (fds w') \<le> 1 \<and> fds (snd (closeSocket (audit net) g' w')) = []"
proof -
  let ?g = "GraphiteClient_new host port ct st"
  have "fds ([], '''', n) = owned ?g" "gc_enabled ?g" "retryDelay ?g = delay_after 0"
    using assms(3,4) by (simp_all add: owned_def GraphiteClient_new_def gc_enabled_def delay_after_def)
  with gc_run_audit [OF assms(1) _ _ assms(2)] have "fds w' = owned g'" by blast
  then show ?thesis by (simp add: closeSocket_def audit_simps owned_def)
qed

text \<open>A network on which nothing can be reached, and a clock that advances a second per reading.\<close>

definition dead_net :: "int Net" where
  "dead_net = trickle\<lparr> net_now := (\<lambda>n. (n, n + 1000000000)), net_connect := (\<lambda>_ n. (ConnectFailed, n)) \<rparr>"

lemma dead_net_run:
  "\<exists>g' w'. gc_run (audit dead_net) [''a'', ''b'', ''c'', ''d''] (GraphiteClient_new ''h'' 2003 0 0) ([], '''', 0) =
     Some ([Failed, Failed, Skipped, Failed], g', w')"
  by (simp add: gc_send_def GraphiteClient_new_def gc_enabled_def backingOff_def connectSocket_def setNonBlocking_def
      await_connect_def audit_def dead_net_def trickle_def beside_def noteFailure_def closeSocket_def nextDelay_def
      kRetryInitial_def kRetryMax_def Let_def)

theorem no_socket_leaked_witness:
  "\<exists>es g' w'. gc_run (audit dead_net) [''a'', ''b'', ''c'', ''d''] (GraphiteClient_new ''h'' 2003 0 0) ([], '''', 0) =
     Some (es, g', w') \<and> fds (snd (closeSocket (audit dead_net) g' w')) = []"
proof -
  obtain g' w' where r: "gc_run (audit dead_net) [''a'', ''b'', ''c'', ''d''] (GraphiteClient_new ''h'' 2003 0 0) ([], '''', 0) =
     Some ([Failed, Failed, Skipped, Failed], g', w')" using dead_net_run by blast
  from no_socket_leaked [OF r] have "fds (snd (closeSocket (audit dead_net) g' w')) = []" by simp
  with r show ?thesis by blast
qed

text \<open>
  C31. The retry schedule: after any sequence of batches the delay is zero when the last attempt
  succeeded, and otherwise 1, 2, 4, 8, 16, then 30 seconds after 1, 2, ... failed attempts in a
  row; calls made while backing off do not count as attempts.
\<close>

theorem backoff_schedule:
  assumes "gc_run (audit net) ps (GraphiteClient_new host port ct st) ([], '''', n) = Some (es, g', w')"
    and "list_all (\<lambda>p. p \<noteq> '''') ps" and "host \<noteq> ''''" and "port > 0"
  shows "retryDelay g' = (if failures_from 0 es = 0 then 0 else min (1000 * 2 ^ (failures_from 0 es - 1)) 30000)"
proof -
  let ?g = "GraphiteClient_new host port ct st"
  have "fds ([], '''', n) = owned ?g" "gc_enabled ?g" "retryDelay ?g = delay_after 0"
    using assms(3,4) by (simp_all add: owned_def GraphiteClient_new_def gc_enabled_def delay_after_def)
  with gc_run_audit [OF assms(1) _ _ assms(2)] show ?thesis unfolding delay_after_def by blast
qed

theorem backoff_schedule_witness:
  "\<exists>g' w'. gc_run (audit dead_net) [''a'', ''b'', ''c'', ''d''] (GraphiteClient_new ''h'' 2003 0 0) ([], '''', 0) =
     Some ([Failed, Failed, Skipped, Failed], g', w') \<and> retryDelay g' = 4000"
proof -
  obtain g' w' where r: "gc_run (audit dead_net) [''a'', ''b'', ''c'', ''d''] (GraphiteClient_new ''h'' 2003 0 0) ([], '''', 0) =
     Some ([Failed, Failed, Skipped, Failed], g', w')" using dead_net_run by blast
  from backoff_schedule [OF r] have "retryDelay g' = 4000" by simp
  with r show ?thesis by blast
qed

end
