(* ===== verification/Stats_Collector.thy ===== *)
theory Stats_Collector
  imports Graphite_Client Histogram_Store
begin

text \<open>
  \<open>StatsCollector\<close>: rates from cumulative counters, published and pushed to Graphite once per
  tick. Rates are doubles, computed with the rounding of \<open>Ieee_Double\<close> and printed as
  \<open>operator<<\<close> prints them, six significant digits. The thread's loop is split into its wait
  (\<open>wait_tick\<close>, over the wake-ups other threads cause) and the work of one tick
  (\<open>stats_tick\<close>); clock readings, the epoch and the samples are inputs.
\<close>

section \<open>Options and samples\<close>

definition kMinIntervalMs :: int where "kMinIntervalMs = 100"
definition kMaxIntervalMs :: int where "kMaxIntervalMs = 600000"

definition clampInterval :: "int \<Rightarrow> int" where
  "clampInterval ms = (if ms < kMinIntervalMs then kMinIntervalMs else if ms > kMaxIntervalMs then kMaxIntervalMs else ms)"

definition is_alnum :: "char \<Rightarrow> bool" where
  "is_alnum c = (let n = of_char c :: nat in (48 \<le> n \<and> n \<le> 57) \<or> (65 \<le> n \<and> n \<le> 90) \<or> (97 \<le> n \<and> n \<le> 122))"

definition prefix_char :: "char \<Rightarrow> char" where
  "prefix_char c = (if is_alnum c \<or> c = CHR ''.'' \<or> c = CHR ''-'' then c else CHR ''_'')"

definition sanitizePrefix :: "string \<Rightarrow> string" where
  "sanitizePrefix s =
     (let out = map prefix_char s;
          cut = dropWhile (\<lambda>c. c = CHR ''.'') out
      in if cut = [] then ''ancillary.rates'' else rev (dropWhile (\<lambda>c. c = CHR ''.'') (rev cut)))"

definition keyOf :: "nat \<Rightarrow> nat \<Rightarrow> u32" where
  "keyOf board ch = push_bit 16 (of_nat board) OR of_nat ch"

record ChannelSample =
  cs_board :: nat
  cs_ch :: nat
  cs_counts :: Counts

record BoardSample =
  bs_name :: string
  bs_regId :: nat
  bs_bytesWritten :: u64
  bs_boardFail :: nat
  bs_channels :: "ChannelSample list"

record ChannelRate =
  cr_board :: nat
  cr_ch :: nat
  cr_events :: rat
  cr_pileup :: rat
  cr_lost :: rat
  cr_satu :: rat

record BoardRate =
  brt_name :: string
  brt_regId :: nat
  writeRate :: rat
  brt_boardFail :: nat
  brt_channels :: "ChannelRate list"

section \<open>Rates\<close>

text \<open>The seconds between two clock readings in nanoseconds; a step that is not positive is taken as a microsecond.\<close>

definition elapsed :: "int \<Rightarrow> int \<Rightarrow> rat" where
  "elapsed prevTime now =
     (let dt = fl (fl (of_int (now - prevTime)) / 1000000000) in if dt \<le> 0 then fl (1 / 1000000) else dt)"

definition rate :: "rat \<Rightarrow> u64 \<Rightarrow> u64 \<Rightarrow> rat" where
  "rate dt cur prev = (if cur \<ge> prev then fl (fl (of_nat (unat (cur - prev))) / dt) else 0)"

text \<open>The previous sample indexed by board id; a later board of the same id replaces an earlier one.\<close>

definition index_bytes :: "BoardSample list \<Rightarrow> (nat, u64) omap" where
  "index_bytes prev = foldl (\<lambda>m b. omap_store (bs_regId b) (bs_bytesWritten b) m) [] prev"

definition index_counts :: "BoardSample list \<Rightarrow> (nat, (u32, Counts) omap) omap" where
  "index_counts prev =
     foldl (\<lambda>m b. foldl (\<lambda>m c. omap_store (bs_regId b)
                          (omap_store (keyOf (cs_board c) (cs_ch c)) (cs_counts c) (omap_get [] m (bs_regId b))) m)
                  m (bs_channels b)) [] prev"

definition channel_rate :: "rat \<Rightarrow> (u32, Counts) omap \<Rightarrow> ChannelSample \<Rightarrow> ChannelRate" where
  "channel_rate dt pc c =
     (let p = omap_get Counts_init pc (keyOf (cs_board c) (cs_ch c)); k = cs_counts c
      in \<lparr> cr_board = cs_board c, cr_ch = cs_ch c,
           cr_events = rate dt (n_events k) (n_events p), cr_pileup = rate dt (n_pileup k) (n_pileup p),
           cr_lost = rate dt (n_lost k) (n_lost p), cr_satu = rate dt (n_satu k) (n_satu p) \<rparr>)"

definition board_rate ::
  "rat \<Rightarrow> (nat, u64) omap \<Rightarrow> (nat, (u32, Counts) omap) omap \<Rightarrow> BoardSample \<Rightarrow> BoardRate" where
  "board_rate dt pbs pcs b =
     \<lparr> brt_name = bs_name b, brt_regId = bs_regId b,
       writeRate = rate dt (bs_bytesWritten b) (omap_get (bs_bytesWritten b) pbs (bs_regId b)),
       brt_boardFail = bs_boardFail b,
       brt_channels = map (channel_rate dt (omap_get [] pcs (bs_regId b))) (bs_channels b) \<rparr>"

definition stats_rates :: "rat \<Rightarrow> BoardSample list \<Rightarrow> BoardSample list \<Rightarrow> BoardRate list" where
  "stats_rates dt prev cur = map (board_rate dt (index_bytes prev) (index_counts prev)) cur"

section \<open>Printing\<close>

text \<open>
  A positive double in six significant decimal digits: the digits as a number of six digits, and
  the decimal exponent of the first.
\<close>

definition dec_exponent :: "rat \<Rightarrow> int" where
  "dec_exponent x =
     (if x \<ge> 1 then int (length (nat_str (nat \<lfloor>x\<rfloor>))) - 1 else - int (length (nat_str (nat (\<lceil>1 / x\<rceil> - 1)))))"

definition dec_six :: "rat \<Rightarrow> nat \<times> int" where
  "dec_six x =
     (let e = dec_exponent x; m = nat (round_half_even (x * 10 powi (5 - e)))
      in if m = 1000000 then (100000, e + 1) else (m, e))"

definition strip_zeros :: "string \<Rightarrow> string" where
  "strip_zeros s = rev (dropWhile (\<lambda>c. c = CHR ''0'') (rev s))"

definition with_point :: "string \<Rightarrow> string \<Rightarrow> string" where
  "with_point whole part = (let f = strip_zeros part in if f = '''' then whole else whole @ ''.'' @ f)"

definition show_exponent :: "int \<Rightarrow> string" where
  "show_exponent e =
     (let d = nat_str (nat \<bar>e\<bar>) in ''e'' @ (if e < 0 then ''-'' else ''+'') @ (if length d < 2 then ''0'' @ d else d))"

definition show_double :: "rat \<Rightarrow> string" where
  "show_double x =
     (if x = 0 then ''0''
      else let sign = (if x < 0 then ''-'' else ''''); (m, e) = dec_six \<bar>x\<bar>; ds = nat_str m
           in sign @ (if - 4 \<le> e \<and> e < 6
                      then if e \<ge> 0 then with_point (take (nat e + 1) ds) (drop (nat e + 1) ds)
                           else with_point ''0'' (replicate (nat (- e) - 1) CHR ''0'' @ ds)
                      else with_point (take 1 ds) (drop 1 ds) @ show_exponent e))"

definition show_int :: "int \<Rightarrow> string" where
  "show_int n = (if n < 0 then ''-'' @ nat_str (nat (- n)) else nat_str (nat n))"

definition metric_line :: "string \<Rightarrow> rat \<Rightarrow> int \<Rightarrow> string" where
  "metric_line path v epoch = path @ '' '' @ show_double v @ '' '' @ show_int epoch @ [char_of (10 :: nat)]"

definition format_channel :: "string \<Rightarrow> int \<Rightarrow> ChannelRate \<Rightarrow> string" where
  "format_channel prefix epoch c =
     (let base = prefix @ ''.bo_'' @ nat_str (cr_board c) @ ''.ch_'' @ nat_str (cr_ch c) @ ''.''
      in metric_line (base @ ''totalRate'') (cr_events c) epoch @ metric_line (base @ ''pileRate'') (cr_pileup c) epoch @
         metric_line (base @ ''lostRate'') (cr_lost c) epoch @ metric_line (base @ ''satuRate'') (cr_satu c) epoch)"

definition format_board :: "string \<Rightarrow> int \<Rightarrow> BoardRate \<Rightarrow> string" where
  "format_board prefix epoch b =
     metric_line (prefix @ ''.bo_'' @ nat_str (brt_regId b) @ ''.writeRate'') (writeRate b) epoch @
     concat (map (format_channel prefix epoch) (brt_channels b))"

definition formatGraphite :: "BoardRate list \<Rightarrow> string \<Rightarrow> int \<Rightarrow> string" where
  "formatGraphite rates prefix epoch = concat (map (format_board prefix epoch) rates)"

section \<open>The collector\<close>

record StatsOptions =
  so_intervalMs :: int
  so_firstIntervalMs :: int
  so_graphiteHost :: string
  so_graphitePort :: int
  so_prefix :: string

definition StatsOptions_init :: StatsOptions where
  "StatsOptions_init =
     \<lparr> so_intervalMs = 1000, so_firstIntervalMs = 2000, so_graphiteHost = '''', so_graphitePort = 2003,
       so_prefix = ''ancillary.rates'' \<rparr>"

record StatsCollector =
  sc_opt :: StatsOptions
  sc_graphite :: "GraphiteClient option"
  sc_intervalMs :: int
  sc_intervalGen :: u32
  sc_running :: bool
  sc_latest :: "BoardRate list"
  sc_prev :: "BoardSample list"
  sc_prevTime :: int
  sc_wait :: int

definition GraphiteClient_default :: "string \<Rightarrow> int \<Rightarrow> GraphiteClient" where
  "GraphiteClient_default host port =
     GraphiteClient_new host port kDefaultConnectTimeoutMs kDefaultSendTimeoutMs"

definition StatsCollector_new :: "StatsOptions \<Rightarrow> StatsCollector" where
  "StatsCollector_new opt =
     (let opt = opt\<lparr> so_prefix := sanitizePrefix (so_prefix opt), so_intervalMs := clampInterval (so_intervalMs opt) \<rparr>
      in \<lparr> sc_opt = opt,
           sc_graphite = (if so_graphiteHost opt \<noteq> ''''
                          then Some (GraphiteClient_default (so_graphiteHost opt) (so_graphitePort opt)) else None),
           sc_intervalMs = so_intervalMs opt, sc_intervalGen = 0, sc_running = False, sc_latest = [],
           sc_prev = [], sc_prevTime = 0, sc_wait = 0 \<rparr>)"

definition stats_start :: "StatsCollector \<Rightarrow> StatsCollector" where
  "stats_start s = s\<lparr> sc_running := True \<rparr>"

definition stats_stop :: "StatsCollector \<Rightarrow> StatsCollector" where
  "stats_stop s = s\<lparr> sc_running := False \<rparr>"

definition stats_snapshot :: "StatsCollector \<Rightarrow> BoardRate list" where
  "stats_snapshot s = sc_latest s"

definition stats_setGraphite :: "string \<Rightarrow> int \<Rightarrow> string \<Rightarrow> StatsCollector \<Rightarrow> StatsCollector" where
  "stats_setGraphite host port prefix s =
     (let opt = (if prefix \<noteq> '''' then (sc_opt s)\<lparr> so_prefix := sanitizePrefix prefix \<rparr> else sc_opt s)
      in s\<lparr> sc_graphite := (if host = '''' then None else Some (GraphiteClient_default host port)),
            sc_opt := opt\<lparr> so_graphiteHost := host, so_graphitePort := port \<rparr> \<rparr>)"

definition setInterval :: "int \<Rightarrow> StatsCollector \<Rightarrow> StatsCollector" where
  "setInterval ms s =
     (let clamped = clampInterval ms in
      if sc_intervalMs s = clamped then s
      else s\<lparr> sc_intervalMs := clamped, sc_intervalGen := sc_intervalGen s + 1 \<rparr>)"

text \<open>The loop before its first tick; a sampler that throws leaves the empty sample.\<close>

definition stats_enter :: "BoardSample list option \<Rightarrow> int \<Rightarrow> StatsCollector \<Rightarrow> StatsCollector" where
  "stats_enter sample now s =
     s\<lparr> sc_prev := (case sample of Some p \<Rightarrow> p | None \<Rightarrow> []), sc_prevTime := now,
        sc_wait := min (clampInterval (so_firstIntervalMs (sc_opt s))) (sc_intervalMs s) \<rparr>"

text \<open>
  One wait, in milliseconds: the wake-ups that other threads cause, with the time at which the
  loop sees them and, for a change, the interval it then reads. The result is the time at which
  the tick goes on, or \<open>None\<close> when the collector was stopped. A wake-up after the deadline comes
  too late for this wait.
\<close>

datatype wakeup = IntervalChanged int int | StopRequested int

fun wait_tick :: "int \<Rightarrow> int \<Rightarrow> int \<Rightarrow> wakeup list \<Rightarrow> int option" where
  "wait_tick start wait now [] = Some (max now (start + wait))"
| "wait_tick start wait now (IntervalChanged t ms # ws) =
     (if t < start + wait then wait_tick start (min wait ms) t ws else Some (max now (start + wait)))"
| "wait_tick start wait now (StopRequested t # ws) =
     (if t < start + wait then None else Some (max now (start + wait)))"

text \<open>One tick: \<open>None\<close> as a sample is a sampler that threw, which skips the tick.\<close>

definition stats_tick ::
  "'n Net \<Rightarrow> BoardSample list option \<Rightarrow> int \<Rightarrow> int \<Rightarrow> StatsCollector \<Rightarrow> 'n \<Rightarrow> (StatsCollector \<times> 'n) option" where
  "stats_tick net sample now epoch s n =
     (let s = s\<lparr> sc_wait := sc_intervalMs s \<rparr> in
      case sample of
        None \<Rightarrow> Some (s, n)
      | Some cur \<Rightarrow>
          let rates = stats_rates (elapsed (sc_prevTime s) now) (sc_prev s) cur;
              s = s\<lparr> sc_latest := rates \<rparr>
          in do {
            (s, n) \<leftarrow> (case sc_graphite s of
                         None \<Rightarrow> Some (s, n)
                       | Some sink \<Rightarrow>
                           if gc_enabled sink
                           then do {
                             (r, sink, n) \<leftarrow> gc_send net (formatGraphite rates (so_prefix (sc_opt s)) epoch) sink n;
                             Some (s\<lparr> sc_graphite := Some sink \<rparr>, n)
                           }
                           else Some (s, n));
            Some (s\<lparr> sc_prev := cur, sc_prevTime := now \<rparr>, n)
          })"

section \<open>The wait\<close>

fun wake_time :: "wakeup \<Rightarrow> int" where
  "wake_time (IntervalChanged t ms) = t"
| "wake_time (StopRequested t) = t"

fun felt_by :: "int \<Rightarrow> int \<Rightarrow> wakeup \<Rightarrow> bool" where
  "felt_by start e (IntervalChanged t ms) = (e \<le> max t (start + ms))"
| "felt_by start e (StopRequested t) = (e \<le> t)"

lemma felt_late: "e \<le> wake_time w \<Longrightarrow> felt_by start e w"
  by (cases w) auto

lemma wait_tick_felt:
  "wait_tick start wait now ws = Some e \<Longrightarrow> sorted (now # map wake_time ws) \<Longrightarrow>
     e \<le> max now (start + wait) \<and> list_all (felt_by start e) ws"
proof (induction start wait now ws rule: wait_tick.induct)
  case (2 start wait now t ms ws)
  show ?case
  proof (cases "t < start + wait")
    case True
    then have "wait_tick start (min wait ms) t ws = Some e" using 2(2) by simp
    from 2(1) [OF True this] 2(3) True show ?thesis by auto
  next
    case False
    then have "e \<le> t" using 2(2,3) by auto
    then have "list_all (\<lambda>w. e \<le> wake_time w) ws" using 2(3) by (auto simp: list_all_iff)
    then show ?thesis using 2(2) False \<open>e \<le> t\<close> by (auto simp: list_all_iff felt_late)
  qed
next
  case (3 start wait now t ws)
  then have "e \<le> t" by (auto split: if_splits)
  then have "list_all (\<lambda>w. e \<le> wake_time w) ws" using 3(2) by (auto simp: list_all_iff)
  then show ?case using 3(1) \<open>e \<le> t\<close> by (auto simp: list_all_iff felt_late split: if_splits)
qed auto

text \<open>
  The pace of the statistics: a wait ends no later than the interval it started with, and
  every change of the interval is felt on the spot: the wait is over as soon as the new interval,
  counted from the start of the tick, has passed, or at the change itself when that is already
  in the past. A stop request that does not end the collector came after the wait was over.
\<close>

theorem interval_change_felt:
  assumes "wait_tick start wait now ws = Some e" and "sorted (now # map wake_time ws)" and "now \<le> start + wait"
  shows "e \<le> start + wait \<and> list_all (felt_by start e) ws"
  using wait_tick_felt [OF assms(1,2)] assms(3) by simp

theorem interval_change_felt_witness:
  "wait_tick 0 60000 0 [IntervalChanged 5000 1000, IntervalChanged 7000 9000] = Some 5000"
proof -
  let ?ws = "[IntervalChanged 5000 1000, IntervalChanged 7000 9000]"
  obtain e where e: "wait_tick 0 60000 0 ?ws = Some e" "5000 \<le> e" by simp
  from interval_change_felt [OF e(1)] have "e \<le> 5000" by simp
  then show ?thesis using e by simp
qed

section \<open>The rates\<close>

lemma keyOf_hist_key: "keyOf = hist_key"
  by (simp add: fun_eq_iff keyOf_def hist_key_def)

text \<open>The index of a sample without repeated boards or channels holds each board's own counters.\<close>

definition sample_ok :: "BoardSample list \<Rightarrow> bool" where
  "sample_ok bs \<longleftrightarrow> distinct (map bs_regId bs) \<and>
     list_all (\<lambda>b. distinct (map (\<lambda>c. keyOf (cs_board c) (cs_ch c)) (bs_channels b))) bs"

lemma index_bytes_own:
  assumes "distinct (map bs_regId bs)" "b \<in> set bs"
  shows "omap_lookup (index_bytes bs) (bs_regId b) = Some (bs_bytesWritten b)"
proof -
  have "omap_ok m \<Longrightarrow> omap_lookup (foldl (\<lambda>m b. omap_store (bs_regId b) (bs_bytesWritten b) m) m bs) k =
      foldl (\<lambda>v b. Some (bs_bytesWritten b)) (omap_lookup m k) (filter (\<lambda>b. bs_regId b = k) bs)" for m k
    by (rule omap.foldl_update_lookup [where upd = "\<lambda>b _. bs_bytesWritten b" and key = bs_regId])
  moreover have "filter (\<lambda>b'. bs_regId b' = bs_regId b) bs = [b]"
    using assms by (rule filter_key_unique)
  ultimately show ?thesis by (simp add: index_bytes_def)
qed

definition channel_index :: "ChannelSample list \<Rightarrow> (u32, Counts) omap \<Rightarrow> (u32, Counts) omap" where
  "channel_index cs m = foldl (\<lambda>m c. omap_store (keyOf (cs_board c) (cs_ch c)) (cs_counts c) m) m cs"

lemma channel_index_ok: "omap_ok m \<Longrightarrow> omap_ok (channel_index cs m)"
  unfolding channel_index_def by (induction cs arbitrary: m) simp_all

lemma channel_index_own:
  assumes "distinct (map (\<lambda>c. keyOf (cs_board c) (cs_ch c)) cs)" "c \<in> set cs" "omap_ok m"
  shows "omap_lookup (channel_index cs m) (keyOf (cs_board c) (cs_ch c)) = Some (cs_counts c)"
proof -
  let ?k = "\<lambda>c. keyOf (cs_board c) (cs_ch c)"
  have "omap_lookup (foldl (\<lambda>m c. omap_store (?k c) (cs_counts c) m) m cs) k =
      foldl (\<lambda>v c. Some (cs_counts c)) (omap_lookup m k) (filter (\<lambda>c. ?k c = k) cs)" for k
    by (rule omap.foldl_update_lookup [where upd = "\<lambda>c _. cs_counts c" and key = ?k, OF assms(3)])
  moreover have "filter (\<lambda>c'. ?k c' = ?k c) cs = [c]"
    using assms(1,2) by (rule filter_key_unique)
  ultimately show ?thesis by (simp add: channel_index_def)
qed

text \<open>One board of the sample: its entry is its channel index, the other entries are untouched.\<close>

lemma index_board:
  assumes "omap_ok m"
  shows "omap_ok (foldl (\<lambda>m c. omap_store r (omap_store (keyOf (cs_board c) (cs_ch c)) (cs_counts c) (omap_get [] m r)) m) m cs)"
    and "omap_get [] (foldl (\<lambda>m c. omap_store r (omap_store (keyOf (cs_board c) (cs_ch c)) (cs_counts c) (omap_get [] m r)) m) m cs) k =
      (if k = r then channel_index cs (omap_get [] m r) else omap_get [] m k)"
  using assms
proof (induction cs arbitrary: m)
  case Nil
  case 1 then show ?case by simp
  case 2 then show ?case by (simp add: channel_index_def)
next
  case (Cons c cs)
  let ?m = "omap_store r (omap_store (keyOf (cs_board c) (cs_ch c)) (cs_counts c) (omap_get [] m r)) m"
  case 1
  show ?case using Cons.IH(1) [OF omap_ok_store [OF 1]] by simp
  case 2
  show ?case using Cons.IH(2) [OF omap_ok_store [OF 2]] 2 by (simp add: channel_index_def omap_get_def)
qed

lemma index_counts_own:
  assumes "sample_ok bs" "b \<in> set bs" "c \<in> set (bs_channels b)"
  shows "omap_get Counts_init (omap_get [] (index_counts bs) (bs_regId b)) (keyOf (cs_board c) (cs_ch c)) = cs_counts c"
proof -
  let ?step = "\<lambda>m b. foldl (\<lambda>m c. omap_store (bs_regId b)
      (omap_store (keyOf (cs_board c) (cs_ch c)) (cs_counts c) (omap_get [] m (bs_regId b))) m) m (bs_channels b)"
  have fold: "omap_get [] (foldl ?step m bs) (bs_regId b) = channel_index (bs_channels b) (omap_get [] m (bs_regId b))"
    if "omap_ok m" "distinct (map bs_regId bs)" "b \<in> set bs" for m
    using that
  proof (induction bs arbitrary: m)
    case (Cons b' bs)
    note ib = index_board [OF Cons.prems(1), of "bs_regId b'" "bs_channels b'"]
    have rest: "omap_get [] (foldl ?step m' bs) r = omap_get [] m' r" if "r \<notin> bs_regId ` set bs" "omap_ok m'" for m' r
      using that
    proof (induction bs arbitrary: m')
      case (Cons b2 bs)
      then show ?case using index_board [OF Cons.prems(2), of "bs_regId b2" "bs_channels b2"] by simp
    qed simp
    show ?case
    proof (cases "b = b'")
      case True
      then show ?thesis using Cons.prems ib rest by simp
    next
      case False
      then have "bs_regId b \<noteq> bs_regId b'" using Cons.prems(2,3) by (auto simp: rev_image_eqI)
      then show ?thesis using Cons.IH [OF ib(1)] Cons.prems False ib(2) by simp
    qed
  qed simp
  have d: "distinct (map bs_regId bs)" "distinct (map (\<lambda>c. keyOf (cs_board c) (cs_ch c)) (bs_channels b))"
    using assms(1,2) by (auto simp: sample_ok_def list_all_iff)
  have "omap_get [] (index_counts bs) (bs_regId b) = channel_index (bs_channels b) []"
    using fold [of "[]"] d(1) assms(2) by (simp add: index_counts_def omap_get_def)
  then show ?thesis
    using channel_index_own [OF d(2) assms(3), of "[]"] by (simp add: omap_get_def)
qed

lemma two_roundings:
  fixes x y z e :: rat
  assumes "\<bar>y - x\<bar> \<le> x * e" "\<bar>z - y\<bar> \<le> y * e" "0 \<le> x" "0 \<le> e" "e \<le> 1"
  shows "\<bar>z - x\<bar> \<le> x * (4 * e)"
proof -
  have "x * e \<le> x * 1" using assms(3-5) by (intro mult_left_mono) simp_all
  then have "y \<le> 2 * x" using assms(1) by linarith
  then have "y * e \<le> 2 * x * e" using assms(4) by (intro mult_right_mono) simp_all
  then have "\<bar>z - x\<bar> \<le> x * e + 2 * x * e" using assms(1,2) by linarith
  also have "\<dots> \<le> x * (4 * e)" using assms(3,4) by (simp add: algebra_simps)
  finally show ?thesis .
qed

lemma rate_accurate:
  assumes "0 < dt" "prev \<le> cur"
  shows "\<bar>rate dt cur prev - of_nat (unat cur - unat prev) / dt\<bar> \<le> of_nat (unat cur - unat prev) / dt * 2 powi (- 51)"
proof -
  define d :: rat where "d = of_nat (unat cur - unat prev)"
  let ?e = "2 powi (- 53) :: rat"
  have d: "0 \<le> d" "rate dt cur prev = fl (fl d / dt)"
    using assms(2) by (simp_all add: d_def rate_def unat_sub)
  have "\<bar>fl d / dt - d / dt\<bar> = \<bar>fl d - d\<bar> / dt"
    using assms(1) by (simp add: diff_divide_distrib [symmetric])
  also have "\<dots> \<le> d * ?e / dt" using fl_error [of d] d(1) assms(1) by (intro divide_right_mono) simp_all
  finally have b: "\<bar>fl d / dt - d / dt\<bar> \<le> d / dt * ?e" by simp
  have c: "\<bar>fl (fl d / dt) - fl d / dt\<bar> \<le> fl d / dt * ?e"
    using fl_error [of "fl d / dt"] fl_nonneg [OF d(1)] assms(1) by simp
  have "\<bar>fl (fl d / dt) - d / dt\<bar> \<le> d / dt * (4 * ?e)"
    by (rule two_roundings [OF b c]) (use d(1) assms(1) in \<open>simp_all add: power_int_def power_le_one\<close>)
  also have "4 * ?e = 2 powi (- 51)" using power_int_add [of "2 :: rat" 2 "- 53"] by simp
  finally show ?thesis by (simp add: d(2) d_def)
qed


definition demo_counts :: "u64 \<Rightarrow> Counts" where
  "demo_counts n = Counts_init\<lparr> n_events := n \<rparr>"

definition demo_sample :: "u64 \<Rightarrow> BoardSample" where
  "demo_sample n = \<lparr> bs_name = ''b'', bs_regId = 3, bs_bytesWritten = 1000 * n, bs_boardFail = 0,
     bs_channels = [\<lparr> cs_board = 3, cs_ch = 1, cs_counts = demo_counts n \<rparr>] \<rparr>"


text \<open>
  Two boards that report the same id are confused: in a sample where both do, an idle first
  board is given the write rate of the difference between the two boards' counters.
\<close>

theorem same_id_confused:
  assumes "bs_regId b1 = bs_regId b2"
  shows "map writeRate (stats_rates dt [b1, b2] [b1, b2]) = [rate dt (bs_bytesWritten b1) (bs_bytesWritten b2), 0]"
  using assms by (simp add: stats_rates_def board_rate_def index_bytes_def omap_get_def rate_def)

theorem same_id_confused_witness:
  "map writeRate (stats_rates 2 [demo_sample 9, demo_sample 5] [demo_sample 9, demo_sample 5]) = [rate 2 9000 5000, 0]"
  using same_id_confused [of "demo_sample 9" "demo_sample 5" 2] by (simp add: demo_sample_def)

section \<open>Metric paths\<close>

lemma prefix_char_dot: "prefix_char c = CHR ''.'' \<longleftrightarrow> c = CHR ''.''"
  by (auto simp: prefix_char_def)

lemma prefix_char_idem: "prefix_char (prefix_char c) = prefix_char c"
  by (auto simp: prefix_char_def is_alnum_def Let_def)

definition clean_prefix :: "string \<Rightarrow> bool" where
  "clean_prefix p \<longleftrightarrow> p \<noteq> '''' \<and> hd p \<noteq> CHR ''.'' \<and> last p \<noteq> CHR ''.'' \<and>
     list_all (\<lambda>c. is_alnum c \<or> c \<in> {CHR ''.'', CHR ''-'', CHR ''_''}) p"

lemma clean_prefix_kept: "clean_prefix p \<Longrightarrow> sanitizePrefix p = p"
proof -
  assume c: "clean_prefix p"
  have m: "map prefix_char p = p"
    using c by (auto simp: clean_prefix_def list_all_iff prefix_char_def intro!: map_idI)
  obtain a as where p: "p = a # as" "a \<noteq> CHR ''.''" using c by (cases p) (auto simp: clean_prefix_def)
  have "rev p \<noteq> []" "hd (rev p) \<noteq> CHR ''.''" using c by (auto simp: clean_prefix_def hd_rev)
  then have "dropWhile (\<lambda>c. c = CHR ''.'') (rev p) = rev p" by (cases "rev p") simp_all
  moreover have "dropWhile (\<lambda>c. c = CHR ''.'') p = p" using p by simp
  moreover have "p \<noteq> []" using p by simp
  ultimately show ?thesis by (simp add: sanitizePrefix_def m Let_def del: dropWhile_eq_Nil_conv)
qed

lemma sanitizePrefix_clean: "clean_prefix (sanitizePrefix s)"
proof -
  let ?out = "map prefix_char s"
  let ?cut = "dropWhile (\<lambda>c. c = CHR ''.'') ?out"
  have chars: "\<forall>c \<in> set ?out. is_alnum c \<or> c \<in> {CHR ''.'', CHR ''-'', CHR ''_''}"
    by (auto simp: prefix_char_def)
  show ?thesis
  proof (cases "?cut = []")
    case True
    then show ?thesis by (simp add: sanitizePrefix_def Let_def clean_prefix_def is_alnum_def)
  next
    case False
    let ?r = "dropWhile (\<lambda>c. c = CHR ''.'') (rev ?cut)"
    have hd: "hd ?cut \<noteq> CHR ''.''" using hd_dropWhile [OF False] by simp
    then have "\<exists>c \<in> set (rev ?cut). c \<noteq> CHR ''.''" using hd_in_set [OF False] by auto
    then have ne: "?r \<noteq> []" by (auto simp: dropWhile_eq_Nil_conv)
    have last: "hd ?r \<noteq> CHR ''.''" using hd_dropWhile [OF ne] by simp
    obtain pre where "rev ?cut = pre @ ?r" by (metis takeWhile_dropWhile_id)
    then have cut: "?cut = rev ?r @ rev pre" by (metis rev_append rev_rev_ident)
    have "hd (rev ?r) = hd ?cut" using ne by (subst (2) cut) simp
    moreover have "set (rev ?r) \<subseteq> set ?out"
    proof
      fix c assume "c \<in> set (rev ?r)"
      then have "c \<in> set ?cut" using set_dropWhileD [of c _ "rev ?cut"] by simp
      then show "c \<in> set ?out" by (rule set_dropWhileD)
    qed
    ultimately show ?thesis
      using False ne hd last chars
      by (auto simp: sanitizePrefix_def Let_def clean_prefix_def list_all_iff last_rev)
  qed
qed

text \<open>
  Whatever an operator types, the metric root is usable: the prefix is never empty, has only
  letters, digits, dots, dashes and underscores, neither starts nor ends with a dot, and a
  prefix already of that form is taken as it is.
\<close>

theorem prefix_always_clean:
  "clean_prefix (sanitizePrefix s) \<and> sanitizePrefix (sanitizePrefix s) = sanitizePrefix s"
  using sanitizePrefix_clean clean_prefix_kept by blast

end
