(* ===== verification/Daq_Control.thy ===== *)
theory Daq_Control
  imports Board_Runner Writer_Thread Clock_Sync Stats_Collector
begin

text \<open>
  \<open>Daq\<close>: the boards of a run, the shared write queue and its writer thread, and the statistics.
  This theory has the control operations, which one thread calls; the other threads' effects
  during a call are inputs. The boards are reached through \<open>IDigitizer\<close>, and how one is made is
  a parameter, so that real boards, mock boards and logged boards are all instances. Log lines
  are not modelled.
\<close>

section \<open>State\<close>

record BoardSpec =
  bsp_params :: BoardParams
  bsp_mock :: bool
  bsp_decode :: bool
  bsp_write :: bool
  mockRate :: u32
  mockWaveforms :: bool
  mockFailEvery :: u32
  mockDpp :: DppType
  mockStartMode :: u32

record DaqOptions =
  do_maxFileBytes :: nat
  do_writeHeader :: bool
  do_graphiteHost :: string
  do_graphitePort :: int
  do_graphitePrefix :: string
  do_statsIntervalMs :: int
  do_statsFirstIntervalMs :: int

definition DaqOptions_init :: DaqOptions where
  "DaqOptions_init =
     \<lparr> do_maxFileBytes = 0, do_writeHeader = True, do_graphiteHost = '''', do_graphitePort = 2003,
       do_graphitePrefix = ''ancillary.rates'', do_statsIntervalMs = 1000, do_statsFirstIntervalMs = 2000 \<rparr>"

record 'w Daq =
  dq_outputDir :: string
  dq_run :: u32
  dq_opt :: DaqOptions
  dq_runners :: "'w BoardRunner list"
  dq_names :: "string list"
  dq_stats :: "StatsCollector option"
  dq_queue :: BlockQueue
  dq_writing :: WriterThread
  dq_anyWrite :: bool
  dq_prepared :: bool
  dq_running :: bool

definition Daq_new :: "string \<Rightarrow> u32 \<Rightarrow> DaqOptions \<Rightarrow> 'w Daq" where
  "Daq_new dir n opt =
     \<lparr> dq_outputDir = dir, dq_run = n, dq_opt = opt, dq_runners = [], dq_names = [], dq_stats = None,
       dq_queue = BlockQueue_new 8192, dq_writing = WriterThread_init, dq_anyWrite = False,
       dq_prepared = False, dq_running = False \<rparr>"

section \<open>Adding boards\<close>

text \<open>How a board object is made; \<open>bk_real\<close> is \<open>None\<close> in a build without CAEN support.\<close>

record 'w Backend =
  bk_mock :: "nat \<Rightarrow> BoardParams \<Rightarrow> MockOptions \<Rightarrow> 'w \<Rightarrow> 'w Digitizer \<times> 'w"
  bk_real :: "(nat \<Rightarrow> BoardParams \<Rightarrow> 'w \<Rightarrow> 'w Digitizer \<times> 'w) option"

definition makeDigitizer :: "'w Backend \<Rightarrow> BoardSpec \<Rightarrow> nat \<Rightarrow> 'w \<Rightarrow> ('w Digitizer \<times> 'w) option" where
  "makeDigitizer bk spec index w =
     (if bsp_mock spec
      then let opt = MockOptions_init\<lparr> ratePerSec := mockRate spec, waveforms := mockWaveforms spec,
                       failEvery := mockFailEvery spec, mo_dpp := mockDpp spec, mo_boardId := of_nat index,
                       mo_startMode := mockStartMode spec \<rparr>
           in Some (bk_mock bk index (bsp_params spec) opt w)
      else case bk_real bk of None \<Rightarrow> None | Some mk \<Rightarrow> Some (mk index (bsp_params spec) w))"

definition addBoard :: "'w Backend \<Rightarrow> BoardSpec \<Rightarrow> 'w Daq \<Rightarrow> 'w \<Rightarrow> int \<times> 'w Daq \<times> 'w" where
  "addBoard bk spec d w =
     (if dq_running d \<or> dq_prepared d then (- 1, d, w)
      else let index = length (dq_runners d)
           in case makeDigitizer bk spec index w of
                None \<Rightarrow> (- 1, d, w)
              | Some (dgtz, w) \<Rightarrow>
                  let c = BoardRunnerConfig_init\<lparr> rc_write := bsp_write spec, rc_decode := bsp_decode spec \<rparr>
                  in (int index,
                      d\<lparr> dq_anyWrite := (bsp_write spec \<or> dq_anyWrite d),
                         dq_runners := dq_runners d @ [BoardRunner_new dgtz c (bsp_write spec)],
                         dq_names := dq_names d @ [bp_name (bsp_params spec)] \<rparr>, w))"

text \<open>The mock boards as a backend, in the build without CAEN support.\<close>

definition mock_backend :: "MockWorld Backend" where
  "mock_backend =
     \<lparr> bk_mock = (\<lambda>i p opt w. (mock_board i p, mw_put i (MockDigitizer_new p opt) w)), bk_real = None \<rparr>"

section \<open>The master and the clock chain\<close>

fun master_from :: "nat \<Rightarrow> int \<Rightarrow> 'w BoardRunner list \<Rightarrow> 'w \<Rightarrow> int" where
  "master_from i firstSynced [] w = firstSynced"
| "master_from i firstSynced (r # rs) w =
     (if \<not> synchronised (br_dgtz r) w then master_from (i + 1) firstSynced rs w
      else let firstSynced = (if firstSynced < 0 then int i else firstSynced)
           in if boardRegId (br_info r) = 0 then int i else master_from (i + 1) firstSynced rs w)"

definition masterIndex :: "'w Daq \<Rightarrow> 'w \<Rightarrow> int" where
  "masterIndex d w = master_from 0 (- 1) (dq_runners d) w"

definition clock_board :: "int \<Rightarrow> 'w BoardRunner list \<Rightarrow> nat \<Rightarrow> 'w ChainBoard" where
  "clock_board master rs i =
     \<lparr> cb_name = dg_name (br_dgtz (rs ! i)), cb_master = (int i = master),
       cb_write = Some (dg_writeRegister (br_dgtz (rs ! i))), cb_read = Some (dg_readRegister (br_dgtz (rs ! i))) \<rparr>"

definition alignClockChain :: "(int \<Rightarrow> 'w \<Rightarrow> 'w) \<Rightarrow> 'w Daq \<Rightarrow> 'w \<Rightarrow> 'w option" where
  "alignClockChain sl d w =
     (let master = masterIndex d w;
          chain = map (clock_board master (dq_runners d))
                    (clockChainOrder (map (acquisitionControl \<circ> br_info) (dq_runners d)) master)
      in if length chain < 2 then Some w
         else map_option snd (synchroniseClockChain chain (ClockSyncOptions_default sl) w))"

section \<open>Prepare\<close>

fun prepare_all :: "'w BoardRunner list \<Rightarrow> 'w \<Rightarrow> bool \<times> 'w BoardRunner list \<times> 'w" where
  "prepare_all [] w = (True, [], w)"
| "prepare_all (r # rs) w =
     (let (ok, r, w) = runner_prepare r w
      in if \<not> ok then (False, r # rs, w)
         else let (ok, rs, w) = prepare_all rs w in (ok, r # rs, w))"

definition run_writer :: "'w Daq \<Rightarrow> RawFileWriter" where
  "run_writer d =
     setBoards (map (boardDefFrom \<circ> br_info) (dq_runners d))
       (RawFileWriter_new \<lparr> directory = dq_outputDir d, runNumber = dq_run d,
          maxFileBytes = do_maxFileBytes (dq_opt d), writeHeader = do_writeHeader (dq_opt d) \<rparr>)"

definition daq_prepare :: "int \<Rightarrow> 'w Daq \<Rightarrow> Disk \<Rightarrow> 'w \<Rightarrow> bool \<times> 'w Daq \<times> Disk \<times> 'w" where
  "daq_prepare now d disk w =
     (if dq_prepared d then (True, d, disk, w)
      else let (ok, rs, w) = prepare_all (dq_runners d) w; d = d\<lparr> dq_runners := rs \<rparr>
           in if \<not> ok then (False, d, disk, w)
              else if dq_anyWrite d
              then let (ok, wr, disk) = writer_open now (run_writer d) disk
                   in if \<not> ok then (False, d\<lparr> dq_writing := (dq_writing d)\<lparr> wt_writer := None \<rparr> \<rparr>, disk, w)
                      else (True, d\<lparr> dq_writing := (dq_writing d)\<lparr> wt_writer := Some wr \<rparr>, dq_prepared := True \<rparr>, disk, w)
              else (True, d\<lparr> dq_prepared := True \<rparr>, disk, w))"

section \<open>Stop\<close>

fun stop_all ::
  "(rat \<Rightarrow> rat) \<Rightarrow> (nat \<Rightarrow> StopEnv) \<Rightarrow> nat \<Rightarrow> 'w BoardRunner list \<Rightarrow> BlockQueue \<Rightarrow> 'w
     \<Rightarrow> ('w BoardRunner list \<times> BlockQueue \<times> 'w) option" where
  "stop_all lg env i [] q w = Some ([], q, w)"
| "stop_all lg env i (r # rs) q w = do {
     (r, q, w) \<leftarrow> runner_stop lg (env i) r q w;
     (rs, q, w) \<leftarrow> stop_all lg env (i + 1) rs q w;
     Some (r # rs, q, w)
   }"

text \<open>
  What a call meets besides the boards: the clocks, how the sleeps of the clock alignment pass,
  what each board's stop meets, what the writer thread has done by the time the queue is closed
  (its pops are part of the stops' effects on the queue) and what it meets afterwards.
\<close>

record 'w DaqEnv =
  en_epoch :: int
  en_clock :: int
  en_sleep :: "int \<Rightarrow> 'w \<Rightarrow> 'w"
  en_stops :: "nat \<Rightarrow> StopEnv"
  en_progress :: "WriterThread \<Rightarrow> Disk \<Rightarrow> WriterThread \<times> Disk"
  en_ticks :: "nat \<Rightarrow> WriterTick"

definition daq_teardown :: "'w DaqEnv \<Rightarrow> 'w Daq \<Rightarrow> Disk \<Rightarrow> ('w Daq \<times> Disk) option" where
  "daq_teardown env d disk =
     (let (wt, disk) = en_progress env (dq_writing d) disk in do {
        (wt, q, disk) \<leftarrow> teardownWriter (en_ticks env) wt (dq_queue d) disk;
        Some (d\<lparr> dq_writing := wt, dq_queue := q \<rparr>, disk)
      })"

text \<open>The first \<open>n\<close> boards are stopped, then the writer is torn down.\<close>

definition daq_unwind ::
  "(rat \<Rightarrow> rat) \<Rightarrow> 'w DaqEnv \<Rightarrow> nat \<Rightarrow> 'w Daq \<Rightarrow> Disk \<Rightarrow> 'w \<Rightarrow> ('w Daq \<times> Disk \<times> 'w) option" where
  "daq_unwind lg env n d disk w = do {
     (rs, q, w) \<leftarrow> stop_all lg (en_stops env) 0 (take n (dq_runners d)) (dq_queue d) w;
     (d, disk) \<leftarrow> daq_teardown env (d\<lparr> dq_runners := rs @ drop n (dq_runners d), dq_queue := q \<rparr>) disk;
     Some (d, disk, w)
   }"

definition daq_stop ::
  "(rat \<Rightarrow> rat) \<Rightarrow> 'w DaqEnv \<Rightarrow> 'w Daq \<Rightarrow> Disk \<Rightarrow> 'w \<Rightarrow> ('w Daq \<times> Disk \<times> 'w) option" where
  "daq_stop lg env d disk w =
     (if \<not> dq_running d then Some (d, disk, w)
      else do {
        (d, disk, w) \<leftarrow> daq_unwind lg env (length (dq_runners d))
                          (d\<lparr> dq_stats := map_option stats_stop (dq_stats d) \<rparr>) disk w;
        Some (d\<lparr> dq_running := False \<rparr>, disk, w)
      })"

section \<open>Start\<close>

text \<open>Arm or start every board in turn; the result names the board that failed.\<close>

fun launch_all ::
  "int \<Rightarrow> nat \<Rightarrow> 'w BoardRunner list \<Rightarrow> 'w \<Rightarrow> nat option \<times> 'w BoardRunner list \<times> 'w" where
  "launch_all master i [] w = (None, [], w)"
| "launch_all master i (r # rs) w =
     (let synced = synchronised (br_dgtz r) w;
          (ok, r, w) = (if synced then runner_arm r w else runner_start r w)
      in if \<not> ok then (Some i, r # rs, w)
         else let r = setSyncRole (if \<not> synced then Independent else if int i = master then Master else Slave) r;
                  (f, rs, w) = launch_all master (i + 1) rs w
              in (f, r # rs, w))"

definition start_writer :: "'w DaqEnv \<Rightarrow> 'w Daq \<Rightarrow> 'w Daq" where
  "start_writer env d =
     (let wt = (dq_writing d)\<lparr> wt_failed := False \<rparr>
      in d\<lparr> dq_writing := (if dq_anyWrite d
                           then wt\<lparr> wt_thread := True, wt_ended := False, wt_lastFlush := en_clock env, wt_dirty := False \<rparr>
                           else wt) \<rparr>)"

definition stats_options :: "DaqOptions \<Rightarrow> StatsOptions" where
  "stats_options opt =
     StatsOptions_init\<lparr> so_intervalMs := do_statsIntervalMs opt, so_firstIntervalMs := do_statsFirstIntervalMs opt,
       so_graphiteHost := do_graphiteHost opt, so_graphitePort := do_graphitePort opt,
       so_prefix := (if do_graphitePrefix opt \<noteq> '''' then do_graphitePrefix opt else so_prefix StatsOptions_init) \<rparr>"

text \<open>Everything after the software trigger: the readers, then the statistics.\<close>

definition daq_go :: "'w Daq \<Rightarrow> 'w Daq" where
  "daq_go d =
     d\<lparr> dq_runners := map startReader (dq_runners d),
        dq_stats := Some (stats_start (StatsCollector_new (stats_options (dq_opt d)))),
        dq_running := True \<rparr>"

definition fire_master :: "int \<Rightarrow> 'w BoardRunner list \<Rightarrow> 'w \<Rightarrow> bool \<times> 'w" where
  "fire_master master rs w =
     (if master \<ge> 0 then dg_sendSWTrigger (br_dgtz (rs ! nat master)) w else (True, w))"

definition daq_start ::
  "(rat \<Rightarrow> rat) \<Rightarrow> 'w DaqEnv \<Rightarrow> 'w Daq \<Rightarrow> Disk \<Rightarrow> 'w \<Rightarrow> (bool \<times> 'w Daq \<times> Disk \<times> 'w) option" where
  "daq_start lg env d disk w =
     (if dq_running d then Some (True, d, disk, w)
      else let (ok, d, disk, w) = daq_prepare (en_epoch env) d disk w
           in if \<not> ok then Some (False, d, disk, w)
              else do {
                w \<leftarrow> alignClockChain (en_sleep env) d w;
                let d = start_writer env d;
                let master = masterIndex d w;
                (case launch_all master 0 (dq_runners d) w of
                   (Some i, rs, w) \<Rightarrow> do {
                     (d, disk, w) \<leftarrow> daq_unwind lg env (i + 1) (d\<lparr> dq_runners := rs \<rparr>) disk w;
                     Some (False, d, disk, w)
                   }
                 | (None, rs, w) \<Rightarrow>
                     let d = d\<lparr> dq_runners := rs \<rparr>; (ok, w) = fire_master master rs w
                     in if \<not> ok
                        then do {
                          (d, disk, w) \<leftarrow> daq_unwind lg env (length rs) d disk w;
                          Some (False, d, disk, w)
                        }
                        else Some (True, daq_go d, disk, w))
              })"

section \<open>Statistics and settings\<close>

definition sample_channel :: "HistogramStore \<Rightarrow> nat \<times> nat \<Rightarrow> ChannelSample" where
  "sample_channel h bc = \<lparr> cs_board = fst bc, cs_ch = snd bc, cs_counts = hist_counts h (fst bc) (snd bc) \<rparr>"

definition sample_board :: "'w BoardRunner \<Rightarrow> BoardSample" where
  "sample_board r =
     \<lparr> bs_name = dg_name (br_dgtz r), bs_regId = unat (boardRegId (br_info r)) mod 2 ^ 16,
       bs_bytesWritten = br_bytesWritten r, bs_boardFail = runner_boardFailures r,
       bs_channels = map (sample_channel (runner_histograms r)) (channels (runner_histograms r)) \<rparr>"

definition sampleStats :: "'w Daq \<Rightarrow> BoardSample list" where
  "sampleStats d = map sample_board (dq_runners d)"

definition daq_stats :: "'w Daq \<Rightarrow> BoardRate list" where
  "daq_stats d = (case dq_stats d of Some s \<Rightarrow> stats_snapshot s | None \<Rightarrow> [])"

definition daq_setGraphite :: "string \<Rightarrow> int \<Rightarrow> string \<Rightarrow> 'w Daq \<Rightarrow> 'w Daq" where
  "daq_setGraphite host port pfx d =
     (let opt = (dq_opt d)\<lparr> do_graphiteHost := host, do_graphitePort := port \<rparr>;
          opt = (if pfx \<noteq> '''' then opt\<lparr> do_graphitePrefix := pfx \<rparr> else opt)
      in d\<lparr> dq_opt := opt, dq_stats := map_option (stats_setGraphite host port pfx) (dq_stats d) \<rparr>)"

definition setStatsInterval :: "int \<Rightarrow> 'w Daq \<Rightarrow> 'w Daq" where
  "setStatsInterval ms d =
     (let ms = clampInterval ms
      in d\<lparr> dq_opt := (dq_opt d)\<lparr> do_statsIntervalMs := ms \<rparr>, dq_stats := map_option (setInterval ms) (dq_stats d) \<rparr>)"

definition statsIntervalMs :: "'w Daq \<Rightarrow> int" where
  "statsIntervalMs d = (case dq_stats d of Some s \<Rightarrow> sc_intervalMs s | None \<Rightarrow> do_statsIntervalMs (dq_opt d))"

section \<open>Per-board access\<close>

text \<open>
  \<open>runners_.at(static_cast<std::size_t>(board))\<close>: \<open>None\<close> is the \<open>std::out_of_range\<close> it throws.
\<close>

definition runner_at :: "'w Daq \<Rightarrow> int \<Rightarrow> 'w BoardRunner option" where
  "runner_at d board =
     (if board < 0 \<or> nat board \<ge> length (dq_runners d) then None else Some (dq_runners d ! nat board))"

definition boardName :: "'w Daq \<Rightarrow> int \<Rightarrow> string option" where
  "boardName d board =
     (if board < 0 \<or> nat board \<ge> length (dq_names d) then None else Some (dq_names d ! nat board))"

definition daq_boardInfo :: "'w Daq \<Rightarrow> int \<Rightarrow> BoardInfo" where
  "daq_boardInfo d board = (case runner_at d board of None \<Rightarrow> BoardInfo_init | Some r \<Rightarrow> br_info r)"

definition daq_writeRegister :: "'w Daq \<Rightarrow> int \<Rightarrow> u32 \<Rightarrow> u32 \<Rightarrow> 'w \<Rightarrow> bool \<times> 'w" where
  "daq_writeRegister d board a v w =
     (case runner_at d board of None \<Rightarrow> (False, w) | Some r \<Rightarrow> dg_writeRegister (br_dgtz r) a v w)"

definition daq_readRegister :: "'w Daq \<Rightarrow> int \<Rightarrow> u32 \<Rightarrow> 'w \<Rightarrow> u32 option \<times> 'w" where
  "daq_readRegister d board a w =
     (case runner_at d board of None \<Rightarrow> (None, w) | Some r \<Rightarrow> dg_readRegister (br_dgtz r) a w)"

definition daq_hits :: "'w Daq \<Rightarrow> int \<Rightarrow> HitTap option" where
  "daq_hits d board = map_option runner_hits (runner_at d board)"

definition daq_histograms :: "'w Daq \<Rightarrow> int \<Rightarrow> HistogramStore option" where
  "daq_histograms d board = map_option runner_histograms (runner_at d board)"

definition daq_buffersRead :: "'w Daq \<Rightarrow> int \<Rightarrow> u64 option" where
  "daq_buffersRead d board = map_option br_buffersRead (runner_at d board)"

definition daq_bytesRead :: "'w Daq \<Rightarrow> int \<Rightarrow> u64 option" where
  "daq_bytesRead d board = map_option br_bytesRead (runner_at d board)"

definition daq_bytesWritten :: "'w Daq \<Rightarrow> int \<Rightarrow> u64 option" where
  "daq_bytesWritten d board = map_option br_bytesWritten (runner_at d board)"

definition daq_blocksDropped :: "'w Daq \<Rightarrow> int \<Rightarrow> u64 option" where
  "daq_blocksDropped d board = map_option br_blocksDropped (runner_at d board)"

definition daq_commErrors :: "'w Daq \<Rightarrow> int \<Rightarrow> u64 option" where
  "daq_commErrors d board = map_option br_commErrors (runner_at d board)"

definition daq_eventsDecoded :: "'w Daq \<Rightarrow> int \<Rightarrow> u64 option" where
  "daq_eventsDecoded d board = map_option runner_eventsDecoded (runner_at d board)"

definition daq_decodeDropped :: "'w Daq \<Rightarrow> int \<Rightarrow> u64 option" where
  "daq_decodeDropped d board = map_option runner_decodeDropped (runner_at d board)"

definition daq_boardFailures :: "'w Daq \<Rightarrow> int \<Rightarrow> nat option" where
  "daq_boardFailures d board = map_option runner_boardFailures (runner_at d board)"

definition daq_incompleteEvents :: "'w Daq \<Rightarrow> int \<Rightarrow> nat option" where
  "daq_incompleteEvents d board = map_option runner_incompleteEvents (runner_at d board)"

end
