(* ===== verification/Daq_Props.thy ===== *)
theory Daq_Props
  imports Daq_Control
begin

text \<open>
  What the control operations of \<open>Daq\<close> guarantee: the choice of the master, the order in which a
  run is started and stopped, the rollback of a failed start, and the settings of the statistics.
  The order is stated on logged boards, board \<open>i\<close> of the run writing its calls under index \<open>i\<close>.
\<close>

section \<open>The master\<close>

lemma master_from_cases:
  "(\<exists>j < length rs. synchronised (br_dgtz (rs ! j)) w \<and> boardRegId (br_info (rs ! j)) = 0 \<and>
      master_from i f rs w = int (i + j) \<and>
      (\<forall>k < j. \<not> (synchronised (br_dgtz (rs ! k)) w \<and> boardRegId (br_info (rs ! k)) = 0))) \<or>
   ((\<forall>j < length rs. synchronised (br_dgtz (rs ! j)) w \<longrightarrow> boardRegId (br_info (rs ! j)) \<noteq> 0) \<and>
    (if f < 0
     then (\<exists>j < length rs. synchronised (br_dgtz (rs ! j)) w \<and> master_from i f rs w = int (i + j) \<and>
             (\<forall>k < j. \<not> synchronised (br_dgtz (rs ! k)) w)) \<or>
          ((\<forall>j < length rs. \<not> synchronised (br_dgtz (rs ! j)) w) \<and> master_from i f rs w = f)
     else master_from i f rs w = f))"
proof (induction rs arbitrary: i f)
  case (Cons r rs)
  consider "\<not> synchronised (br_dgtz r) w"
    | "synchronised (br_dgtz r) w" "boardRegId (br_info r) = 0"
    | "synchronised (br_dgtz r) w" "boardRegId (br_info r) \<noteq> 0" by blast
  then show ?case
  proof cases
    case 1
    then show ?thesis using Cons.IH [of "Suc i" f]
      by (cases "f < 0") (simp_all add: All_less_Suc2 Ex_less_Suc2 ac_simps)
  next
    case 2
    then show ?thesis by (auto simp: Let_def)
  next
    case 3
    then show ?thesis using Cons.IH [of "Suc i" "if f < 0 then int i else f"]
      by (auto simp: Let_def All_less_Suc2 Ex_less_Suc2 split: if_splits)
  qed
qed simp

text \<open>
  C36. The master of a synchronised start is the right board: there is one exactly when some board
  waits for an external start, and it is then the first such board with register id 0, or, when
  none of them has that id, the first such board.
\<close>

theorem master_index_spec:
  fixes d :: "'w Daq"
  defines "n \<equiv> length (dq_runners d)" and "waits \<equiv> \<lambda>w i. synchronised (br_dgtz (dq_runners d ! i)) w"
    and "zero \<equiv> \<lambda>i. boardRegId (br_info (dq_runners d ! i)) = 0"
  shows "(masterIndex d w = - 1 \<longleftrightarrow> (\<forall>i < n. \<not> waits w i)) \<and>
    (masterIndex d w \<noteq> - 1 \<longrightarrow>
       (\<exists>m < n. masterIndex d w = int m \<and> waits w m \<and>
          (if zero m then \<forall>k < m. \<not> (waits w k \<and> zero k)
           else (\<forall>k < n. waits w k \<longrightarrow> \<not> zero k) \<and> (\<forall>k < m. \<not> waits w k))))"
  using master_from_cases [of "dq_runners d" w 0 "- 1"]
  unfolding masterIndex_def n_def waits_def zero_def by auto

section \<open>Boards that log\<close>

text \<open>Board \<open>k + i\<close> of the run logs its calls under its own index.\<close>

fun on_log :: "(nat \<Rightarrow> 'h Digitizer) \<Rightarrow> nat \<Rightarrow> 'h logged_world BoardRunner list \<Rightarrow> bool" where
  "on_log ds k [] \<longleftrightarrow> True"
| "on_log ds k (r # rs) \<longleftrightarrow> br_dgtz r = logged_board k (ds k) \<and> on_log ds (k + 1) rs"

definition idle :: "'w BoardRunner \<Rightarrow> bool" where
  "idle r \<longleftrightarrow> \<not> br_running r \<and> \<not> br_reader r"

lemma on_log_nth: "on_log ds k rs \<Longrightarrow> i < length rs \<Longrightarrow> br_dgtz (rs ! i) = logged_board (k + i) (ds (k + i))"
  by (induction rs arbitrary: k i) (auto simp: nth_Cons split: nat.splits)

lemma on_log_append: "on_log ds k (rs @ rs') \<longleftrightarrow> on_log ds k rs \<and> on_log ds (k + length rs) rs'"
  by (induction rs arbitrary: k) auto

lemma on_log_take: "on_log ds k rs \<Longrightarrow> on_log ds k (take n rs)"
  using on_log_append [of ds k "take n rs" "drop n rs"] by simp

lemma on_log_dgtz: "map br_dgtz rs' = map br_dgtz rs \<Longrightarrow> on_log ds k rs' = on_log ds k rs"
proof (induction rs arbitrary: rs' k)
  case (Cons r rs)
  then obtain r' rs1 where "rs' = r' # rs1" "br_dgtz r' = br_dgtz r" "map br_dgtz rs1 = map br_dgtz rs"
    by (cases rs') simp_all
  then show ?case using Cons.IH [of rs1 "k + 1"] by simp
qed simp

text \<open>The calls that set a run up: before anything is armed or started.\<close>

fun setup_call :: "nat \<times> board_call \<Rightarrow> bool" where
  "setup_call (_, CallOpen _) = True"
| "setup_call (_, CallConfigure _) = True"
| "setup_call (_, CallWriteReg _ _ _) = True"
| "setup_call (_, CallReadReg _ _) = True"
| "setup_call _ = False"

definition grows :: "'h logged_world \<Rightarrow> 'h logged_world \<Rightarrow> bool" where
  "grows w w' \<longleftrightarrow> (\<exists>new. fst w' = fst w @ new \<and> list_all setup_call new)"

interpretation setup_log: footprint grows
proof
  show "grows w w" for w by (simp add: grows_def)
  show "grows u v \<Longrightarrow> grows v w \<Longrightarrow> grows u w" for u v w
    by (fastforce simp: grows_def)
qed

lemma log_call_grows: "setup_call (i, ev r) \<Longrightarrow> log_call i ev f w = (r, w') \<Longrightarrow> grows w w'"
  by (erule log_callE) (auto simp: grows_def)

lemma prepare_grows:
  assumes "runner_prepare r w = (ok, r', w')" and "br_dgtz r = logged_board i d"
  shows "grows w w' \<and> br_dgtz r' = br_dgtz r \<and> br_running r' = br_running r \<and> br_reader r' = br_reader r"
proof -
  obtain a w1 where o: "dg_open (br_dgtz r) w = (a, w1)" by (metis surj_pair)
  obtain b w2 where c: "dg_configure (br_dgtz r) w1 = (b, w2)" by (metis surj_pair)
  have "grows w w1" "grows w1 w2"
    using o c assms(2) by (auto simp: logged_simps intro: log_call_grows [rotated])
  moreover have "w' = (if a then w2 else w1)" "br_dgtz r' = br_dgtz r" "br_running r' = br_running r"
    "br_reader r' = br_reader r"
    using assms(1) o c by (auto simp: runner_prepare_def Let_def split: if_splits)
  ultimately show ?thesis using setup_log.compose [of w w1 w2] by auto
qed

lemma prepare_all_grows:
  assumes "prepare_all rs w = (ok, rs', w')" and "on_log ds k rs"
  shows "grows w w' \<and> map br_dgtz rs' = map br_dgtz rs \<and> map br_running rs' = map br_running rs \<and>
    map br_reader rs' = map br_reader rs"
  using assms
proof (induction rs arbitrary: k w ok rs' w')
  case (Cons r rs)
  obtain a r1 w1 where p: "runner_prepare r w = (a, r1, w1)" by (metis surj_pair)
  note g = prepare_grows [OF p, of k "ds k"]
  obtain b rs1 w2 where q: "prepare_all rs w1 = (b, rs1, w2)" by (metis surj_pair)
  show ?case
    using Cons.prems g Cons.IH [OF q, of "k + 1"] p q setup_log.compose [of w w1 w2]
    by (cases a) auto
qed (simp add: setup_log.same)

lemma alignClockChain_grows:
  assumes "alignClockChain sl d w = Some w'" and "on_log ds 0 (dq_runners d)"
    and "\<And>ms w. fst (sl ms w) = fst w"
  shows "grows w w'"
proof -
  let ?acq = "map (acquisitionControl \<circ> br_info) (dq_runners d)"
  let ?order = "clockChainOrder ?acq (masterIndex d w)"
  let ?chain = "map (clock_board (masterIndex d w) (dq_runners d)) ?order"
  show ?thesis
  proof (cases "length ?order < 2")
    case True
    then show ?thesis using assms(1) by (simp add: alignClockChain_def Let_def setup_log.same)
  next
    case False
    then obtain ss where s: "synchroniseClockChain ?chain (ClockSyncOptions_default sl) w = Some (ss, w')"
      using assms(1) by (auto simp: alignClockChain_def Let_def)
    have bound: "i \<in> set ?order \<Longrightarrow> i < length (dq_runners d)" for i
      by (auto simp: clockChainOrder_def Let_def split: if_splits)
    show ?thesis
    proof (rule setup_log.synchronise_within [OF s])
      fix b wr a v u
      assume "b \<in> set ?chain" "cb_write b = Some wr"
      then show "grows u (snd (wr a v u))"
        using on_log_nth [OF assms(2)] bound
        by (auto simp: clock_board_def logged_simps intro!: log_call_grows [OF _ surjective_pairing])
    next
      fix b rdf a u
      assume "b \<in> set ?chain" "cb_read b = Some rdf"
      then show "grows u (snd (rdf a u))"
        using on_log_nth [OF assms(2)] bound
        by (auto simp: clock_board_def logged_simps intro!: log_call_grows [OF _ surjective_pairing])
    qed (simp add: grows_def ClockSyncOptions_default_def assms(3))
  qed
qed

section \<open>Launching\<close>

definition launch_call :: "'w BoardRunner \<Rightarrow> bool \<Rightarrow> board_call" where
  "launch_call r = (if syncRole (br_info r) = Independent then CallStart else CallArm)"

fun launched :: "nat \<Rightarrow> 'w BoardRunner list \<Rightarrow> (nat \<times> board_call) list" where
  "launched i [] = []"
| "launched i (r # rs) = (i, launch_call r True) # launched (i + 1) rs"

lemma launch_one:
  assumes "(if waits then runner_arm r w else runner_start r w) = (ok, r', w')" and "idle r"
    and "br_dgtz r = logged_board i d"
  shows "fst w' = fst w @ [(i, if waits then CallArm ok else CallStart ok)] \<and>
    br_dgtz r' = br_dgtz r \<and> br_running r' = ok \<and> \<not> br_reader r'"
proof (cases waits)
  case True
  obtain a w1 where c: "dg_arm (br_dgtz r) w = (a, w1)" by (metis surj_pair)
  then have "fst w1 = fst w @ [(i, CallArm a)]" using assms(3) by (auto simp: logged_simps elim: log_callE)
  then show ?thesis using assms c True by (auto simp: runner_arm_def idle_def Let_def split: if_splits)
next
  case False
  obtain a w1 where c: "dg_start (br_dgtz r) w = (a, w1)" by (metis surj_pair)
  then have "fst w1 = fst w @ [(i, CallStart a)]" using assms(3) by (auto simp: logged_simps elim: log_callE)
  then show ?thesis using assms c False by (auto simp: runner_start_def idle_def Let_def split: if_splits)
qed

text \<open>What a pass of \<open>launch_all\<close> leaves, whether it went through or stopped at board \<open>i + n\<close>.\<close>

definition launch_result ::
  "int \<Rightarrow> nat \<Rightarrow> nat option \<Rightarrow> 'h logged_world BoardRunner list \<Rightarrow> (nat \<times> board_call) list \<Rightarrow> bool" where
  "launch_result m i f rs' new \<longleftrightarrow>
     (case f of
        None \<Rightarrow> new = launched i rs' \<and> list_all br_running rs' \<and>
          (\<forall>j < length rs'. syncRole (br_info (rs' ! j)) = Master \<longrightarrow> int (i + j) = m)
      | Some k \<Rightarrow> \<exists>n call. k = i + n \<and> n < length rs' \<and> new = launched i (take n rs') @ [(k, call)] \<and>
          call \<in> {CallStart False, CallArm False} \<and> list_all br_running (take n rs') \<and> list_all idle (drop n rs'))"

lemma launch_result_Cons:
  assumes "launch_result m (i + 1) f rs new" and "br_running r"
    and "syncRole (br_info r) = Master \<longrightarrow> int i = m"
  shows "launch_result m i f (r # rs) ((i, launch_call r True) # new)"
proof (cases f)
  case None
  then show ?thesis using assms by (simp add: launch_result_def All_less_Suc2 ac_simps)
next
  case (Some k)
  with assms(1) obtain n call where "k = i + 1 + n" "n < length rs"
    "new = launched (i + 1) (take n rs) @ [(k, call)]" "call \<in> {CallStart False, CallArm False}"
    "list_all br_running (take n rs)" "list_all idle (drop n rs)"
    by (auto simp: launch_result_def)
  then show ?thesis using assms(2) Some by (auto simp: launch_result_def intro!: exI [of _ "Suc n"])
qed

lemma launch_all_log:
  assumes "launch_all m i rs w = (f, rs', w')" and "on_log ds i rs" and "list_all idle rs"
  shows "\<exists>new. fst w' = fst w @ new \<and> launch_result m i f rs' new \<and>
    map br_dgtz rs' = map br_dgtz rs \<and> list_all (\<lambda>r. \<not> br_reader r) rs'"
  using assms
proof (induction rs arbitrary: i w f rs' w')
  case (Cons r rs)
  let ?synced = "synchronised (br_dgtz r) w"
  obtain ok r1 w1 where l: "(if ?synced then runner_arm r w else runner_start r w) = (ok, r1, w1)"
    by (metis surj_pair)
  have r: "idle r" "br_dgtz r = logged_board i (ds i)" using Cons.prems by simp_all
  note o = launch_one [OF l r]
  show ?case
  proof (cases ok)
    case False
    then have "f = Some i" "rs' = r1 # rs" "w' = w1" using Cons.prems(1) l by simp_all
    moreover have "idle r1" using o False by (simp add: idle_def)
    then have "list_all idle (r1 # rs)" using Cons.prems(3) by simp
    moreover have "list_all (\<lambda>r. \<not> br_reader r) (r1 # rs)"
      using o Cons.prems(3) by (auto simp: idle_def list_all_iff)
    ultimately show ?thesis using o False
      by (auto simp: launch_result_def intro!: exI [of _ 0])
  next
    case True
    obtain f2 rs2 w2 where t: "launch_all m (i + 1) rs w1 = (f2, rs2, w2)" by (metis surj_pair)
    obtain r2 where r2: "r2 = setSyncRole (if \<not> ?synced then Independent else if int i = m then Master else Slave) r1"
      by simp
    have eq: "f = f2" "rs' = r2 # rs2" "w' = w2" using Cons.prems(1) l t True r2 by simp_all
    have "on_log ds (i + 1) rs" "list_all idle rs" using Cons.prems by simp_all
    from Cons.IH [OF t this] obtain new where n: "fst w2 = fst w1 @ new" "launch_result m (i + 1) f2 rs2 new"
      "map br_dgtz rs2 = map br_dgtz rs" "list_all (\<lambda>r. \<not> br_reader r) rs2" by blast
    have rr: "br_running r2" "\<not> br_reader r2" "br_dgtz r2 = br_dgtz r"
      "launch_call r2 True = (if ?synced then CallArm ok else CallStart ok)"
      "syncRole (br_info r2) = Master \<longrightarrow> int i = m"
      using o True by (simp_all add: r2 setSyncRole_def launch_call_def)
    have "launch_result m i f (r2 # rs2) ((i, launch_call r2 True) # new)"
      by (rule launch_result_Cons) (use n(2) rr eq in simp_all)
    moreover have "fst w' = fst w @ (i, launch_call r2 True) # new" using n(1) o rr(4) eq by simp
    ultimately show ?thesis using n rr eq by auto
  qed
qed (simp add: launch_result_def)

section \<open>Starting a run\<close>

lemma daq_prepare_log:
  assumes "daq_prepare now d disk w = (ok, d', disk', w')" and "on_log ds 0 (dq_runners d)"
    and "list_all idle (dq_runners d)"
  shows "grows w w' \<and> map br_dgtz (dq_runners d') = map br_dgtz (dq_runners d) \<and>
    list_all idle (dq_runners d') \<and> dq_queue d' = dq_queue d \<and> dq_running d' = dq_running d"
proof (cases "dq_prepared d")
  case True
  then show ?thesis using assms by (simp add: daq_prepare_def setup_log.same)
next
  case False
  obtain b rs w1 where p: "prepare_all (dq_runners d) w = (b, rs, w1)" by (metis surj_pair)
  note g = prepare_all_grows [OF p assms(2)]
  have len: "length rs = length (dq_runners d)" using g by (metis length_map)
  have "list_all idle rs"
    unfolding list_all_length
  proof (intro allI impI)
    fix n assume "n < length rs"
    then have "br_running (rs ! n) = br_running (dq_runners d ! n)" "br_reader (rs ! n) = br_reader (dq_runners d ! n)"
      "idle (dq_runners d ! n)"
      using g len assms(3) by (metis nth_map, metis nth_map, simp add: list_all_length)
    then show "idle (rs ! n)" by (simp add: idle_def)
  qed
  moreover have "w' = w1" "dq_runners d' = rs" "dq_queue d' = dq_queue d" "dq_running d' = dq_running d"
    using assms(1) False p by (auto simp: daq_prepare_def Let_def split: if_splits prod.splits)
  ultimately show ?thesis using g by simp
qed

text \<open>The stages of a start, as the proofs about it use them.\<close>

definition fired :: "int \<Rightarrow> bool \<Rightarrow> (nat \<times> board_call) list" where
  "fired m ok = (if m < 0 then [] else [(nat m, CallTrigger ok)])"

lemma masterIndex_bound: "masterIndex d w \<ge> 0 \<Longrightarrow> nat (masterIndex d w) < length (dq_runners d)"
  using master_from_cases [of "dq_runners d" w 0 "- 1"] by (auto simp: masterIndex_def)

lemma fire_master_log:
  assumes "fire_master m rs w = (ok, w')" and "on_log ds 0 rs" and "m < 0 \<or> nat m < length rs"
  shows "fst w' = fst w @ fired m ok \<and> (m < 0 \<longrightarrow> ok)"
proof (cases "m < 0")
  case False
  then have "dg_sendSWTrigger (logged_board (nat m) (ds (nat m))) w = (ok, w')"
    using assms on_log_nth [OF assms(2), of "nat m"] by (simp add: fire_master_def)
  then show ?thesis using False by (auto simp: logged_simps fired_def elim: log_callE)
qed (use assms in \<open>simp add: fire_master_def fired_def\<close>)

text \<open>
  A start that gets as far as launching: the set-up, the world in which the master is chosen, and
  the launch.
\<close>

lemma daq_start_stages:
  assumes "daq_start lg env d disk w = Some (ok, d', disk', w')"
    and "\<not> dq_running d" and "on_log ds 0 (dq_runners d)" and "list_all idle (dq_runners d)"
    and "\<And>ms w. fst (en_sleep env ms w) = fst w"
  obtains (unprepared) "\<not> ok" "\<not> dq_running d'" "list_all idle (dq_runners d')" "grows w w'"
  | (launching) dp diskp wp f rs wl where "grows w wp" "map br_dgtz (dq_runners dp) = map br_dgtz (dq_runners d)"
      "dq_queue dp = dq_queue d" "\<not> dq_running dp"
      "launch_all (masterIndex dp wp) 0 (dq_runners dp) wp = (f, rs, wl)"
      "launch_result (masterIndex dp wp) 0 f rs (drop (length (fst wp)) (fst wl))" "fst wl = fst wp @ drop (length (fst wp)) (fst wl)"
      "map br_dgtz rs = map br_dgtz (dq_runners d)" "list_all (\<lambda>r. \<not> br_reader r) rs"
      "case f of
         Some i \<Rightarrow> \<not> ok \<and> daq_unwind lg env (i + 1) (dp\<lparr> dq_runners := rs \<rparr>) diskp wl = Some (d', disk', w')
       | None \<Rightarrow> (case fire_master (masterIndex dp wp) rs wl of
           (True, w2) \<Rightarrow> ok \<and> d' = daq_go (dp\<lparr> dq_runners := rs \<rparr>) \<and> disk' = diskp \<and> w' = w2
         | (False, w2) \<Rightarrow> \<not> ok \<and> daq_unwind lg env (length rs) (dp\<lparr> dq_runners := rs \<rparr>) diskp w2 = Some (d', disk', w'))"
proof -
  obtain a d1 disk1 w1 where p: "daq_prepare (en_epoch env) d disk w = (a, d1, disk1, w1)" by (metis surj_pair)
  note pl = daq_prepare_log [OF p assms(3,4)]
  show ?thesis
  proof (cases a)
    case False
    then show ?thesis using assms(1,2) p pl by (intro unprepared) (auto simp: daq_start_def)
  next
    case True
    obtain w2 where al: "alignClockChain (en_sleep env) d1 w1 = Some w2"
      using assms(1,2) p True by (auto simp: daq_start_def bind_eq_Some_conv)
    have on: "on_log ds 0 (dq_runners d1)" using on_log_dgtz assms(3) pl by blast
    have g: "grows w w2"
      using setup_log.compose [of w w1 w2] pl alignClockChain_grows [OF al on assms(5)] by blast
    let ?dp = "start_writer env d1"
    have dp: "dq_runners ?dp = dq_runners d1" "dq_queue ?dp = dq_queue d1" "dq_running ?dp = dq_running d1"
      by (simp_all add: start_writer_def Let_def)
    then have mi: "masterIndex ?dp w2 = masterIndex d1 w2" by (simp add: masterIndex_def)
    obtain f rs wl where l: "launch_all (masterIndex ?dp w2) 0 (dq_runners ?dp) w2 = (f, rs, wl)" by (metis surj_pair)
    have on': "on_log ds 0 (dq_runners ?dp)" and id: "list_all idle (dq_runners ?dp)" using on dp pl by simp_all
    obtain new where n: "fst wl = fst w2 @ new" "launch_result (masterIndex ?dp w2) 0 f rs new"
      "map br_dgtz rs = map br_dgtz (dq_runners ?dp)" "list_all (\<lambda>r. \<not> br_reader r) rs"
      using launch_all_log [OF l on' id] by blast
    show ?thesis
    proof (rule launching [where dp = ?dp and diskp = disk1 and wp = w2 and f = f and rs = rs and wl = wl])
      show "case f of
         Some i \<Rightarrow> \<not> ok \<and> daq_unwind lg env (i + 1) (?dp\<lparr> dq_runners := rs \<rparr>) disk1 wl = Some (d', disk', w')
       | None \<Rightarrow> (case fire_master (masterIndex ?dp w2) rs wl of
           (True, w2) \<Rightarrow> ok \<and> d' = daq_go (?dp\<lparr> dq_runners := rs \<rparr>) \<and> disk' = disk1 \<and> w' = w2
         | (False, w2) \<Rightarrow> \<not> ok \<and> daq_unwind lg env (length rs) (?dp\<lparr> dq_runners := rs \<rparr>) disk1 w2 = Some (d', disk', w'))"
        using assms(1,2) p True al l mi
        by (auto simp: daq_start_def bind_eq_Some_conv Let_def split: option.splits prod.splits bool.splits)
    qed (use g dp pl n l mi assms(2) in auto)
  qed
qed

section \<open>Stopping\<close>

text \<open>
  What the log of a pass over the boards looks like, in add order: a running board gets one stop,
  then only reads, then one close; a board that is not running gets nothing.
\<close>

fun stop_log :: "nat \<Rightarrow> 'w BoardRunner list \<Rightarrow> (nat \<times> board_call) list \<Rightarrow> bool" where
  "stop_log i [] l \<longleftrightarrow> l = []"
| "stop_log i (r # rs) l \<longleftrightarrow>
     (\<exists>a b. l = a @ b \<and> stop_log (i + 1) rs b \<and>
        (if br_running r
         then \<exists>ok reads. a = (i, CallStop ok) # reads @ [(i, CallClose)] \<and> list_all (is_read_of i) reads
         else a = []))"

lemma is_read_of_fst: "is_read_of i e \<Longrightarrow> fst e = i"
  by (cases "(i, e)" rule: is_read_of.cases) auto

lemma reads_fst: "\<forall>x \<in> set reads. is_read_of i x \<Longrightarrow> e \<in> set reads \<Longrightarrow> fst e = i"
  by (auto intro: is_read_of_fst)

lemma stop_log_boards: "stop_log i rs l \<Longrightarrow> e \<in> set l \<Longrightarrow> i \<le> fst e \<and> fst e < i + length rs"
proof (induction rs arbitrary: i l)
  case (Cons r rs)
  then obtain a b where ab: "l = a @ b" "stop_log (i + 1) rs b"
    "if br_running r then \<exists>ok reads. a = (i, CallStop ok) # reads @ [(i, CallClose)] \<and> list_all (is_read_of i) reads
     else a = []" by auto
  have "e \<in> set a \<Longrightarrow> fst e = i"
    using ab(3) by (auto split: if_splits simp: list_all_iff dest: reads_fst)
  then show ?case using Cons.IH [OF ab(2)] Cons.prems(2) ab(1) by auto
qed simp

lemma stop_log_closes:
  assumes "stop_log i rs l" and "k < length rs" and "br_running (rs ! k)"
  shows "\<exists>a b. l = a @ (i + k, CallClose) # b \<and> (\<forall>e \<in> set b. fst e \<noteq> i + k)"
  using assms
proof (induction rs arbitrary: i l k)
  case (Cons r rs)
  then obtain a b where ab: "l = a @ b" "stop_log (i + 1) rs b"
    "if br_running r then \<exists>ok reads. a = (i, CallStop ok) # reads @ [(i, CallClose)] \<and> list_all (is_read_of i) reads
     else a = []" by auto
  show ?case
  proof (cases k)
    case 0
    then obtain ok reads where "a = (i, CallStop ok) # reads @ [(i, CallClose)]" using ab(3) Cons.prems(3) by auto
    then have "l = ((i, CallStop ok) # reads) @ (i + k, CallClose) # b" using ab(1) 0 by simp
    moreover have "\<forall>e \<in> set b. fst e \<noteq> i + k" using stop_log_boards [OF ab(2)] 0 by fastforce
    ultimately show ?thesis by blast
  next
    case (Suc k')
    then obtain a' b' where "b = a' @ (i + 1 + k', CallClose) # b'" "\<forall>e \<in> set b'. fst e \<noteq> i + 1 + k'"
      using Cons.IH [OF ab(2), of k'] Cons.prems by auto
    then show ?thesis using ab(1) Suc by (intro exI [of _ "a @ a'"] exI [of _ b']) simp
  qed
qed simp

text \<open>A runner whose reader is up is running: what every operation keeps.\<close>

definition sane :: "'w BoardRunner \<Rightarrow> bool" where
  "sane r \<longleftrightarrow> (br_reader r \<longrightarrow> br_running r)"

lemma stop_all_log:
  assumes "stop_all lg env i rs q w = Some (rs', q', w')" and "on_log ds i rs" and "list_all sane rs"
  shows "\<exists>new. fst w' = fst w @ new \<and> stop_log i rs new \<and> list_all idle rs' \<and> length rs' = length rs"
  using assms
proof (induction rs arbitrary: i q w rs' q' w')
  case (Cons r rs)
  obtain r1 q1 w1 rs1 where s: "runner_stop lg (env i) r q w = Some (r1, q1, w1)"
    "stop_all lg env (i + 1) rs q1 w1 = Some (rs1, q', w')" "rs' = r1 # rs1"
    using Cons.prems(1) by (auto simp: bind_eq_Some_conv)
  obtain new where n: "fst w' = fst w1 @ new" "stop_log (i + 1) rs new" "list_all idle rs1" "length rs1 = length rs"
    using Cons.IH [OF s(2)] Cons.prems by auto
  have "\<exists>a. fst w1 = fst w @ a \<and> idle r1 \<and>
      (if br_running r
       then \<exists>ok reads. a = (i, CallStop ok) # reads @ [(i, CallClose)] \<and> list_all (is_read_of i) reads
       else a = [])"
  proof (cases "br_running r")
    case True
    then show ?thesis using runner_stop_log [OF True _ s(1)] Cons.prems(2) by (fastforce simp: idle_def)
  next
    case False
    then show ?thesis using s(1) Cons.prems(3) by (simp add: runner_stop_def idle_def sane_def)
  qed
  then obtain a where a: "fst w1 = fst w @ a" "idle r1"
    "if br_running r then \<exists>ok reads. a = (i, CallStop ok) # reads @ [(i, CallClose)] \<and> list_all (is_read_of i) reads
     else a = []" by blast
  then have "stop_log i (r # rs) (a @ new)"
    unfolding stop_log.simps using n(2) by (intro exI [of _ a] exI [of _ new]) simp
  then show ?case using a n s(3) by (intro exI [of _ "a @ new"]) simp
qed simp

lemma daq_teardown_facts:
  assumes "daq_teardown env d disk = Some (d', disk')"
  shows "dq_runners d' = dq_runners d \<and> dq_running d' = dq_running d \<and> dq_stats d' = dq_stats d \<and>
    (settled (en_ticks env) \<longrightarrow> closed (dq_queue d') \<and> \<not> wt_thread (dq_writing d'))"
proof -
  obtain wt disk1 where p: "en_progress env (dq_writing d) disk = (wt, disk1)" by force
  obtain wt2 q2 disk2 where t: "teardownWriter (en_ticks env) wt (dq_queue d) disk1 = Some (wt2, q2, disk2)"
    "d' = d\<lparr> dq_writing := wt2, dq_queue := q2 \<rparr>"
    using assms p by (auto simp: daq_teardown_def bind_eq_Some_conv)
  then show ?thesis using teardown_returns [of "en_ticks env" wt "dq_queue d" disk1] by auto
qed

lemma daq_unwind_log:
  assumes "daq_unwind lg env n d disk w = Some (d', disk', w')" and "on_log ds 0 (dq_runners d)"
    and "list_all sane (take n (dq_runners d))"
  shows "\<exists>new. fst w' = fst w @ new \<and> stop_log 0 (take n (dq_runners d)) new \<and>
    list_all idle (take n (dq_runners d')) \<and> drop n (dq_runners d') = drop n (dq_runners d) \<and>
    dq_running d' = dq_running d \<and>
    (settled (en_ticks env) \<longrightarrow> closed (dq_queue d') \<and> \<not> wt_thread (dq_writing d'))"
proof -
  obtain rs q w1 disk1 where s: "stop_all lg (en_stops env) 0 (take n (dq_runners d)) (dq_queue d) w = Some (rs, q, w')"
    "daq_teardown env (d\<lparr> dq_runners := rs @ drop n (dq_runners d), dq_queue := q \<rparr>) disk = Some (d', disk')"
    using assms(1) by (auto simp: daq_unwind_def bind_eq_Some_conv)
  obtain new where n: "fst w' = fst w @ new" "stop_log 0 (take n (dq_runners d)) new" "list_all idle rs"
    "length rs = length (take n (dq_runners d))"
    using stop_all_log [OF s(1) on_log_take [OF assms(2)] assms(3)] by blast
  note t = daq_teardown_facts [OF s(2)]
  have "take n (dq_runners d') = rs" "drop n (dq_runners d') = drop n (dq_runners d)"
    using t n(4) by (auto simp: min_def split: if_splits)
  then show ?thesis using t n by auto
qed

section \<open>Properties of a start\<close>

lemma launched_startReader: "launched i (map startReader rs) = launched i rs"
  by (induction rs arbitrary: i) (simp_all add: startReader_def launch_call_def)


text \<open>Every call but a successful arm or start.\<close>

fun not_launch :: "nat \<times> board_call \<Rightarrow> bool" where
  "not_launch (_, CallStart ok) = (\<not> ok)"
| "not_launch (_, CallArm ok) = (\<not> ok)"
| "not_launch _ = True"

lemma setup_not_launch: "setup_call e \<Longrightarrow> not_launch e"
  by (cases e rule: setup_call.cases) auto

lemma launched_boards: "e \<in> set (launched i rs) \<Longrightarrow> fst e < i + length rs"
  by (induction rs arbitrary: i) fastforce+

lemma stop_log_not_launch: "stop_log i rs l \<Longrightarrow> list_all not_launch l"
proof (induction rs arbitrary: i l)
  case (Cons r rs)
  have "list_all (is_read_of i) reads \<Longrightarrow> list_all not_launch reads" for reads
    by (induction reads) (auto elim!: is_read_of.elims)
  with Cons show ?case by (auto split: if_splits)
qed simp

text \<open>However the launch failed, the log ends in a launch of some boards, and exactly those are unwound.\<close>

lemma failed_launch:
  assumes "launch_result m 0 f rs new" and "fst wl = fst wp @ new" and "on_log ds 0 rs" and "m < 0 \<or> nat m < length rs"
    and "case f of
         Some i \<Rightarrow> unwind (i + 1) wl
       | None \<Rightarrow> (case fire_master m rs wl of (True, w2) \<Rightarrow> False | (False, w2) \<Rightarrow> unwind (length rs) w2)"
  shows "\<exists>k n w2 tail. unwind n w2 \<and> fst w2 = fst wp @ launched 0 (take k rs) @ tail \<and> list_all not_launch tail \<and>
    k \<le> n \<and> list_all br_running (take k rs) \<and> list_all idle (drop n rs)"
proof (cases f)
  case None
  then obtain w2 where fm: "fire_master m rs wl = (False, w2)" "unwind (length rs) w2"
    using assms(5) by (auto split: prod.splits bool.splits)
  then have "fst w2 = fst wl @ fired m False" using fire_master_log [OF fm(1) assms(3,4)] by simp
  then show ?thesis
    using fm assms(1,2) None
    by (intro exI [of _ "length rs"] exI [of _ w2] exI [of _ "fired m False"]) (simp add: launch_result_def fired_def)
next
  case (Some i)
  then obtain call where r: "fst wl = fst wp @ launched 0 (take i rs) @ [(i, call)]"
    "call \<in> {CallStart False, CallArm False}" "list_all br_running (take i rs)" "list_all idle (drop i rs)"
    using assms(1,2) by (auto simp: launch_result_def)
  have "drop (i + 1) rs = drop 1 (drop i rs)" by simp
  then have "list_all idle (drop (i + 1) rs)" using r(4) by (metis in_set_dropD list_all_iff)
  then show ?thesis
    using assms(5) Some r
    by (intro exI [of _ i] exI [of _ "i + 1"] exI [of _ wl] exI [of _ "[(i, call)]"]) auto
qed

lemma launched_then_closed:
  assumes "list_all setup_call pre" and "list_all not_launch tail" and "stop_log 0 (take n rs) stops" and "k \<le> n"
    and "list_all br_running (take k rs)"
    and "(j, call) \<in> set (pre @ launched 0 (take k rs) @ tail @ stops)" and "call \<in> {CallStart True, CallArm True}"
  shows "snd (last (filter (\<lambda>e. fst e = j) (pre @ launched 0 (take k rs) @ tail @ stops))) = CallClose"
proof -
  have "\<not> not_launch (j, call)" using assms(7) by auto
  then have "(j, call) \<notin> set pre" "(j, call) \<notin> set tail" "(j, call) \<notin> set stops"
    using assms(1,2) stop_log_not_launch [OF assms(3)] by (auto simp: list_all_iff dest: setup_not_launch)
  then have "(j, call) \<in> set (launched 0 (take k rs))" using assms(6) by auto
  then have j: "j < length (take k rs)" using launched_boards by fastforce
  then have "j < length (take n rs)" "br_running (take n rs ! j)"
    using assms(4,5) by (simp_all add: list_all_length)
  with stop_log_closes [OF assms(3)] obtain a b where "stops = a @ (j, CallClose) # b" "\<forall>e \<in> set b. fst e \<noteq> j"
    by fastforce
  moreover from this(2) have "filter (\<lambda>e. fst e = j) b = []" by (simp add: filter_empty_conv)
  ultimately show ?thesis by simp
qed

text \<open>
  C34. A start that fails leaves nothing acquiring. Whatever failed, the \<open>Daq\<close> is not running and
  no board is running or being read; and every board that had accepted its arm or start has, as
  the last thing that was done to it, been closed.
\<close>

theorem failed_start_rolls_back:
  assumes "daq_start lg env d disk (l, h) = Some (False, d', disk', (l', h'))"
    and "\<not> dq_running d" and "on_log ds 0 (dq_runners d)" and "list_all idle (dq_runners d)"
    and "\<And>ms w. fst (en_sleep env ms w) = fst w"
  shows "\<not> dq_running d' \<and> list_all idle (dq_runners d') \<and>
    (\<exists>new. l' = l @ new \<and>
       (\<forall>(j, call) \<in> set new. call \<in> {CallStart True, CallArm True} \<longrightarrow>
          snd (last (filter (\<lambda>e. fst e = j) new)) = CallClose))"
  using assms
proof (cases rule: daq_start_stages)
  case unprepared
  then obtain new where "l' = l @ new" "list_all setup_call new" by (auto simp: grows_def)
  moreover from this(2) have "\<forall>(j, call) \<in> set new. call \<notin> {CallStart True, CallArm True}"
    by (fastforce simp: list_all_iff)
  ultimately show ?thesis using unprepared by fastforce
next
  case (launching dp diskp wp f rs wl)
  let ?m = "masterIndex dp wp"
  obtain pre where s: "fst wp = l @ pre" "list_all setup_call pre"
    using launching(1) by (auto simp: grows_def)
  have on: "on_log ds 0 rs" using on_log_dgtz launching(8) assms(3) by blast
  have sane: "list_all sane rs" using launching(9) by (auto simp: list_all_iff sane_def)
  have len: "length rs = length (dq_runners dp)" using launching(2,8) by (metis length_map)
  then have m: "?m < 0 \<or> nat ?m < length rs" using masterIndex_bound [of dp wp] by linarith
  obtain k n w2 tail where u: "daq_unwind lg env n (dp\<lparr> dq_runners := rs \<rparr>) diskp w2 = Some (d', disk', (l', h'))"
    "fst w2 = fst wp @ launched 0 (take k rs) @ tail" "list_all not_launch tail"
    "k \<le> n" "list_all br_running (take k rs)" "list_all idle (drop n rs)"
    using failed_launch [OF launching(6,7) on m, where
        unwind = "\<lambda>n w. daq_unwind lg env n (dp\<lparr> dq_runners := rs \<rparr>) diskp w = Some (d', disk', (l', h'))"]
      launching(10) by (auto split: option.splits prod.splits bool.splits)
  have "list_all sane (take n rs)" using sane by (metis in_set_takeD list_all_iff)
  with daq_unwind_log [OF u(1)] on obtain stops where st: "l' = fst w2 @ stops" "stop_log 0 (take n rs) stops"
    "list_all idle (take n (dq_runners d'))" "drop n (dq_runners d') = drop n rs" "dq_running d' = dq_running dp" by auto
  have "list_all idle (take n (dq_runners d') @ drop n (dq_runners d'))" using st(3,4) u(6) by (simp only: list_all_append)
  then have "list_all idle (dq_runners d')" by simp
  moreover have "l' = l @ (pre @ launched 0 (take k rs) @ tail @ stops)" using st(1) u(2) s(1) by simp
  moreover note launched_then_closed [OF s(2) u(3) st(2) u(4,5)]
  ultimately show ?thesis using st(5) launching(4) by blast
qed

section \<open>Properties of a stop\<close>

lemma stop_all_total:
  assumes "list_all (\<lambda>r. runner_fit lg live r \<and> reads_fit (br_dgtz r)) rs" and "\<And>i. stop_fit lg (env i)"
  shows "\<exists>rs' q' w'. stop_all lg env i rs q w = Some (rs', q', w')"
  using assms(1)
proof (induction rs arbitrary: i q w)
  case (Cons r rs)
  obtain r1 q1 w1 where s: "runner_stop lg (env i) r q w = Some (r1, q1, w1)"
  proof (cases "br_running r")
    case True
    then show ?thesis using that runner_stop_total [of lg live r "env i" q w] Cons.prems assms(2) by auto
  next
    case False
    then show ?thesis using that by (simp add: runner_stop_def)
  qed
  obtain rs1 q2 w2 where "stop_all lg env (i + 1) rs q1 w1 = Some (rs1, q2, w2)"
    using Cons.IH [of "i + 1" q1 w1] Cons.prems by auto
  then show ?case by (simp add: s)
qed simp

lemma daq_unwind_total:
  assumes "list_all (\<lambda>r. runner_fit lg live r \<and> reads_fit (br_dgtz r)) (dq_runners d)"
    and "\<And>i. stop_fit lg (en_stops env i)" and "settled (en_ticks env)"
  shows "\<exists>d' disk' w'. daq_unwind lg env n d disk w = Some (d', disk', w')"
proof -
  have "list_all (\<lambda>r. runner_fit lg live r \<and> reads_fit (br_dgtz r)) (take n (dq_runners d))"
    using assms(1) by (metis in_set_takeD list_all_iff)
  from stop_all_total [where env = "en_stops env", OF this assms(2)] obtain rs q w1 where
    s: "stop_all lg (en_stops env) 0 (take n (dq_runners d)) (dq_queue d) w = Some (rs, q, w1)" by blast
  obtain wt disk1 where p: "en_progress env (dq_writing d) disk = (wt, disk1)" by (metis surj_pair)
  obtain wt' q' disk' where "teardownWriter (en_ticks env) wt q disk1 = Some (wt', q', disk')"
    using teardown_returns [OF assms(3)] by blast
  then show ?thesis by (simp add: daq_unwind_def s daq_teardown_def p)
qed


text \<open>What a successful start consists of.\<close>

lemma daq_start_success:
  assumes "daq_start lg env d disk w = Some (True, d', disk', w')" and "\<not> dq_running d"
  obtains d1 w1 w2 rs w3 where "daq_prepare (en_epoch env) d disk w = (True, d1, disk', w1)"
    "launch_all (masterIndex (start_writer env d1) w2) 0 (dq_runners d1) w2 = (None, rs, w3)"
    "d' = daq_go ((start_writer env d1)\<lparr> dq_runners := rs \<rparr>)"
proof -
  obtain a d1 disk1 w1 where pr: "daq_prepare (en_epoch env) d disk w = (a, d1, disk1, w1)" by (metis surj_pair)
  then have a: a using assms by (cases a) (auto simp: daq_start_def)
  then obtain w2 where al: "alignClockChain (en_sleep env) d1 w1 = Some w2"
    using assms pr by (auto simp: daq_start_def bind_eq_Some_conv)
  let ?d = "start_writer env d1"
  obtain f rs w3 where la: "launch_all (masterIndex ?d w2) 0 (dq_runners ?d) w2 = (f, rs, w3)" by (metis surj_pair)
  obtain ok w4 where fm: "fire_master (masterIndex ?d w2) rs w3 = (ok, w4)" by (metis surj_pair)
  have "f = None \<and> ok \<and> d' = daq_go (?d\<lparr> dq_runners := rs \<rparr>) \<and> disk' = disk1"
    using assms pr a al la fm
    by (cases f; cases ok) (auto simp: daq_start_def bind_eq_Some_conv Let_def split: prod.splits)
  moreover have "dq_runners ?d = dq_runners d1" by (simp add: start_writer_def Let_def)
  ultimately show ?thesis using that pr a la by simp
qed

text \<open>
  C37. A \<open>Daq\<close> is good for one run. Once its write queue has been closed, by a stop or a failed
  start, a later \<open>start\<close> may succeed but leaves the queue closed, so that every buffer read in
  that run is refused and none reaches the file.
\<close>

theorem restart_records_nothing:
  assumes "daq_start lg env d disk w = Some (True, d', disk', w')" and "closed (dq_queue d)" and "\<not> dq_running d"
  shows "closed (dq_queue d') \<and> \<not> fst (push others b (dq_queue d'))"
proof -
  have p: "daq_prepare now d disk w = (ok, d1, disk1, w1) \<Longrightarrow> dq_queue d1 = dq_queue d" for now ok d1 disk1 w1
    by (auto simp: daq_prepare_def Let_def split: if_splits prod.splits)
  obtain d1 w1 w2 rs where "daq_prepare (en_epoch env) d disk w = (True, d1, disk', w1)"
    "d' = daq_go ((start_writer env d1)\<lparr> dq_runners := rs \<rparr>)"
    using daq_start_success [OF assms(1,3)] by metis
  then have "dq_queue d' = dq_queue d" using p by (simp add: daq_go_def start_writer_def Let_def)
  then show ?thesis using assms(2) by (simp add: push_def push_enter_def)
qed

section \<open>Settings\<close>

text \<open>
  The settings of the statistics reach the collector whenever they are made. With no
  collector yet they are remembered, and the next run's collector starts with them; with one,
  they take effect on it at once. The interval that is reported is the one in use, in both cases,
  and lies within the collector's range.
\<close>

theorem settings_reach_collector:
  "(let d' = setStatsInterval ms d in
      statsIntervalMs d' = clampInterval ms \<and> kMinIntervalMs \<le> statsIntervalMs d' \<and> statsIntervalMs d' \<le> kMaxIntervalMs \<and>
      statsIntervalMs (daq_go d') = statsIntervalMs d') \<and>
   (let s = the (dq_stats (daq_go (daq_setGraphite host port pfx d)))
    in (sc_graphite s = None \<longleftrightarrow> host = '''') \<and> so_graphitePort (sc_opt s) = port \<and>
       sc_graphite s = map_option (\<lambda>_. GraphiteClient_default host port) (if host = '''' then None else Some ()))"
proof -
  have c: "clampInterval (clampInterval ms) = clampInterval ms" "kMinIntervalMs \<le> clampInterval ms"
    "clampInterval ms \<le> kMaxIntervalMs"
    by (simp_all add: clampInterval_def kMinIntervalMs_def kMaxIntervalMs_def)
  then show ?thesis
    by (auto simp: setStatsInterval_def statsIntervalMs_def daq_go_def daq_setGraphite_def StatsCollector_new_def
        stats_options_def stats_start_def setInterval_def Let_def split: option.splits)
qed

section \<open>A run of two boards\<close>

text \<open>
  Two boards of a daisy chain that answer from a shared script; the second in add order has
  register id 0 and is the master.
\<close>

definition chained :: "u32 \<Rightarrow> RawBlock option list Digitizer" where
  "chained reg =
     scripted\<lparr> dg_startMode := (\<lambda>_. kStartModeFirstTrig), dg_info := (\<lambda>_. BoardInfo_init\<lparr> boardRegId := reg \<rparr>) \<rparr>"

definition demo_boards :: "nat \<Rightarrow> RawBlock option list Digitizer" where
  "demo_boards i = chained (if i = 1 then 0 else 5)"

definition demo_made :: "nat \<Rightarrow> RawBlock option list logged_world BoardRunner" where
  "demo_made i = BoardRunner_new (logged_board i (demo_boards i)) (BoardRunnerConfig_init\<lparr> rc_write := False \<rparr>) False"

definition demo_daq :: "RawBlock option list logged_world Daq" where
  "demo_daq = (Daq_new '''' 7 DaqOptions_init)\<lparr> dq_runners := [demo_made 0, demo_made 1] \<rparr>"

definition demo_env :: "RawBlock option list logged_world DaqEnv" where
  "demo_env =
     \<lparr> en_epoch = 0, en_clock = 0, en_sleep = (\<lambda>_ w. w), en_stops = (\<lambda>_. demo_stop), en_progress = Pair,
       en_ticks = (\<lambda>_. demo_tick) \<rparr>"

definition demo_live :: "RawBlock option list logged_world Daq" where
  "demo_live = demo_daq\<lparr> dq_running := True,
     dq_runners := map (\<lambda>r. r\<lparr> br_running := True, br_reader := True \<rparr>) (dq_runners demo_daq) \<rparr>"

lemmas demo_run = demo_daq_def demo_made_def demo_boards_def chained_def demo_env_def demo_live_def Daq_new_def
  BoardRunner_new_def BoardRunnerConfig_init_def DaqOptions_init_def

lemma demo_daq_ready:
  "\<not> dq_running demo_daq" "on_log demo_boards 0 (dq_runners demo_daq)" "list_all idle (dq_runners demo_daq)"
  "fst (en_sleep demo_env ms w) = fst w"
  by (simp_all add: demo_run idle_def)

text \<open>Whatever state the write queue is in.\<close>

abbreviation demo_with :: "BlockQueue \<Rightarrow> RawBlock option list logged_world Daq" where
  "demo_with q \<equiv> demo_daq\<lparr> dq_queue := q \<rparr>"

lemma demo_prepare:
  "daq_prepare 0 (demo_with q) disk ([], []) =
     (True, (demo_with q)\<lparr> dq_prepared := True,
        dq_runners := map (\<lambda>i. (demo_made i)\<lparr> br_info := dg_info (demo_boards i) [] \<rparr>) [0, 1] \<rparr>, disk,
      ([(0, CallOpen True), (0, CallConfigure True), (1, CallOpen True), (1, CallConfigure True)], []))"
  by (simp add: daq_prepare_def demo_run runner_prepare_def logged_simps log_call_def scripted_def)

lemma demo_start:
  "\<exists>d' disk' h'. daq_start lg demo_env (demo_with q) disk ([], []) = Some (True, d', disk',
     ([(0, CallOpen True), (0, CallConfigure True), (1, CallOpen True), (1, CallConfigure True),
       (0, CallArm True), (1, CallArm True), (1, CallTrigger True)], h'))"
  using demo_prepare [of q disk]
  by (simp add: daq_start_def demo_env_def alignClockChain_def masterIndex_def clockChainOrder_def external_clock_def
      demo_daq_def demo_made_def demo_boards_def chained_def BoardRunner_new_def Daq_new_def logged_simps log_call_def
      scripted_def synchronised_def BoardInfo_init_def start_writer_def runner_arm_def fire_master_def setSyncRole_def
      kStartModeFirstTrig_def kStartModeSW_def)


text \<open>The same run with a second board that refuses to arm.\<close>

definition demo_jammed :: "nat \<Rightarrow> RawBlock option list Digitizer" where
  "demo_jammed i = (if i = 1 then (chained 0)\<lparr> dg_arm := (\<lambda>w. (False, w)) \<rparr> else chained 5)"

definition demo_jam :: "RawBlock option list logged_world Daq" where
  "demo_jam = demo_daq\<lparr> dq_runners := map (\<lambda>i. (demo_made i)\<lparr> br_dgtz := logged_board i (demo_jammed i) \<rparr>) [0, 1] \<rparr>"

lemma demo_jam_start:
  "\<exists>d' disk' h' new. daq_start lg demo_env demo_jam disk ([], []) = Some (False, d', disk', (new, h')) \<and>
     (0, CallArm True) \<in> set new"
proof -
  have p: "daq_prepare 0 demo_jam disk ([], []) =
     (True, demo_jam\<lparr> dq_prepared := True,
        dq_runners := map (\<lambda>r. r\<lparr> br_info := dg_info (br_dgtz r) ([], []) \<rparr>) (dq_runners demo_jam) \<rparr>, disk,
      ([(0, CallOpen True), (0, CallConfigure True), (1, CallOpen True), (1, CallConfigure True)], []))"
    by (simp add: daq_prepare_def demo_run demo_jam_def demo_jammed_def runner_prepare_def logged_simps log_call_def scripted_def)
  have s: "settled (\<lambda>_. demo_tick)" by (simp add: settled_def demo_tick_def)
  obtain wt' q' d' where t: "teardownWriter (\<lambda>_. demo_tick) (WriterThread_init\<lparr> wt_failed := False \<rparr>) (BlockQueue_new 8192) disk
      = Some (wt', q', d')" using teardown_returns [OF s] by blast
  show ?thesis
    using p t
    by (simp add: daq_start_def demo_env_def alignClockChain_def masterIndex_def clockChainOrder_def external_clock_def
        demo_daq_def demo_jam_def demo_jammed_def demo_made_def demo_boards_def chained_def BoardRunner_new_def
        Daq_new_def logged_simps log_call_def scripted_def synchronised_def BoardInfo_init_def start_writer_def
        runner_arm_def fire_master_def setSyncRole_def kStartModeFirstTrig_def kStartModeSW_def daq_unwind_def
        daq_teardown_def runner_stop_def runner_join_def runner_drain_def drain_reads.simps kMaxReads_def demo_stop_def)
qed

section \<open>Witnesses\<close>

theorem master_index_spec_witness:
  "masterIndex demo_live ([], []) \<noteq> - 1 \<and> boardRegId (br_info (dq_runners demo_live ! nat (masterIndex demo_live ([], [])))) = 0"
proof -
  have w: "synchronised (br_dgtz (dq_runners demo_live ! i)) ([], [])" if "i < 2" for i
    using that by (auto simp: less_2_cases_iff demo_run synchronised_def logged_simps scripted_def kStartModeFirstTrig_def
        kStartModeSW_def)
  have len: "length (dq_runners demo_live) = 2" by (simp add: demo_run)
  have z: "boardRegId (br_info (dq_runners demo_live ! i)) = 0" if "i < 2" for i
    using that by (auto simp: less_2_cases_iff demo_run BoardInfo_init_def)
  have ne: "masterIndex demo_live ([], []) \<noteq> - 1"
    using conjunct1 [OF master_index_spec [of demo_live "([], [])"]] w [of 0] unfolding len by auto
  then obtain m where "m < 2" "masterIndex demo_live ([], []) = int m"
    using conjunct2 [OF master_index_spec [of demo_live "([], [])"]] unfolding len by blast
  then show ?thesis using ne z by simp
qed


theorem failed_start_rolls_back_witness:
  "\<exists>d' disk' new h'. daq_start id demo_env demo_jam demo_disk ([], []) = Some (False, d', disk', (new, h')) \<and>
     list_all idle (dq_runners d') \<and> snd (last (filter (\<lambda>e. fst e = 0) new)) = CallClose"
proof -
  obtain d' disk' h' new where s: "daq_start id demo_env demo_jam demo_disk ([], []) = Some (False, d', disk', (new, h'))"
    "(0, CallArm True) \<in> set new" using demo_jam_start [of id demo_disk] by blast
  have "\<not> dq_running demo_jam" "on_log demo_jammed 0 (dq_runners demo_jam)" "list_all idle (dq_runners demo_jam)"
    by (simp_all add: demo_jam_def demo_run idle_def)
  from failed_start_rolls_back [OF s(1) this demo_daq_ready(4)] s(2)
  have "list_all idle (dq_runners d')" "snd (last (filter (\<lambda>e. fst e = 0) new)) = CallClose" by fastforce+
  then show ?thesis using s(1) by blast
qed

text \<open>Here the slave, board 0, is stopped before its master, board 1.\<close>

definition demo_talk :: "unit logged_world Daq" where
  "demo_talk =
     (Daq_new '''' 7 DaqOptions_init)\<lparr> dq_running := True,
       dq_runners := map (\<lambda>i. (BoardRunner_new (logged_board i (babbling\<lparr> dg_startMode := (\<lambda>_. kStartModeFirstTrig) \<rparr>))
         BoardRunnerConfig_init False)\<lparr> br_running := True, br_info := BoardInfo_init\<lparr> boardRegId := of_nat (1 - i) \<rparr> \<rparr>) [0, 1] \<rparr>"

definition talk_env :: "unit logged_world DaqEnv" where
  "talk_env =
     \<lparr> en_epoch = 0, en_clock = 0, en_sleep = (\<lambda>_ w. w), en_stops = (\<lambda>_. demo_stop), en_progress = Pair,
       en_ticks = (\<lambda>_. demo_tick) \<rparr>"


theorem restart_records_nothing_witness:
  "\<exists>d' disk' w'. daq_start id demo_env (demo_with (close (BlockQueue_new 4))) demo_disk ([], []) = Some (True, d', disk', w') \<and>
     \<not> fst (push id (Some [1]) (dq_queue d'))"
proof -
  obtain d' disk' w' where s: "daq_start id demo_env (demo_with (close (BlockQueue_new 4))) demo_disk ([], []) = Some (True, d', disk', w')"
    using demo_start [of id "close (BlockQueue_new 4)" demo_disk] by blast
  have "closed (dq_queue (demo_with (close (BlockQueue_new 4))))" "\<not> dq_running (demo_with (close (BlockQueue_new 4)))"
    using demo_daq_ready by (simp_all add: close_def)
  from restart_records_nothing [OF s this] s show ?thesis by blast
qed

end
