(* ===== verification/Daq_Run.thy ===== *)
theory Daq_Run
  imports Daq_Props
begin

text \<open>
  A run in progress: the readers of all boards, the writer thread, the decode threads and the
  control thread, interleaved. A reader that finds the write queue full is inside \<open>push\<close> while
  the others go on; every other step is one critical section. The boards log their calls, so that
  what was read is an observation. The property is the promise of the whole program: the file is
  made of exactly the buffers that were counted as written.
\<close>

section \<open>State and steps\<close>

text \<open>
  \<open>rn_pushing i\<close>: the buffer the reader of board \<open>i\<close> is pushing, and the full queue it found.
\<close>

record 'h RunState =
  rn_runners :: "'h logged_world BoardRunner list"
  rn_pushing :: "nat \<Rightarrow> (u8 list \<times> BlockQueue) option"
  rn_queue :: BlockQueue
  rn_writing :: WriterThread
  rn_disk :: Disk
  rn_world :: "'h logged_world"

text \<open>
  The steps. \<open>reader\<close>: an iteration of a reader's loop, in which a wait for room, if there is one,
  runs out with nobody interfering; \<open>wait\<close> and \<open>wake\<close>: an iteration whose push waits while the
  others go on, woken by a pop, a close or the timeout; \<open>drain\<close>: a read of the control thread
  after the stop; \<open>decode\<close>: whatever the decode thread of a board does to its stage; \<open>flags\<close>: the
  control thread starting, stopping or joining a reader; \<open>shut\<close>: the control thread closing the
  queue; \<open>writer\<close>: an iteration of the writer's loop.
\<close>

inductive run_step :: "'h RunState \<Rightarrow> 'h RunState \<Rightarrow> bool" where
  reader: "i < length (rn_runners s) \<Longrightarrow> rn_pushing s i = None \<Longrightarrow>
     rt_queue t = id \<Longrightarrow> pe_write (rt_push t) = id \<Longrightarrow> rt_writerFailed t = wt_failed (rn_writing s) \<Longrightarrow>
     reader_iter t (rn_runners s ! i) (rn_queue s) (rn_world s) = (out, r, q, w) \<Longrightarrow>
     run_step s (s\<lparr> rn_runners := (rn_runners s)[i := r], rn_queue := q, rn_world := w \<rparr>)"
| wait: "i < length (rn_runners s) \<Longrightarrow> rn_pushing s i = None \<Longrightarrow> writes_file (rn_runners s ! i) \<Longrightarrow>
     dg_read (br_dgtz (rn_runners s ! i)) (rn_world s) = (Some data, w) \<Longrightarrow> data \<noteq> [] \<Longrightarrow>
     fst (push_enter (Some data) (rn_queue s)) = MustWait \<Longrightarrow>
     run_step s (s\<lparr> rn_pushing := (rn_pushing s)(i \<mapsto> (data, rn_queue s)), rn_world := w \<rparr>)"
| wake: "i < length (rn_runners s) \<Longrightarrow> rn_pushing s i = Some (data, q0) \<Longrightarrow>
     runner_dispatch \<lparr> pe_write = (\<lambda>_. rn_queue s), pe_decode = e \<rparr> data (rn_runners s ! i) q0 = (r, q) \<Longrightarrow>
     run_step s (s\<lparr> rn_runners := (rn_runners s)[i := r], rn_pushing := (rn_pushing s)(i := None), rn_queue := q \<rparr>)"
| drain: "i < length (rn_runners s) \<Longrightarrow> rn_pushing s i = None \<Longrightarrow>
     dg_read (br_dgtz (rn_runners s ! i)) (rn_world s) = (Some data, w) \<Longrightarrow> data \<noteq> [] \<Longrightarrow>
     runner_dispatch \<lparr> pe_write = id, pe_decode = e \<rparr> data (rn_runners s ! i) (rn_queue s) = (r, q) \<Longrightarrow>
     run_step s (s\<lparr> rn_runners := (rn_runners s)[i := r], rn_queue := q, rn_world := w \<rparr>)"
| decode: "i < length (rn_runners s) \<Longrightarrow>
     run_step s (s\<lparr> rn_runners := (rn_runners s)[i := (rn_runners s ! i)\<lparr> br_stage := st \<rparr>] \<rparr>)"
| flags: "i < length (rn_runners s) \<Longrightarrow>
     run_step s (s\<lparr> rn_runners := (rn_runners s)[i := (rn_runners s ! i)\<lparr> br_running := a, br_reader := b \<rparr>] \<rparr>)"
| shut: "run_step s (s\<lparr> rn_queue := close (rn_queue s) \<rparr>)"
| writer: "wt_thread (rn_writing s) \<Longrightarrow> \<not> wt_ended (rn_writing s) \<Longrightarrow> wk_queue t = id \<Longrightarrow>
     writer_iter t (rn_writing s) (rn_queue s) (rn_disk s) = (go, wt, q, d) \<Longrightarrow>
     run_step s (s\<lparr> rn_writing := wt, rn_queue := q, rn_disk := d \<rparr>)"

inductive_cases run_stepE: "run_step s s'"

inductive run_steps :: "nat \<Rightarrow> 'h RunState \<Rightarrow> 'h RunState \<Rightarrow> bool" where
  stop: "run_steps 0 s s"
| step: "run_steps n s s' \<Longrightarrow> run_step s' s'' \<Longrightarrow> run_steps (Suc n) s s''"

section \<open>The books of the run\<close>

text \<open>The blocks of board \<open>i\<close> among the accepted ones, and what the log says was read from it.\<close>

definition own_blocks :: "nat \<Rightarrow> (nat \<times> u8 list) list \<Rightarrow> u8 list list" where
  "own_blocks i acc = map snd (filter (\<lambda>e. fst e = i) acc)"

definition reads_of :: "nat \<Rightarrow> (nat \<times> board_call) list \<Rightarrow> u8 list list" where
  "reads_of i l = blocks_read (filter (\<lambda>e. fst e = i) l)"

definition pending :: "(u8 list \<times> BlockQueue) option \<Rightarrow> u8 list list" where
  "pending p = (case p of None \<Rightarrow> [] | Some (data, q) \<Rightarrow> [data])"

text \<open>
  The invariant, relative to the state \<open>s0\<close> the run started in: \<open>acc\<close> are the blocks accepted so
  far, with their boards, in order; \<open>got\<close> those the writer has taken.
\<close>

definition board_books :: "'h RunState \<Rightarrow> (nat \<times> u8 list) list \<Rightarrow> 'h RunState \<Rightarrow> nat \<Rightarrow> bool" where
  "board_books s0 acc s i \<longleftrightarrow>
     br_bytesWritten (rn_runners s ! i) = br_bytesWritten (rn_runners s0 ! i) + total_bytes (own_blocks i acc) \<and>
     (\<exists>new. fst (rn_world s) = fst (rn_world s0) @ new \<and>
        subseq (own_blocks i acc @ pending (rn_pushing s i)) (reads_of i new))"

definition push_books :: "'h RunState \<Rightarrow> nat \<Rightarrow> bool" where
  "push_books s i \<longleftrightarrow>
     (\<forall>data q0. rn_pushing s i = Some (data, q0) \<longrightarrow>
        writes_file (rn_runners s ! i) \<and> fst (push_enter (Some data) q0) = MustWait)"

definition file_books :: "Disk \<Rightarrow> 'h RunState \<Rightarrow> u8 list list \<Rightarrow> 'h RunState \<Rightarrow> bool" where
  "file_books d0 s0 got s \<longleftrightarrow>
     (if wt_failed (rn_writing s)
      then wt_ended (rn_writing s) \<and> (\<exists>k. payload (rn_disk s) = payload (rn_disk s0) @ take k (concat got))
      else payload (rn_disk s) = payload (rn_disk s0) @ concat got)"

definition run_books ::
  "(nat \<Rightarrow> 'h Digitizer) \<Rightarrow> Disk \<Rightarrow> nat \<Rightarrow> 'h RunState \<Rightarrow> (nat \<times> u8 list) list \<Rightarrow> u8 list list \<Rightarrow> 'h RunState \<Rightarrow> bool" where
  "run_books ds d0 room s0 acc got s \<longleftrightarrow>
     on_log ds 0 (rn_runners s) \<and> length (rn_runners s) = length (rn_runners s0) \<and>
     (\<forall>e \<in> set acc. fst e < length (rn_runners s0)) \<and>
     (\<forall>i < length (rn_runners s0). board_books s0 acc s i \<and> push_books s i) \<and>
     map (Some \<circ> snd) acc = map Some got @ q_items (rn_queue s) \<and>
     writing d0 room (rn_writing s) (rn_disk s) \<and> file_books d0 s0 got s \<and>
     (wt_ended (rn_writing s) \<longrightarrow> wt_failed (rn_writing s) \<or> closed (rn_queue s) \<and> q_items (rn_queue s) = [])"

section \<open>Every step keeps the books\<close>

lemma on_log_iff: "on_log ds k rs \<longleftrightarrow> (\<forall>i < length rs. br_dgtz (rs ! i) = logged_board (k + i) (ds (k + i)))"
  by (induction rs arbitrary: k) (auto simp: All_less_Suc2)

lemma on_log_update: "on_log ds 0 rs \<Longrightarrow> br_dgtz r = br_dgtz (rs ! i) \<Longrightarrow> on_log ds 0 (rs[i := r])"
  by (cases "i < length rs") (auto simp: on_log_iff nth_list_update)

text \<open>
  A step of board \<open>i\<close>: it reads the blocks \<open>got\<close>, of which, after those it was pushing, the queue
  accepts \<open>acc\<close>.
\<close>

definition board_step :: "nat \<Rightarrow> u8 list list \<Rightarrow> u8 list list \<Rightarrow> 'h RunState \<Rightarrow> 'h RunState \<Rightarrow> bool" where
  "board_step i got acc s s' \<longleftrightarrow>
     i < length (rn_runners s) \<and>
     (\<exists>r p. rn_runners s' = (rn_runners s)[i := r] \<and> rn_pushing s' = (rn_pushing s)(i := p) \<and>
        br_dgtz r = br_dgtz (rn_runners s ! i) \<and> writes_file r = writes_file (rn_runners s ! i) \<and>
        br_bytesWritten r = br_bytesWritten (rn_runners s ! i) + total_bytes acc \<and>
        subseq (acc @ pending p) (pending (rn_pushing s i) @ got) \<and>
        (\<forall>data q0. p = Some (data, q0) \<longrightarrow> writes_file r \<and> fst (push_enter (Some data) q0) = MustWait)) \<and>
     (\<exists>new. fst (rn_world s') = fst (rn_world s) @ new \<and> (\<forall>e \<in> set new. fst e = i) \<and> blocks_read new = got) \<and>
     q_items (rn_queue s') = q_items (rn_queue s) @ map Some acc \<and> closed (rn_queue s') = closed (rn_queue s) \<and>
     (closed (rn_queue s) \<longrightarrow> acc = []) \<and>
     rn_writing s' = rn_writing s \<and> rn_disk s' = rn_disk s"

lemma own_blocks_append [simp]: "own_blocks i (a @ b) = own_blocks i a @ own_blocks i b"
  by (simp add: own_blocks_def)

lemma own_blocks_tag [simp]: "own_blocks j (map (Pair i) bs) = (if j = i then bs else [])"
  by (simp add: own_blocks_def filter_map comp_def)

lemma reads_of_append [simp]: "reads_of i (a @ b) = reads_of i a @ reads_of i b"
  by (simp add: reads_of_def)

lemma reads_of_own: "\<forall>e \<in> set new. fst e = i \<Longrightarrow> reads_of j new = (if j = i then blocks_read new else [])"
  by (auto simp: reads_of_def filter_empty_conv cong: filter_cong)

lemma board_books_other:
  assumes "board_step i got acc' s s'" and "board_books s0 acc s j" and "j \<noteq> i" and "j < length (rn_runners s)"
  shows "board_books s0 (acc @ map (Pair i) acc') s' j"
proof -
  obtain new new' where n: "fst (rn_world s) = fst (rn_world s0) @ new"
    "subseq (own_blocks j acc @ pending (rn_pushing s j)) (reads_of j new)"
    "fst (rn_world s') = fst (rn_world s) @ new'" "\<forall>e \<in> set new'. fst e = i"
    using assms(1,2) unfolding board_step_def board_books_def by blast
  have "subseq (own_blocks j (acc @ map (Pair i) acc') @ pending (rn_pushing s' j)) (reads_of j (new @ new'))"
    using n(2) assms(1,3) reads_of_own [OF n(4), of j] by (auto simp: board_step_def)
  moreover have "rn_runners s' ! j = rn_runners s ! j" using assms(1,3) by (auto simp: board_step_def)
  ultimately show ?thesis
    using assms(2,3) n(1,3) unfolding board_books_def by (auto intro!: exI [of _ "new @ new'"])
qed

lemma board_books_own:
  assumes "board_step i got acc' s s'" and "board_books s0 acc s i"
  shows "board_books s0 (acc @ map (Pair i) acc') s' i"
proof -
  obtain new new' r p where n: "fst (rn_world s) = fst (rn_world s0) @ new"
    "subseq (own_blocks i acc @ pending (rn_pushing s i)) (reads_of i new)"
    "fst (rn_world s') = fst (rn_world s) @ new'" "\<forall>e \<in> set new'. fst e = i" "blocks_read new' = got"
    and r: "rn_runners s' = (rn_runners s)[i := r]" "rn_pushing s' = (rn_pushing s)(i := p)"
    "br_bytesWritten r = br_bytesWritten (rn_runners s ! i) + total_bytes acc'"
    "subseq (acc' @ pending p) (pending (rn_pushing s i) @ got)" "i < length (rn_runners s)"
    using assms unfolding board_step_def board_books_def by blast
  have "subseq (own_blocks i acc @ (acc' @ pending p)) (own_blocks i acc @ (pending (rn_pushing s i) @ got))"
    by (rule list_emb_append_mono [OF _ r(4)]) simp
  also have "subseq (own_blocks i acc @ (pending (rn_pushing s i) @ got)) (reads_of i new @ got)"
    using list_emb_append_mono [OF n(2), of got got] by simp
  finally have "subseq (own_blocks i (acc @ map (Pair i) acc') @ pending (rn_pushing s' i)) (reads_of i (new @ new'))"
    using r(2) reads_of_own [OF n(4), of i] n(5) by simp
  moreover have "br_bytesWritten (rn_runners s' ! i) =
      br_bytesWritten (rn_runners s0 ! i) + total_bytes (own_blocks i (acc @ map (Pair i) acc'))"
    using assms(2) r(1,3,5) by (simp add: board_books_def algebra_simps)
  ultimately show ?thesis using n(1,3) unfolding board_books_def by (auto intro!: exI [of _ "new @ new'"])
qed

lemma board_step_books:
  assumes st: "board_step i got acc' s s'" and inv: "run_books ds d0 room s0 acc po s"
  shows "run_books ds d0 room s0 (acc @ map (Pair i) acc') po s'"
proof -
  obtain r p where r: "rn_runners s' = (rn_runners s)[i := r]" "rn_pushing s' = (rn_pushing s)(i := p)"
    "br_dgtz r = br_dgtz (rn_runners s ! i)" "writes_file r = writes_file (rn_runners s ! i)"
    "\<forall>data q0. p = Some (data, q0) \<longrightarrow> writes_file r \<and> fst (push_enter (Some data) q0) = MustWait"
    using st unfolding board_step_def by blast
  have i: "i < length (rn_runners s)" and len: "length (rn_runners s) = length (rn_runners s0)"
    using st inv by (simp_all add: board_step_def run_books_def)
  have "board_books s0 (acc @ map (Pair i) acc') s' j \<and> push_books s' j" if "j < length (rn_runners s0)" for j
  proof -
    have b: "board_books s0 acc s j" "push_books s j" using inv that by (simp_all add: run_books_def)
    have "board_books s0 (acc @ map (Pair i) acc') s' j"
      using board_books_own [OF st] board_books_other [OF st b(1)] b(1) that len by (cases "j = i") auto
    moreover have "push_books s' j"
      using b(2) r i by (cases "j = i") (auto simp: push_books_def)
    ultimately show ?thesis by simp
  qed
  then show ?thesis
    using inv st r i len on_log_update [of ds "rn_runners s" r i]
    unfolding run_books_def board_step_def file_books_def by auto
qed

text \<open>The reading steps are steps of one board.\<close>

lemma is_read_of_boards: "list_all (is_read_of i) new \<Longrightarrow> \<forall>e \<in> set new. fst e = i"
  by (auto simp: list_all_iff dest: reads_fst)

lemma moved_fields:
  assumes "moved r got acc r'"
  shows "br_dgtz r' = br_dgtz r" "writes_file r' = writes_file r" "subseq acc got"
    "br_bytesWritten r' = br_bytesWritten r + total_bytes acc"
  using assms by (simp_all add: moved_def writes_file_def)

lemma reader_board_step:
  assumes "i < length (rn_runners s)" and "rn_pushing s i = None" and "on_log ds 0 (rn_runners s)"
    and "rt_queue t = id" and "pe_write (rt_push t) = id"
    and "reader_iter t (rn_runners s ! i) (rn_queue s) (rn_world s) = (out, r, q, w)"
  shows "\<exists>got acc. board_step i got acc s (s\<lparr> rn_runners := (rn_runners s)[i := r], rn_queue := q, rn_world := w \<rparr>)"
proof -
  have d: "br_dgtz (rn_runners s ! i) = logged_board i (ds i)" using on_log_nth [OF assms(3,1)] by simp
  obtain new acc where n: "fst w = fst (rn_world s) @ new" "moved (rn_runners s ! i) (blocks_read new) acc r"
    "list_all (is_read_of i) new" "q_items q = q_items (rn_queue s) @ map Some acc" "closed q = closed (rn_queue s)"
    "closed q \<longrightarrow> acc = []"
    using reader_iter_moved [OF assms(6) d] assms(4,5) by auto
  have "board_step i (blocks_read new) acc s (s\<lparr> rn_runners := (rn_runners s)[i := r], rn_queue := q, rn_world := w \<rparr>)"
    unfolding board_step_def
  proof (intro conjI exI)
    show "rn_pushing (s\<lparr> rn_runners := (rn_runners s)[i := r], rn_queue := q, rn_world := w \<rparr>) =
        (rn_pushing s)(i := None)" using assms(2) by (simp add: fun_upd_idem)
  qed (use n assms(1,2) moved_fields [OF n(2)] is_read_of_boards [OF n(3)] in \<open>simp_all add: pending_def\<close>)
  then show ?thesis by blast
qed

lemma drain_board_step:
  assumes "i < length (rn_runners s)" and "rn_pushing s i = None" and "on_log ds 0 (rn_runners s)"
    and "dg_read (br_dgtz (rn_runners s ! i)) (rn_world s) = (Some data, w)" and "data \<noteq> []"
    and "runner_dispatch \<lparr> pe_write = id, pe_decode = e \<rparr> data (rn_runners s ! i) (rn_queue s) = (r, q)"
  shows "\<exists>acc. board_step i [data] acc s (s\<lparr> rn_runners := (rn_runners s)[i := r], rn_queue := q, rn_world := w \<rparr>)"
proof -
  have d: "br_dgtz (rn_runners s ! i) = logged_board i (ds i)" using on_log_nth [OF assms(3,1)] by simp
  obtain h where w: "w = (fst (rn_world s) @ [(i, CallRead (Some data))], h)"
    using assms(4) unfolding d by (rule logged_readE)
  obtain x xs where data: "data = x # xs" using assms(5) by (cases data) auto
  have p: "pushed_to \<lparr> pe_write = id, pe_decode = e \<rparr> data (rn_runners s ! i) (rn_queue s) = rn_queue s"
    by (simp add: pushed_to_def)
  obtain acc where n: "moved (rn_runners s ! i) [data] acc r" "q_items q = q_items (rn_queue s) @ map Some acc"
    "closed q = closed (rn_queue s)" "closed q \<longrightarrow> acc = []"
    using dispatch_queue [OF assms(6)] unfolding p by blast
  have "board_step i [data] acc s (s\<lparr> rn_runners := (rn_runners s)[i := r], rn_queue := q, rn_world := w \<rparr>)"
    unfolding board_step_def
  proof (intro conjI exI)
    show "rn_pushing (s\<lparr> rn_runners := (rn_runners s)[i := r], rn_queue := q, rn_world := w \<rparr>) =
        (rn_pushing s)(i := None)" using assms(2) by (simp add: fun_upd_idem)
  qed (use n assms(1,2) w data moved_fields [OF n(1)] in \<open>simp_all add: pending_def\<close>, simp_all)
  then show ?thesis by blast
qed

lemma wait_board_step:
  assumes "i < length (rn_runners s)" and "rn_pushing s i = None" and "on_log ds 0 (rn_runners s)"
    and "writes_file (rn_runners s ! i)" and "fst (push_enter (Some data) (rn_queue s)) = MustWait"
    and "dg_read (br_dgtz (rn_runners s ! i)) (rn_world s) = (Some data, w)" and "data \<noteq> []"
  shows "board_step i [data] [] s (s\<lparr> rn_pushing := (rn_pushing s)(i \<mapsto> (data, rn_queue s)), rn_world := w \<rparr>)"
proof -
  have d: "br_dgtz (rn_runners s ! i) = logged_board i (ds i)" using on_log_nth [OF assms(3,1)] by simp
  obtain h where w: "w = (fst (rn_world s) @ [(i, CallRead (Some data))], h)"
    using assms(6) unfolding d by (rule logged_readE)
  obtain x xs where data: "data = x # xs" using assms(7) by (cases data) auto
  show ?thesis
    unfolding board_step_def
  proof (intro conjI exI)
    show "rn_runners (s\<lparr> rn_pushing := (rn_pushing s)(i \<mapsto> (data, rn_queue s)), rn_world := w \<rparr>) =
        (rn_runners s)[i := rn_runners s ! i]" by simp
    show "rn_pushing (s\<lparr> rn_pushing := (rn_pushing s)(i \<mapsto> (data, rn_queue s)), rn_world := w \<rparr>) =
        (rn_pushing s)(i := Some (data, rn_queue s))" by simp
  qed (use assms(1,2,4,5) w data in \<open>simp_all add: pending_def\<close>, simp_all)
qed

lemma wake_board_step:
  assumes "i < length (rn_runners s)" and "rn_pushing s i = Some (data, q0)" and "push_books s i"
    and "runner_dispatch \<lparr> pe_write = (\<lambda>_. rn_queue s), pe_decode = e \<rparr> data (rn_runners s ! i) q0 = (r, q)"
  shows "\<exists>acc. board_step i [] acc s
    (s\<lparr> rn_runners := (rn_runners s)[i := r], rn_pushing := (rn_pushing s)(i := None), rn_queue := q \<rparr>)"
proof -
  have "pushed_to \<lparr> pe_write = (\<lambda>_. rn_queue s), pe_decode = e \<rparr> data (rn_runners s ! i) q0 = rn_queue s"
    using assms(2,3) by (simp add: pushed_to_def push_books_def)
  then obtain acc where n: "moved (rn_runners s ! i) [data] acc r" "q_items q = q_items (rn_queue s) @ map Some acc"
    "closed q = closed (rn_queue s)" "closed q \<longrightarrow> acc = []"
    using dispatch_queue [OF assms(4)] by auto
  have "board_step i [] acc s
    (s\<lparr> rn_runners := (rn_runners s)[i := r], rn_pushing := (rn_pushing s)(i := None), rn_queue := q \<rparr>)"
    unfolding board_step_def
  proof (intro conjI exI)
    show "rn_pushing (s\<lparr> rn_runners := (rn_runners s)[i := r], rn_pushing := (rn_pushing s)(i := None), rn_queue := q \<rparr>) =
        (rn_pushing s)(i := None)" by simp
  qed (use n assms(1,2) moved_fields [OF n(1)] in \<open>simp_all add: pending_def\<close>, simp_all)
  then show ?thesis by blast
qed

lemma quiet_board_step:
  assumes "i < length (rn_runners s)" and "br_dgtz r = br_dgtz (rn_runners s ! i)" and "br_cfg r = br_cfg (rn_runners s ! i)"
    and "br_hasQueue r = br_hasQueue (rn_runners s ! i)" and "br_bytesWritten r = br_bytesWritten (rn_runners s ! i)"
    and "push_books s i"
  shows "board_step i [] [] s (s\<lparr> rn_runners := (rn_runners s)[i := r] \<rparr>)"
  unfolding board_step_def
proof (intro conjI exI)
  show "rn_runners (s\<lparr> rn_runners := (rn_runners s)[i := r] \<rparr>) = (rn_runners s)[i := r]" by simp
  show "rn_pushing (s\<lparr> rn_runners := (rn_runners s)[i := r] \<rparr>) = (rn_pushing s)(i := rn_pushing s i)" by simp
qed (use assms in \<open>simp_all add: writes_file_def push_books_def\<close>, simp_all)

text \<open>The two steps that are not a board's leave the boards' books alone.\<close>

lemma board_books_cong:
  assumes "rn_runners s' = rn_runners s" and "rn_pushing s' = rn_pushing s" and "rn_world s' = rn_world s"
  shows "board_books s0 acc s' i = board_books s0 acc s i" "push_books s' i = push_books s i"
  using assms by (simp_all add: board_books_def push_books_def)

lemma shut_books:
  "run_books ds d0 room s0 acc got s \<Longrightarrow> run_books ds d0 room s0 acc got (s\<lparr> rn_queue := close (rn_queue s) \<rparr>)"
  using board_books_cong [of "s\<lparr> rn_queue := close (rn_queue s) \<rparr>" s]
  by (auto simp: run_books_def file_books_def close_def)

lemma writer_books:
  assumes "wt_thread (rn_writing s)" and "\<not> wt_ended (rn_writing s)" and "wk_queue t = id"
    and "writer_iter t (rn_writing s) (rn_queue s) (rn_disk s) = (go, wt, q, d)"
    and inv: "run_books ds d0 (Suc room) s0 acc got s"
  shows "\<exists>got'. run_books ds d0 room s0 acc got' (s\<lparr> rn_writing := wt, rn_queue := q, rn_disk := d \<rparr>)"
proof -
  let ?s = "s\<lparr> rn_writing := wt, rn_queue := q, rn_disk := d \<rparr>"
  have w: "writing d0 (Suc room) (rn_writing s) (rn_disk s)" and nf: "\<not> wt_failed (rn_writing s)"
    and pl: "payload (rn_disk s) = payload (rn_disk s0) @ concat got"
    and eq: "map (Some \<circ> snd) acc = map Some got @ q_items (rn_queue s)"
    using inv assms(2) by (auto simp: run_books_def file_books_def split: if_splits)
  have "wk_queue t (rn_queue s) = rn_queue s" using assms(3) by simp
  note st = writer_iter_writing [OF assms(4) w this]
  have rest: "run_books ds d0 room s0 acc got' ?s"
    if "map (Some \<circ> snd) acc = map Some got' @ q_items q" "file_books d0 s0 got' ?s"
      "wt_ended wt \<longrightarrow> wt_failed wt \<or> closed q \<and> q_items q = []" for got'
  proof -
    have "\<forall>i < length (rn_runners s0). board_books s0 acc ?s i \<and> push_books ?s i"
      using inv board_books_cong [of ?s s] by (simp add: run_books_def)
    then show ?thesis using that inv st unfolding run_books_def by simp
  qed
  show ?thesis
  proof (cases "q_items (rn_queue s)")
    case Nil
    then show ?thesis
      using st nf pl eq assms(2) by (intro exI [of _ got] rest) (auto simp: file_books_def split: if_splits)
  next
    case (Cons b bs)
    then have "b \<in> set (map (Some \<circ> snd) acc)" unfolding eq by simp
    then obtain data where b: "b = Some data" by auto
    have e: "map (Some \<circ> snd) acc = map Some (got @ [data]) @ q_items q" using eq Cons st b by simp
    show ?thesis
    proof (cases go)
      case True
      then show ?thesis
        using st pl nf Cons b e assms(2)
        by (intro exI [of _ "got @ [data]"] rest) (auto simp: file_books_def block_data_def)
    next
      case False
      then obtain k where "payload d = payload (rn_disk s) @ take k data" "wt_failed wt" "wt_ended wt"
        using st Cons b by (auto simp: block_data_def)
      then have "payload d = payload (rn_disk s0) @ take (length (concat got) + k) (concat (got @ [data]))"
        using pl by simp
      then have "file_books d0 s0 (got @ [data]) ?s"
        using \<open>wt_failed wt\<close> \<open>wt_ended wt\<close>
        by (auto simp: file_books_def simp del: concat_append concat.simps take_append)
      then show ?thesis using \<open>wt_failed wt\<close> e by (intro exI [of _ "got @ [data]"] rest) simp_all
    qed
  qed
qed

lemma run_books_mono: "run_books ds d0 n s0 acc got s \<Longrightarrow> m \<le> n \<Longrightarrow> run_books ds d0 m s0 acc got s"
  by (auto simp: run_books_def intro: writing_mono)

lemma run_step_books:
  assumes "run_step s s'" and inv: "run_books ds d0 (Suc room) s0 acc got s"
  shows "\<exists>acc' got'. run_books ds d0 room s0 acc' got' s'"
proof -
  have on: "on_log ds 0 (rn_runners s)" using inv by (simp add: run_books_def)
  have pb: "push_books s i" if "i < length (rn_runners s)" for i using inv that by (simp add: run_books_def)
  have board: "\<exists>acc' got'. run_books ds d0 room s0 acc' got' s'" if "board_step i new more s s'" for i new more
    using run_books_mono [OF board_step_books [OF that inv], of room] by (simp, blast)
  show ?thesis
    using assms(1)
  proof cases
    case (reader i t out r q w)
    then show ?thesis using reader_board_step [OF reader(2,3) on reader(4,5,7)] board by blast
  next
    case (wait i data w)
    then show ?thesis using wait_board_step [OF wait(2,3) on wait(4,7,5,6)] board by blast
  next
    case (wake i data q0 e r q)
    then show ?thesis using wake_board_step [OF wake(2,3) pb [OF wake(2)] wake(4)] board by blast
  next
    case (drain i data w e r q)
    then show ?thesis using drain_board_step [OF drain(2,3) on drain(4,5,6)] board by blast
  next
    case (decode i st)
    then have "board_step i [] [] s s'" using quiet_board_step [OF decode(2), of "(rn_runners s ! i)\<lparr> br_stage := st \<rparr>"] pb by simp
    then show ?thesis by (rule board)
  next
    case (flags i b a)
    then have "board_step i [] [] s s'"
      using quiet_board_step [OF flags(2), of "(rn_runners s ! i)\<lparr> br_running := a, br_reader := b \<rparr>"] pb by simp
    then show ?thesis by (rule board)
  next
    case shut
    then show ?thesis using run_books_mono [OF shut_books [OF inv], of room] by auto
  next
    case (writer t go wt q d)
    then show ?thesis using writer_books [OF writer(2,3,4,5) inv] by blast
  qed
qed

lemma run_steps_books:
  assumes "run_steps n s0 s" and "run_books ds d0 (n + room) s0 [] [] s0"
  shows "\<exists>acc got. run_books ds d0 room s0 acc got s"
  using assms
proof (induction n s0 s arbitrary: room)
  case (stop s)
  then show ?case by auto
next
  case (step n s s' s'')
  then have "\<exists>acc got. run_books ds d0 (Suc room) s acc got s'" by simp
  then show ?case using run_step_books [OF step.hyps(2)] by blast
qed

section \<open>From the start of a run to its file\<close>

text \<open>The run in progress that a successful start leaves.\<close>

definition run_of :: "'h logged_world Daq \<Rightarrow> Disk \<Rightarrow> 'h logged_world \<Rightarrow> 'h RunState" where
  "run_of d disk w =
     \<lparr> rn_runners = dq_runners d, rn_pushing = (\<lambda>_. None), rn_queue = dq_queue d, rn_writing = dq_writing d,
       rn_disk = disk, rn_world = w \<rparr>"

definition same_board :: "'w BoardRunner \<Rightarrow> 'w BoardRunner \<Rightarrow> bool" where
  "same_board r r' \<longleftrightarrow> br_dgtz r' = br_dgtz r \<and> br_bytesWritten r' = br_bytesWritten r"

lemma prepare_all_same: "prepare_all rs w = (ok, rs', w') \<Longrightarrow> list_all2 same_board rs rs'"
proof (induction rs arbitrary: w ok rs' w')
  case (Cons r rs)
  obtain a r1 w1 where p: "runner_prepare r w = (a, r1, w1)" by (metis surj_pair)
  then have "same_board r r1"
    by (auto simp: runner_prepare_def same_board_def Let_def split: prod.splits if_splits)
  moreover have "list_all2 same_board rs rs" by (simp add: list_all2_refl same_board_def)
  ultimately show ?case using Cons p by (auto split: if_splits prod.splits)
qed simp

lemma launch_all_same: "launch_all m i rs w = (f, rs', w') \<Longrightarrow> list_all2 same_board rs rs'"
proof (induction rs arbitrary: i w f rs' w')
  case (Cons r rs)
  let ?synced = "synchronised (br_dgtz r) w"
  obtain ok r1 w1 where l: "(if ?synced then runner_arm r w else runner_start r w) = (ok, r1, w1)" by (metis surj_pair)
  then have "same_board r r1"
    by (auto simp: runner_arm_def runner_start_def same_board_def Let_def split: prod.splits if_splits)
  then have "same_board r r1" "same_board r (setSyncRole role r1)" for role
    by (simp_all add: same_board_def setSyncRole_def)
  moreover have "list_all2 same_board rs rs" by (simp add: list_all2_refl same_board_def)
  ultimately show ?case using Cons l by (auto simp: Let_def split: if_splits prod.splits)
qed simp

lemma same_board_trans: "same_board a b \<Longrightarrow> same_board b c \<Longrightarrow> same_board a c"
  by (simp add: same_board_def)

lemma same_boards_map:
  "list_all2 same_board rs rs' \<Longrightarrow> map br_dgtz rs' = map br_dgtz rs \<and> map br_bytesWritten rs' = map br_bytesWritten rs"
  by (induction rs rs' rule: list_all2_induct) (auto simp: same_board_def)

lemma startReader_same [simp]:
  "br_dgtz (startReader r) = br_dgtz r" "br_bytesWritten (startReader r) = br_bytesWritten r"
  by (simp_all add: startReader_def)

text \<open>A successful start has opened the file and written its header.\<close>

lemma started_file:
  assumes "daq_start lg env d disk w = Some (True, d', disk', w')" and "\<not> dq_running d" and "\<not> dq_prepared d"
    and "dq_anyWrite d" and "disk_ready (1 + n) disk"
  shows "\<exists>wr. writing disk n (dq_writing d') disk' \<and> payload disk' = header_bytes (en_epoch env) wr \<and>
    length (boardDefs wr) = length (dq_runners d) \<and> writeHeader (cfg wr) = do_writeHeader (dq_opt d) \<and>
    wt_thread (dq_writing d') \<and> \<not> wt_ended (dq_writing d') \<and> \<not> wt_failed (dq_writing d') \<and>
    dq_queue d' = dq_queue d \<and> map br_dgtz (dq_runners d') = map br_dgtz (dq_runners d) \<and>
    map br_bytesWritten (dq_runners d') = map br_bytesWritten (dq_runners d)"
  using assms(1,2)
proof (cases rule: daq_start_success)
  case (1 d1 w1 w2 rs w3)
  obtain rs1 wr disk1 where p: "prepare_all (dq_runners d) w = (True, rs1, w1)"
    "writer_open (en_epoch env) (run_writer (d\<lparr> dq_runners := rs1 \<rparr>)) disk = (True, wr, disk')"
    "d1 = d\<lparr> dq_runners := rs1, dq_writing := (dq_writing d)\<lparr> wt_writer := Some wr \<rparr>, dq_prepared := True \<rparr>"
    using 1(1) assms(3,4) by (auto simp: daq_prepare_def Let_def split: prod.splits if_splits)
  let ?w = "run_writer (d\<lparr> dq_runners := rs1 \<rparr>)"
  have path: "st_path (stream ?w) = None" by (simp add: run_writer_def RawFileWriter_new_def setBoards_def)
  have o: "parts_inv (files disk) wr disk'" "length (opened disk') \<le> 1" "payload disk' = header_bytes (en_epoch env) ?w"
    using writer_start [OF assms(5) path _ p(2)] by simp_all
  have "disk_ready (length (opened disk') + n) disk" using assms(5) o(2) by (auto simp: disk_ready_def)
  then have "writing disk n (dq_writing d') disk'"
    using o(1) 1(3) p(3) assms(4) by (auto simp: writing_def daq_go_def start_writer_def Let_def)
  moreover have "list_all2 same_board (dq_runners d) rs"
    using list_all2_trans [OF same_board_trans prepare_all_same [OF p(1)]] launch_all_same [OF 1(2)] p(3) by simp
  then have "map br_dgtz rs = map br_dgtz (dq_runners d)" "map br_bytesWritten rs = map br_bytesWritten (dq_runners d)"
    using same_boards_map by blast+
  moreover have "length rs1 = length (dq_runners d)" using prepare_all_same [OF p(1)] by (simp add: list_all2_lengthD)
  ultimately show ?thesis
    using 1(3) p(3) assms(4) o(3)
    by (intro exI [of _ ?w]) (simp add: daq_go_def start_writer_def Let_def comp_def run_writer_def
        setBoards_def RawFileWriter_new_def)
qed

lemma subseq_front: "subseq (a @ b) c \<Longrightarrow> subseq a c"
  by (rule subseq_order.order_trans [OF list_emb_prefix [OF subseq_order.order_refl]])

lemma accepted_all: "map (Some \<circ> snd) acc = map Some got \<Longrightarrow> got = map snd acc"
  by (induction acc arbitrary: got) auto

lemma zero_counters:
  assumes "map br_bytesWritten rs' = map br_bytesWritten rs" and "list_all (\<lambda>r. br_bytesWritten r = 0) rs"
    and "i < length rs"
  shows "br_bytesWritten (rs' ! i) = 0"
proof -
  have "map br_bytesWritten rs' ! i = map br_bytesWritten rs ! i" by (simp only: assms(1))
  then show ?thesis using assms(2,3) map_eq_imp_length_eq [OF assms(1)] by (simp add: list_all_length)
qed

lemma first_books:
  assumes "on_log ds 0 (dq_runners d)" and "q_items (dq_queue d) = []" and "writing disk n (dq_writing d) disk'"
    and "\<not> wt_ended (dq_writing d)" and "\<not> wt_failed (dq_writing d)"
  shows "run_books ds disk n (run_of d disk' w) [] [] (run_of d disk' w)"
  using assms
  by (simp add: run_books_def run_of_def board_books_def push_books_def file_books_def own_blocks_def pending_def)

text \<open>
  C1. The file of a run is exactly what the boards' counters say was written. Start a run that
  writes, and let the readers of all boards, the decode threads, the writer thread and the control
  thread act in any interleaving, with the boards and the disk answering as they may. At every
  moment the file is the header, describing every board, followed by blocks in the order in which
  the write queue accepted them, and the queue holds the rest of them. The blocks accepted from
  one board are, in order and each once, among those read from it since the start, and
  \<open>bytesWritten\<close> of that board is their size (modulo \<open>2^64\<close>). Once the writer has ended without an
  error, all of them are in the file; if a write failed, the file holds a prefix.
\<close>

theorem file_is_what_was_counted:
  assumes "daq_start lg env d disk w = Some (True, d', disk', w')"
    and "\<not> dq_running d" and "\<not> dq_prepared d" and "dq_anyWrite d" and "q_items (dq_queue d) = []"
    and "on_log ds 0 (dq_runners d)" and "list_all (\<lambda>r. br_bytesWritten r = 0) (dq_runners d)"
    and "disk_ready (1 + n) disk" and "run_steps n (run_of d' disk' w') s"
  shows "\<exists>wr acc got.
    length (boardDefs wr) = length (dq_runners d) \<and>
    map (Some \<circ> snd) acc = map Some got @ q_items (rn_queue s) \<and>
    (if wt_failed (rn_writing s)
     then \<exists>k. payload (rn_disk s) = header_bytes (en_epoch env) wr @ take k (concat got)
     else payload (rn_disk s) = header_bytes (en_epoch env) wr @ concat got) \<and>
    (wt_ended (rn_writing s) \<and> \<not> wt_failed (rn_writing s) \<longrightarrow> got = map snd acc) \<and>
    (\<forall>i < length (dq_runners d).
       br_bytesWritten (rn_runners s ! i) = total_bytes (own_blocks i acc) \<and>
       subseq (own_blocks i acc) (reads_of i (drop (length (fst w')) (fst (rn_world s)))))"
proof -
  let ?s0 = "run_of d' disk' w'"
  obtain wr where st: "writing disk n (dq_writing d') disk'" "payload disk' = header_bytes (en_epoch env) wr"
    "length (boardDefs wr) = length (dq_runners d)" "wt_thread (dq_writing d')" "\<not> wt_ended (dq_writing d')"
    "\<not> wt_failed (dq_writing d')" "dq_queue d' = dq_queue d" "map br_dgtz (dq_runners d') = map br_dgtz (dq_runners d)"
    "map br_bytesWritten (dq_runners d') = map br_bytesWritten (dq_runners d)"
    using started_file [OF assms(1,2,3,4,8)] by blast
  have len: "length (dq_runners d') = length (dq_runners d)" using st(8) by (metis length_map)
  have on: "on_log ds 0 (dq_runners d')" using on_log_dgtz st(8) assms(6) by blast
  have z: "br_bytesWritten (dq_runners d' ! i) = 0" if "i < length (dq_runners d)" for i
    using zero_counters [OF st(9) assms(7) that] .
  have "run_books ds disk (n + 0) ?s0 [] [] ?s0"
    using first_books [OF on _ _ st(5,6)] st(1,7) assms(5) by simp
  from run_steps_books [OF assms(9) this] obtain acc got where b: "run_books ds disk 0 ?s0 acc got s" by blast
  let ?N = "length (dq_runners d)"
  have bb: "board_books ?s0 acc s i" if "i < ?N" for i using b that len by (simp add: run_books_def run_of_def)
  have f: "map (Some \<circ> snd) acc = map Some got @ q_items (rn_queue s)" "file_books disk ?s0 got s"
    "wt_ended (rn_writing s) \<longrightarrow> wt_failed (rn_writing s) \<or> closed (rn_queue s) \<and> q_items (rn_queue s) = []"
    using b by (simp_all add: run_books_def)
  have pl: "payload (rn_disk ?s0) = header_bytes (en_epoch env) wr" using st(2) by (simp add: run_of_def)
  have "got = map snd acc" if "wt_ended (rn_writing s) \<and> \<not> wt_failed (rn_writing s)"
    using accepted_all [of acc got] f(1,3) that by simp
  moreover have "br_bytesWritten (rn_runners s ! i) = total_bytes (own_blocks i acc) \<and>
      subseq (own_blocks i acc) (reads_of i (drop (length (fst w')) (fst (rn_world s))))" if "i < ?N" for i
    using bb [OF that] z [OF that] by (auto simp: board_books_def run_of_def intro: subseq_front)
  ultimately show ?thesis
    using st(3) f(1,2) unfolding file_books_def pl
    by (intro exI [of _ wr] exI [of _ acc] exI [of _ got]) (simp split: if_splits)
qed

text \<open>A run of one board that starts on its own, and whose first buffer has three bytes.\<close>

definition one_board :: "RawBlock option list logged_world Daq" where
  "one_board = (Daq_new '''' 7 (DaqOptions_init\<lparr> do_writeHeader := False \<rparr>))
     \<lparr> dq_runners := [BoardRunner_new (logged_board 0 scripted) BoardRunnerConfig_init True], dq_anyWrite := True \<rparr>"

lemmas one_run = one_board_def Daq_new_def DaqOptions_init_def BoardRunner_new_def BoardRunnerConfig_init_def demo_env_def

lemma one_prepare:
  "\<exists>wr disk. daq_prepare 0 one_board demo_disk ([], [Some [1, 2, 3]]) =
     (True, one_board\<lparr> dq_runners := map (\<lambda>r. r\<lparr> br_info := BoardInfo_init \<rparr>) (dq_runners one_board),
        dq_writing := (dq_writing one_board)\<lparr> wt_writer := Some wr \<rparr>, dq_prepared := True \<rparr>, disk,
      ([(0, CallOpen True), (0, CallConfigure True)], [Some [1, 2, 3]]))"
  by (simp add: daq_prepare_def one_run runner_prepare_def logged_simps log_call_def scripted_def run_writer_def
      writer_open_def openCycle_def io_call_def stream_open_def Let_def RawFileWriter_new_def setBoards_def demo_disk_def
      WriterThread_init_def)

lemma one_start:
  "\<exists>d' disk'. daq_start id demo_env one_board demo_disk ([], [Some [1, 2, 3]]) = Some (True, d', disk',
      ([(0, CallOpen True), (0, CallConfigure True), (0, CallStart True)], [Some [1, 2, 3]])) \<and>
     length (dq_runners d') = 1 \<and> br_dgtz (dq_runners d' ! 0) = logged_board 0 scripted \<and>
     br_cfg (dq_runners d' ! 0) = BoardRunnerConfig_init \<and> br_hasQueue (dq_runners d' ! 0) \<and>
     dq_queue d' = BlockQueue_new 8192 \<and> \<not> wt_failed (dq_writing d')"
proof -
  obtain wr disk where p: "daq_prepare 0 one_board demo_disk ([], [Some [1, 2, 3]]) =
     (True, one_board\<lparr> dq_runners := map (\<lambda>r. r\<lparr> br_info := BoardInfo_init \<rparr>) (dq_runners one_board),
        dq_writing := (dq_writing one_board)\<lparr> wt_writer := Some wr \<rparr>, dq_prepared := True \<rparr>, disk,
      ([(0, CallOpen True), (0, CallConfigure True)], [Some [1, 2, 3]]))" using one_prepare by blast
  show ?thesis
    using p
    by (simp add: daq_start_def one_run alignClockChain_def masterIndex_def clockChainOrder_def external_clock_def
        logged_simps log_call_def scripted_def synchronised_def BoardInfo_init_def start_writer_def runner_start_def
        fire_master_def setSyncRole_def kStartModeSW_def daq_go_def startReader_def Let_def WriterThread_init_def)
qed

lemma one_read:
  assumes "length rs = 1" and "br_dgtz (rs ! 0) = logged_board 0 scripted" and "br_cfg (rs ! 0) = BoardRunnerConfig_init"
    and "br_hasQueue (rs ! 0)"
  shows "\<exists>r. reader_iter (calm True) (rs ! 0) (BlockQueue_new 8192) (l, [Some [1, 2, 3]]) =
     (ReaderDispatched 3, r, (BlockQueue_new 8192)\<lparr> q_items := [Some [1, 2, 3]] \<rparr>,
      (l @ [(0, CallRead (Some [1, 2, 3]))], []))"
  using assms
  by (simp add: reader_iter_def calm_def quiet_def logged_simps log_call_def scripted_def runner_dispatch_def push_def
      bq_ops BlockQueue_new_def BoardRunnerConfig_init_def Let_def)

theorem file_is_what_was_counted_witness:
  "\<exists>d' disk' w' s acc. daq_start id demo_env one_board demo_disk ([], [Some [1, 2, 3]]) = Some (True, d', disk', w') \<and>
     run_steps 1 (run_of d' disk' w') s \<and> q_items (rn_queue s) = [Some [1, 2, 3]] \<and>
     map snd (drop (length acc - 1) acc) = [[1, 2, 3]] \<and>
     br_bytesWritten (rn_runners s ! 0) = total_bytes (own_blocks 0 acc) \<and>
     subseq (own_blocks 0 acc) (reads_of 0 (drop (length (fst w')) (fst (rn_world s))))"
proof -
  obtain d' disk' l where st: "daq_start id demo_env one_board demo_disk ([], [Some [1, 2, 3]]) =
      Some (True, d', disk', (l, [Some [1, 2, 3]]))" "length (dq_runners d') = 1"
    "br_dgtz (dq_runners d' ! 0) = logged_board 0 scripted" "br_cfg (dq_runners d' ! 0) = BoardRunnerConfig_init"
    "br_hasQueue (dq_runners d' ! 0)" "dq_queue d' = BlockQueue_new 8192" "\<not> wt_failed (dq_writing d')"
    using one_start by blast
  let ?before = "run_of d' disk' (l, [Some [1, 2, 3]])"
  let ?q = "(BlockQueue_new 8192)\<lparr> q_items := [Some [1, 2, 3]] \<rparr>"
  obtain r where r: "reader_iter (calm True) (dq_runners d' ! 0) (BlockQueue_new 8192) (l, [Some [1, 2, 3]]) =
      (ReaderDispatched 3, r, ?q, (l @ [(0, CallRead (Some [1, 2, 3]))], []))" using one_read [OF st(2-5)] by blast
  let ?after = "?before\<lparr> rn_runners := (rn_runners ?before)[0 := r], rn_queue := ?q,
      rn_world := (l @ [(0, CallRead (Some [1, 2, 3]))], []) \<rparr>"
  have "run_step ?before ?after"
    by (rule run_step.reader [where t = "calm True" and out = "ReaderDispatched 3"])
      (use st r in \<open>simp_all add: run_of_def calm_def quiet_def\<close>)
  then have n: "run_steps 1 ?before ?after" using run_steps.step [OF run_steps.stop] by fastforce
  have "\<not> dq_running one_board" "\<not> dq_prepared one_board" "dq_anyWrite one_board" "q_items (dq_queue one_board) = []"
    "on_log (\<lambda>_. scripted) 0 (dq_runners one_board)" "list_all (\<lambda>r. br_bytesWritten r = 0) (dq_runners one_board)"
    by (simp_all add: one_run BlockQueue_new_def)
  from file_is_what_was_counted [OF st(1) this demo_disk_ready n] obtain acc got where
    a: "map (Some \<circ> snd) acc = map Some got @ q_items (rn_queue ?after)"
    "br_bytesWritten (rn_runners ?after ! 0) = total_bytes (own_blocks 0 acc)"
    "subseq (own_blocks 0 acc) (reads_of 0 (drop (length l) (fst (rn_world ?after))))"
    by (auto simp: one_board_def)
  have "map (Some \<circ> snd) acc = map Some (got @ [[1, 2, 3]])" using a(1) by simp
  then have "map snd acc = got @ [[1, 2, 3]]" using accepted_all by metis
  then have "map snd (drop (length acc - 1) acc) = [[1, 2, 3]]"
    by (metis append_eq_conv_conj diff_add_inverse2 drop_map length_append length_map list.size(3,4) add_0 One_nat_def)
  then show ?thesis using st(1) n a(2,3) 
    by (intro exI [of _ d'] exI [of _ disk'] exI [of _ "(l, [Some [1, 2, 3]])"] exI [of _ ?after] exI [of _ acc]) simp
qed

end
