(* ===== verification/C_Numbers.thy ===== *)
theory C_Numbers
  imports Prelude
begin

text \<open>
  Reading unsigned numbers the way the C library does: \<open>std::strtoul\<close> and \<open>std::strtoull\<close>, which
  on the supported 64-bit targets are the same function. The register dumps of \<open>CaenDigitizer\<close>
  (base 16) and the command line (base 0) rest on it.
\<close>

section \<open>Characters\<close>

definition is_space :: "char \<Rightarrow> bool" where
  "is_space c \<longleftrightarrow> c = CHR '' '' \<or> (9 \<le> (of_char c :: nat) \<and> (of_char c :: nat) \<le> 13)"

text \<open>The value of a digit; a character that is no digit in any base has a value above all of them.\<close>

definition digit_of :: "char \<Rightarrow> nat" where
  "digit_of c =
     (let n = of_char c :: nat
      in if 48 \<le> n \<and> n \<le> 57 then n - 48
         else if 65 \<le> n \<and> n \<le> 90 then n - 55
         else if 97 \<le> n \<and> n \<le> 122 then n - 87
         else 36)"

section \<open>Numbers\<close>

fun hex_prefixed :: "string \<Rightarrow> bool" where
  "hex_prefixed (z # x # d # s) \<longleftrightarrow> z = CHR ''0'' \<and> (x = CHR ''x'' \<or> x = CHR ''X'') \<and> digit_of d < 16"
| "hex_prefixed _ \<longleftrightarrow> False"

definition number_base :: "nat \<Rightarrow> string \<Rightarrow> nat \<times> string" where
  "number_base b s =
     (if (b = 0 \<or> b = 16) \<and> hex_prefixed s then (16, drop 2 s)
      else if b = 0 then (if s \<noteq> [] \<and> hd s = CHR ''0'' then 8 else 10, s)
      else (b, s))"

definition digits_value :: "nat \<Rightarrow> string \<Rightarrow> nat" where
  "digits_value b s = foldl (\<lambda>n c. n * b + digit_of c) 0 (takeWhile (\<lambda>c. digit_of c < b) s)"

definition signed_part :: "string \<Rightarrow> bool \<times> string" where
  "signed_part s =
     (case s of
        [] \<Rightarrow> (False, [])
      | c # t \<Rightarrow> if c = CHR ''-'' then (True, t) else if c = CHR ''+'' then (False, t) else (False, s))"

definition strtoull :: "nat \<Rightarrow> string \<Rightarrow> nat" where
  "strtoull base s =
     (let (neg, s) = signed_part (dropWhile is_space s);
          (b, s) = number_base base s;
          n = digits_value b s
      in if n \<ge> 2 ^ 64 then 2 ^ 64 - 1 else if neg then (2 ^ 64 - n) mod 2 ^ 64 else n)"

section \<open>Decimal numbers\<close>

lemma digit_of_digit: "d < 10 \<Longrightarrow> digit_of (char_of (48 + d :: nat)) = d"
  by (simp add: digit_of_def of_char_digit Let_def)

lemma char_zero: "char_of (48 :: nat) = CHR ''0''"
proof -
  have "of_char (CHR ''0'') = (48 :: nat)" by simp
  then show ?thesis by (metis char_of_char)
qed

lemma digit_no_space:
  assumes "d < 10"
  shows "\<not> is_space (char_of (48 + d :: nat))" "char_of (48 + d :: nat) \<noteq> CHR ''-''"
    "char_of (48 + d :: nat) \<noteq> CHR ''+''" "char_of (48 + d :: nat) = CHR ''0'' \<longleftrightarrow> d = 0"
proof -
  have n: "(of_char (char_of (48 + d :: nat)) :: nat) = 48 + d" using assms by (rule of_char_digit)
  have eq: "char_of (48 + d :: nat) = c \<Longrightarrow> of_char c = 48 + d" for c using n by auto
  show "\<not> is_space (char_of (48 + d :: nat))" using n eq [of "CHR '' ''"] unfolding is_space_def by auto
  show "char_of (48 + d :: nat) \<noteq> CHR ''-''" using eq [of "CHR ''-''"] by auto
  show "char_of (48 + d :: nat) \<noteq> CHR ''+''" using eq [of "CHR ''+''"] by auto
  show "char_of (48 + d :: nat) = CHR ''0'' \<longleftrightarrow> d = 0" using eq [of "CHR ''0''"] char_zero by auto
qed

definition decimal :: "char \<Rightarrow> bool" where
  "decimal c \<longleftrightarrow> (\<exists>d < 10. c = char_of (48 + d :: nat))"

lemma decimalE:
  assumes "decimal c"
  shows "\<not> is_space c" "c \<noteq> CHR ''-''" "c \<noteq> CHR ''+''" "digit_of c < 10" "of_char c - 48 = digit_of c"
  using assms digit_no_space by (auto simp: decimal_def digit_of_digit of_char_digit)

lemma digits_value_decimal: "\<forall>c \<in> set s. decimal c \<Longrightarrow> digits_value 10 s = str_nat s"
proof -
  assume s: "\<forall>c \<in> set s. decimal c"
  then have "takeWhile (\<lambda>c. digit_of c < 10) s = s" using takeWhile_eq_all_conv decimalE(4) by blast
  moreover have "foldl (\<lambda>n c. n * 10 + digit_of c) a s = foldl (\<lambda>a c. a * 10 + (of_char c - 48)) a s" for a
    using s by (induction s arbitrary: a) (simp_all add: decimalE)
  ultimately show ?thesis by (simp only: digits_value_def str_nat_def)
qed

lemma nat_str_decimal: "c \<in> set (nat_str n) \<Longrightarrow> decimal c"
  unfolding decimal_def by (rule nat_str_digits)

lemma nat_str_front: "\<exists>c s. nat_str n = c # s \<and> decimal c \<and> (0 < n \<longrightarrow> c \<noteq> CHR ''0'') \<and> (n = 0 \<longrightarrow> s = [])"
proof (induction n rule: nat_str.induct)
  case (1 n)
  show ?case
  proof (cases "n < 10")
    case True
    then show ?thesis using digit_no_space(4) [of n] by (subst nat_str.simps) (auto simp: decimal_def)
  next
    case False
    then have "0 < n div 10" by simp
    then obtain c s where "nat_str (n div 10) = c # s" "decimal c" "c \<noteq> CHR ''0''" using 1 [OF False] by auto
    then show ?thesis using False by (subst nat_str.simps) simp
  qed
qed

text \<open>A number printed in decimal is read back, by base 0 as by base 10.\<close>

lemma strtoull_nat_str:
  assumes "n < 2 ^ 64"
  shows "strtoull 0 (nat_str n) = n"
proof -
  obtain c s where n: "nat_str n = c # s" "decimal c" "0 < n \<longrightarrow> c \<noteq> CHR ''0''" "n = 0 \<longrightarrow> s = []"
    using nat_str_front by blast
  have sp: "signed_part (dropWhile is_space (nat_str n)) = (False, nat_str n)"
    unfolding n(1) using decimalE [OF n(2)] by (simp add: signed_part_def)
  show ?thesis
  proof (cases "n = 0")
    case True
    then have "nat_str n = ''0''" by (subst nat_str.simps) (simp add: char_zero)
    then show ?thesis using True by (simp add: strtoull_def signed_part_def is_space_def number_base_def
        digits_value_def digit_of_def)
  next
    case False
    then have c: "c \<noteq> CHR ''0''" using n(3) by simp
    then have "\<not> hex_prefixed (c # s)" by (cases "c # s" rule: hex_prefixed.cases) auto
    then have "number_base 0 (nat_str n) = (10, nat_str n)" using n(1) c by (simp add: number_base_def)
    moreover have "digits_value 10 (nat_str n) = n" using digits_value_decimal nat_str_decimal by simp
    ultimately show ?thesis using sp assms by (simp add: strtoull_def)
  qed
qed

lemma strtoull_bound: "strtoull b s < 2 ^ 64"
proof -
  have "(2 ^ 64 - n) mod 2 ^ 64 < (2 ^ 64 :: nat)" for n by simp
  then show ?thesis by (auto simp: strtoull_def Let_def split: prod.split)
qed

end
