(* ===== verification/Caen_Digitizer.thy ===== *)
theory Caen_Digitizer
  imports Digitizer C_Numbers "HOL-Library.State_Monad"
begin

text \<open>
  \<open>CaenDigitizer\<close>: the adapter that drives one board through the vendored CAEN driver. The driver
  and the library below it are a parameter: a function that answers each call, over an arbitrary
  state of the hardware. The operations are state-monad programs that read like the methods; every
  call and every use of the link's lock is recorded. Log lines are not modelled, and with them the
  error text, which nothing else reads.
\<close>

section \<open>The driver\<close>

datatype driver_call =
    NewDriver
  | Activate int int int u32
  | Deactivate
  | DeleteDriver
  | GetInfo
  | GetNumChannels
  | GetModel
  | GetDPPVersion
  | GetNsPerSample
  | GetNsPerTimetag
  | GetBoardRegID
  | GetChannelEnableMask
  | ReadRegister u32
  | WriteRegister u32 u32
  | SetRegisterSpecificBits u32 nat nat u32
  | ConfigureFromFile string
  | MallocReadoutBuffer
  | FreeReadoutBuffer nat
  | ClearData
  | SWStartAcquisition
  | SWStopAcquisition
  | SendSWTrigger
  | ReadData nat

text \<open>The fields of \<open>CAEN_DGTZ_BoardInfo_t\<close> the adapter reads.\<close>

record LibBoardInfo =
  li_ModelName :: string
  li_FamilyCode :: u32
  li_ADC_NBits :: u32
  li_SerialNumber :: u32
  li_ROC_FirmwareRel :: string
  li_AMC_FirmwareRel :: string
  li_FormFactor :: u32
  li_PCB_Revision :: u32
  li_License :: string

text \<open>
  An answer: the error the call reports through the registered error code (0 when it reports
  none), and whichever results the call has.
\<close>

record Reply =
  rp_error :: int
  rp_word :: u32
  rp_firmware :: CAEN_DGTZ_DPPFirmware
  rp_info :: LibBoardInfo
  rp_buffer :: "nat option"
  rp_data :: "u8 list"

text \<open>
  \<open>dr_active\<close> is \<open>IsActive(1)\<close>, a field of the driver object that needs no bus access;
  \<open>dr_dump\<close> is what parsing a register file yields: nothing, when it cannot be read or parsed or
  has no section \<open>registers\<close>, or the texts of address and value of each of its members.
\<close>

record 'h Driver =
  dr_call :: "driver_call \<Rightarrow> 'h \<Rightarrow> Reply \<times> 'h"
  dr_active :: "'h \<Rightarrow> bool"
  dr_dump :: "string \<Rightarrow> 'h \<Rightarrow> (string option \<times> string option) list option"

fun mapDpp :: "CAEN_DGTZ_DPPFirmware \<Rightarrow> DppType" where
  "mapDpp DPPFirmware_PHA = PHA"
| "mapDpp DPPFirmware_PSD = PSD"
| "mapDpp DPPFirmware_CI = CI"
| "mapDpp DPPFirmware_ZLE = ZLE"
| "mapDpp DPPFirmware_QDC = QDC"
| "mapDpp DPPFirmware_DAW = DAW"
| "mapDpp NotDPPFirmware = Std"

definition kRegBoardConfiguration :: u32 where "kRegBoardConfiguration = 0x8000"
definition kRegAcquisitionControl :: u32 where "kRegAcquisitionControl = 0x8100"
definition kRegGlobalTriggerMask :: u32 where "kRegGlobalTriggerMask = 0x810C"
definition kRegTrgOutEnableMask :: u32 where "kRegTrgOutEnableMask = 0x8110"
definition kRegFrontPanelIOCtrl :: u32 where "kRegFrontPanelIOCtrl = 0x811C"
definition kRegRunDelay :: u32 where "kRegRunDelay = 0x8170"

definition MAX_LICENSE_LENGTH :: nat where "MAX_LICENSE_LENGTH = 17"

section \<open>The links\<close>

text \<open>
  The registry of the mutexes, one per physical link: the connection type and the link number. A
  mutex is the number it was created with.
\<close>

type_synonym LinkRegistry = "(int \<times> int) list"

fun find_slot :: "int \<times> int \<Rightarrow> LinkRegistry \<Rightarrow> nat option" where
  "find_slot k [] = None"
| "find_slot k (x # xs) = (if x = k then Some 0 else map_option Suc (find_slot k xs))"

definition linkMutex :: "int \<Rightarrow> int \<Rightarrow> LinkRegistry \<Rightarrow> nat \<times> LinkRegistry" where
  "linkMutex conn num reg =
     (case find_slot (conn, num) reg of
        Some m \<Rightarrow> (m, reg)
      | None \<Rightarrow> (length reg, reg @ [(conn, num)]))"

section \<open>State\<close>

record CaenDigitizer =
  cd_params :: BoardParams
  cd_dgtz :: bool
  cd_info :: BoardInfo
  ioMutex :: nat
  readoutBuffer :: "nat option"
  cd_bufferSize :: u32
  cd_errcode :: int
  cd_configured :: bool
  cd_running :: bool

definition CaenDigitizer_new :: "BoardParams \<Rightarrow> LinkRegistry \<Rightarrow> CaenDigitizer \<times> LinkRegistry" where
  "CaenDigitizer_new p reg =
     (let (m, reg) = linkMutex (connType p) (linkNum p) reg
      in (\<lparr> cd_params = p, cd_dgtz = False,
            cd_info = BoardInfo_init\<lparr> bi_connType := connType p, bi_linkNum := linkNum p, bi_node := node p,
                                      bi_vmeBase := vmeBase p \<rparr>,
            ioMutex = m, readoutBuffer = None, cd_bufferSize = 0, cd_errcode = 0, cd_configured = False,
            cd_running = False \<rparr>, reg))"

text \<open>
  What an operation does that others can see: it takes or releases the link's lock, gives up
  waiting for it, or calls the driver.
\<close>

datatype bus_event = LinkLocked | LinkUnlocked | LinkTimeout | BusCall driver_call Reply

text \<open>\<open>cs_free\<close>: whether the \<open>n\<close>-th bounded wait for the link succeeds.\<close>

record 'h CaenState =
  cs_dev :: CaenDigitizer
  cs_bus :: 'h
  cs_trace :: "bus_event list"
  cs_free :: "nat \<Rightarrow> bool"
  cs_waits :: nat

type_synonym ('h, 'a) caen = "('h CaenState, 'a) state"

definition field :: "(CaenDigitizer \<Rightarrow> 'a) \<Rightarrow> ('h, 'a) caen" where
  "field f = State (\<lambda>s. (f (cs_dev s), s))"

definition assign :: "(CaenDigitizer \<Rightarrow> CaenDigitizer) \<Rightarrow> ('h, unit) caen" where
  "assign f = State (\<lambda>s. ((), s\<lparr> cs_dev := f (cs_dev s) \<rparr>))"

definition note_event :: "bus_event \<Rightarrow> ('h, unit) caen" where
  "note_event e = State (\<lambda>s. ((), s\<lparr> cs_trace := cs_trace s @ [e] \<rparr>))"

abbreviation set_errcode :: "int \<Rightarrow> ('h, unit) caen" where
  "set_errcode e \<equiv> assign (\<lambda>d. d\<lparr> cd_errcode := e \<rparr>)"

text \<open>A call; an error, and only an error, is stored in \<open>errcode_\<close>.\<close>

definition caen_call :: "'h Driver \<Rightarrow> driver_call \<Rightarrow> ('h, Reply) caen" where
  "caen_call dr c = State (\<lambda>s.
     let (r, h) = dr_call dr c (cs_bus s); d = cs_dev s
     in (r, s\<lparr> cs_bus := h, cs_trace := cs_trace s @ [BusCall c r],
               cs_dev := (if rp_error r \<noteq> 0 then d\<lparr> cd_errcode := rp_error r \<rparr> else d) \<rparr>))"

definition caen_active :: "'h Driver \<Rightarrow> ('h, bool) caen" where
  "caen_active dr = State (\<lambda>s. (dr_active dr (cs_bus s), s))"

definition caen_connected :: "'h Driver \<Rightarrow> ('h, bool) caen" where
  "caen_connected dr = do { have \<leftarrow> field cd_dgtz; up \<leftarrow> caen_active dr; State_Monad.return (have \<and> up) }"

section \<open>Opening\<close>

definition read_back :: "'h Driver \<Rightarrow> u32 \<Rightarrow> ('h, u32) caen" where
  "read_back dr a = do {
     set_errcode 0;
     r \<leftarrow> caen_call dr (ReadRegister a);
     e \<leftarrow> field cd_errcode;
     if e \<noteq> 0 then do { set_errcode 0; State_Monad.return 0 } else State_Monad.return (rp_word r)
   }"

abbreviation set_info :: "(BoardInfo \<Rightarrow> BoardInfo) \<Rightarrow> ('h, unit) caen" where
  "set_info f \<equiv> assign (\<lambda>d. d\<lparr> cd_info := f (cd_info d) \<rparr>)"

definition read_identity :: "'h Driver \<Rightarrow> ('h, unit) caen" where
  "read_identity dr = do {
     r \<leftarrow> caen_call dr GetInfo;
     let bi = rp_info r;
     set_info (\<lambda>i. i\<lparr> modelName := li_ModelName bi, familyCode := li_FamilyCode bi \<rparr>);
     r \<leftarrow> caen_call dr GetNumChannels;
     set_info (\<lambda>i. i\<lparr> bi_channels := rp_word r, adcNBits := li_ADC_NBits bi, serialNumber := li_SerialNumber bi,
                      rocFirmware := li_ROC_FirmwareRel bi, amcFirmware := li_AMC_FirmwareRel bi \<rparr>);
     r \<leftarrow> caen_call dr GetModel;
     set_info (\<lambda>i. i\<lparr> model := rp_word r \<rparr>);
     r \<leftarrow> caen_call dr GetDPPVersion;
     set_info (\<lambda>i. i\<lparr> dppType := mapDpp (rp_firmware r) \<rparr>);
     r \<leftarrow> caen_call dr GetNsPerSample;
     set_info (\<lambda>i. i\<lparr> nsPerSample := ucast (rp_word r) \<rparr>);
     r \<leftarrow> caen_call dr GetNsPerTimetag;
     set_info (\<lambda>i. i\<lparr> nsPerTimetag := ucast (rp_word r) \<rparr>);
     r \<leftarrow> caen_call dr GetBoardRegID;
     set_info (\<lambda>i. i\<lparr> boardRegId := rp_word r \<rparr>);
     r \<leftarrow> caen_call dr GetChannelEnableMask;
     set_info (\<lambda>i. i\<lparr> channelEnableMask := rp_word r, formFactor := li_FormFactor bi,
                      pcbRevision := li_PCB_Revision bi,
                      license := takeWhile (\<lambda>c. c \<noteq> CHR 0x00) (take MAX_LICENSE_LENGTH (li_License bi)) \<rparr>)
   }"

definition read_settings :: "'h Driver \<Rightarrow> ('h, unit) caen" where
  "read_settings dr = do {
     v \<leftarrow> read_back dr kRegAcquisitionControl;
     set_info (\<lambda>i. i\<lparr> acquisitionControl := v \<rparr>);
     v \<leftarrow> read_back dr kRegBoardConfiguration;
     set_info (\<lambda>i. i\<lparr> boardConfiguration := v \<rparr>);
     v \<leftarrow> read_back dr kRegFrontPanelIOCtrl;
     set_info (\<lambda>i. i\<lparr> frontPanelIOControl := v \<rparr>);
     v \<leftarrow> read_back dr kRegGlobalTriggerMask;
     set_info (\<lambda>i. i\<lparr> globalTriggerMask := v \<rparr>);
     v \<leftarrow> read_back dr kRegTrgOutEnableMask;
     set_info (\<lambda>i. i\<lparr> trgOutEnableMask := v \<rparr>);
     v \<leftarrow> read_back dr kRegRunDelay;
     set_info (\<lambda>i. i\<lparr> runDelay := v \<rparr>)
   }"

definition refreshBoardInfo :: "'h Driver \<Rightarrow> ('h, unit) caen" where
  "refreshBoardInfo dr = do {
     have \<leftarrow> field cd_dgtz;
     if \<not> have then State_Monad.return () else do { read_identity dr; read_settings dr }
   }"

definition new_driver :: "'h Driver \<Rightarrow> ('h, unit) caen" where
  "new_driver dr = do {
     have \<leftarrow> field cd_dgtz;
     if have then State_Monad.return ()
     else do { caen_call dr NewDriver; assign (\<lambda>d. d\<lparr> cd_dgtz := True \<rparr>) }
   }"

definition activate :: "'h Driver \<Rightarrow> ('h, bool) caen" where
  "activate dr = do {
     new_driver dr;
     set_errcode 0;
     p \<leftarrow> field cd_params;
     caen_call dr (Activate (connType p) (linkNum p) (node p) (vmeBase p));
     e \<leftarrow> field cd_errcode;
     up \<leftarrow> caen_active dr;
     if e \<noteq> 0 \<or> \<not> up then State_Monad.return False
     else do { refreshBoardInfo dr; State_Monad.return True }
   }"

definition caen_open :: "'h Driver \<Rightarrow> ('h, bool) caen" where
  "caen_open dr = activate dr"

definition caen_startMode :: "CaenDigitizer \<Rightarrow> u32" where
  "caen_startMode d = acquisitionControl (cd_info d) AND 0x3"

section \<open>Configuring\<close>

text \<open>One entry of a register dump; a failed write is counted and otherwise ignored.\<close>

definition write_entry :: "'h Driver \<Rightarrow> string option \<times> string option \<Rightarrow> ('h, unit) caen" where
  "write_entry dr e =
     (case e of
        (Some a, Some v) \<Rightarrow> do {
          set_errcode 0;
          caen_call dr (WriteRegister (of_nat (strtoull 16 a)) (of_nat (strtoull 16 v)));
          e \<leftarrow> field cd_errcode;
          if e \<noteq> 0 then set_errcode 0 else State_Monad.return ()
        }
      | _ \<Rightarrow> State_Monad.return ())"

fun write_entries :: "'h Driver \<Rightarrow> (string option \<times> string option) list \<Rightarrow> ('h, unit) caen" where
  "write_entries dr [] = State_Monad.return ()"
| "write_entries dr (e # es) = do { write_entry dr e; write_entries dr es }"

definition parse_dump :: "'h Driver \<Rightarrow> string \<Rightarrow> ('h, (string option \<times> string option) list option) caen" where
  "parse_dump dr path = State (\<lambda>s. (dr_dump dr path (cs_bus s), s))"

definition applyRegisterDump :: "'h Driver \<Rightarrow> string \<Rightarrow> ('h, bool) caen" where
  "applyRegisterDump dr path = do {
     regs \<leftarrow> parse_dump dr path;
     case regs of
       None \<Rightarrow> State_Monad.return False
     | Some es \<Rightarrow> do { write_entries dr es; State_Monad.return True }
   }"

definition program_board :: "'h Driver \<Rightarrow> string \<Rightarrow> ('h, bool) caen" where
  "program_board dr path =
     (if path = [] then State_Monad.return True
      else do {
        dumped \<leftarrow> applyRegisterDump dr path;
        if dumped then State_Monad.return True
        else do {
          set_errcode 0;
          caen_call dr (ConfigureFromFile path);
          e \<leftarrow> field cd_errcode;
          State_Monad.return (e \<noteq> - 60)
        }
      })"

definition free_buffer :: "'h Driver \<Rightarrow> (CaenDigitizer \<Rightarrow> CaenDigitizer) \<Rightarrow> ('h, unit) caen" where
  "free_buffer dr f = do {
     b \<leftarrow> field readoutBuffer;
     case b of
       None \<Rightarrow> State_Monad.return ()
     | Some p \<Rightarrow> do { caen_call dr (FreeReadoutBuffer p); assign (\<lambda>d. f (d\<lparr> readoutBuffer := None \<rparr>)) }
   }"

definition alloc_buffer :: "'h Driver \<Rightarrow> ('h, bool) caen" where
  "alloc_buffer dr = do {
     free_buffer dr (\<lambda>d. d\<lparr> cd_bufferSize := 0 \<rparr>);
     set_errcode 0;
     r \<leftarrow> caen_call dr MallocReadoutBuffer;
     assign (\<lambda>d. d\<lparr> readoutBuffer := rp_buffer r, cd_bufferSize := rp_word r \<rparr>);
     e \<leftarrow> field cd_errcode;
     State_Monad.return (e = 0 \<and> rp_buffer r \<noteq> None)
   }"

definition applyConfig :: "'h Driver \<Rightarrow> ('h, bool) caen" where
  "applyConfig dr = do {
     have \<leftarrow> field cd_dgtz;
     if \<not> have then State_Monad.return False
     else do {
       path \<leftarrow> field (configPath \<circ> cd_params);
       ok \<leftarrow> program_board dr path;
       if \<not> ok then State_Monad.return False else alloc_buffer dr
     }
   }"

definition caen_configure :: "'h Driver \<Rightarrow> ('h, bool) caen" where
  "caen_configure dr = do {
     ok \<leftarrow> applyConfig dr;
     if \<not> ok then State_Monad.return False
     else do {
       refreshBoardInfo dr;
       assign (\<lambda>d. d\<lparr> cd_configured := True \<rparr>);
       State_Monad.return True
     }
   }"

section \<open>Starting\<close>

definition caen_start :: "'h Driver \<Rightarrow> ('h, bool) caen" where
  "caen_start dr = do {
     have \<leftarrow> field cd_dgtz;
     if \<not> have then State_Monad.return False
     else do {
       set_errcode 0;
       caen_call dr ClearData;
       caen_call dr SWStartAcquisition;
       e \<leftarrow> field cd_errcode;
       if e \<noteq> 0 then State_Monad.return False
       else do { assign (\<lambda>d. d\<lparr> cd_running := True \<rparr>); State_Monad.return True }
     }
   }"

definition caen_arm :: "'h Driver \<Rightarrow> ('h, bool) caen" where
  "caen_arm dr = do {
     have \<leftarrow> field cd_dgtz;
     if \<not> have then State_Monad.return False
     else do {
       set_errcode 0;
       caen_call dr ClearData;
       caen_call dr (SetRegisterSpecificBits kRegAcquisitionControl 2 2 1);
       e \<leftarrow> field cd_errcode;
       if e \<noteq> 0 then State_Monad.return False
       else do { assign (\<lambda>d. d\<lparr> cd_running := True \<rparr>); State_Monad.return True }
     }
   }"

definition caen_sendSWTrigger :: "'h Driver \<Rightarrow> ('h, bool) caen" where
  "caen_sendSWTrigger dr = do {
     have \<leftarrow> field cd_dgtz;
     if \<not> have then State_Monad.return False
     else do {
       set_errcode 0;
       caen_call dr SendSWTrigger;
       e \<leftarrow> field cd_errcode;
       State_Monad.return (e = 0)
     }
   }"

section \<open>Reading\<close>

definition drop_link :: "'h Driver \<Rightarrow> ('h, unit) caen" where
  "drop_link dr = do {
     have \<leftarrow> field cd_dgtz;
     if \<not> have then State_Monad.return ()
     else do { free_buffer dr id; caen_call dr Deactivate; State_Monad.return () }
   }"

text \<open>
  \<open>resume\<close>: what \<open>reconnect\<close> does for a board that was running. A board that waits for an
  external start is armed again; any other is started without touching \<open>running_\<close>.
\<close>

definition resume :: "'h Driver \<Rightarrow> ('h, bool) caen" where
  "resume dr = do {
     running \<leftarrow> field cd_running;
     mode \<leftarrow> field caen_startMode;
     if \<not> running then State_Monad.return True
     else if mode \<noteq> kStartModeSW
     then do { assign (\<lambda>d. d\<lparr> cd_running := False \<rparr>); caen_arm dr }
     else do {
       set_errcode 0;
       caen_call dr ClearData;
       caen_call dr SWStartAcquisition;
       e \<leftarrow> field cd_errcode;
       State_Monad.return (e = 0)
     }
   }"

definition reconnect :: "'h Driver \<Rightarrow> ('h, bool) caen" where
  "reconnect dr = do {
     drop_link dr;
     ok \<leftarrow> activate dr;
     if \<not> ok then State_Monad.return False
     else do {
       ok \<leftarrow> applyConfig dr;
       if \<not> ok then State_Monad.return False
       else do { refreshBoardInfo dr; resume dr }
     }
   }"

text \<open>
  The lock of the link, held for the whole block on every path out of it. That nobody else
  holds it meanwhile is the business of the interleaving, below.
\<close>

definition with_link :: "('h, 'a) caen \<Rightarrow> ('h, 'a) caen" where
  "with_link m = do { note_event LinkLocked; r \<leftarrow> m; note_event LinkUnlocked; State_Monad.return r }"

text \<open>\<open>ReadData\<close> fills the readout buffer; a board with nothing pending leaves the size at 0.\<close>

definition read_buffer :: "'h Driver \<Rightarrow> ('h, RawBlock option) caen" where
  "read_buffer dr = do {
     set_errcode 0;
     assign (\<lambda>d. d\<lparr> cd_bufferSize := 0 \<rparr>);
     b \<leftarrow> field readoutBuffer;
     r \<leftarrow> caen_call dr (ReadData (the b));
     assign (\<lambda>d. d\<lparr> cd_bufferSize := of_nat (length (rp_data r)) \<rparr>);
     e \<leftarrow> field cd_errcode;
     State_Monad.return (if e \<noteq> 0 then None else Some (rp_data r))
   }"

definition caen_read :: "'h Driver \<Rightarrow> ('h, RawBlock option) caen" where
  "caen_read dr = do {
     have \<leftarrow> field cd_dgtz;
     b \<leftarrow> field readoutBuffer;
     if \<not> have \<or> b = None then State_Monad.return None
     else with_link (do {
       up \<leftarrow> caen_connected dr;
       ok \<leftarrow> (if up then State_Monad.return True else reconnect dr);
       if \<not> ok then State_Monad.return None else read_buffer dr
     })
   }"

section \<open>Online registers\<close>

definition caen_writeRegister :: "'h Driver \<Rightarrow> u32 \<Rightarrow> u32 \<Rightarrow> ('h, bool) caen" where
  "caen_writeRegister dr a v = do {
     have \<leftarrow> field cd_dgtz;
     if \<not> have then State_Monad.return False
     else with_link (do {
       up \<leftarrow> caen_connected dr;
       if \<not> up then State_Monad.return False
       else do {
         set_errcode 0;
         caen_call dr (WriteRegister a v);
         e \<leftarrow> field cd_errcode;
         if e \<noteq> 0 then do { set_errcode 0; State_Monad.return False } else State_Monad.return True
       }
     })
   }"

definition caen_readRegister :: "'h Driver \<Rightarrow> u32 \<Rightarrow> ('h, u32 option) caen" where
  "caen_readRegister dr a = do {
     have \<leftarrow> field cd_dgtz;
     if \<not> have then State_Monad.return None
     else with_link (do {
       up \<leftarrow> caen_connected dr;
       if \<not> up then State_Monad.return None
       else do {
         set_errcode 0;
         r \<leftarrow> caen_call dr (ReadRegister a);
         e \<leftarrow> field cd_errcode;
         if e \<noteq> 0 then do { set_errcode 0; State_Monad.return None } else State_Monad.return (Some (rp_word r))
       }
     })
   }"

section \<open>Stopping\<close>

definition acquireLinkForTeardown :: "('h, bool) caen" where
  "acquireLinkForTeardown = State (\<lambda>s.
     let ok = cs_free s (cs_waits s)
     in (ok, s\<lparr> cs_waits := cs_waits s + 1, cs_trace := cs_trace s @ [if ok then LinkLocked else LinkTimeout] \<rparr>))"

definition release_link :: "bool \<Rightarrow> ('h, unit) caen" where
  "release_link held = (if held then note_event LinkUnlocked else State_Monad.return ())"

definition caen_stop :: "'h Driver \<Rightarrow> ('h, bool) caen" where
  "caen_stop dr = do {
     have \<leftarrow> field cd_dgtz;
     if \<not> have then State_Monad.return False
     else do {
       held \<leftarrow> acquireLinkForTeardown;
       assign (\<lambda>d. d\<lparr> cd_running := False \<rparr>);
       set_errcode 0;
       caen_call dr SWStopAcquisition;
       e \<leftarrow> field cd_errcode;
       release_link held;
       State_Monad.return (e = 0)
     }
   }"

definition caen_close :: "'h Driver \<Rightarrow> ('h, unit) caen" where
  "caen_close dr = do {
     have \<leftarrow> field cd_dgtz;
     if \<not> have then State_Monad.return ()
     else do {
       running \<leftarrow> field cd_running;
       (if running then do { caen_stop dr; State_Monad.return () } else State_Monad.return ());
       held \<leftarrow> acquireLinkForTeardown;
       free_buffer dr (\<lambda>d. d\<lparr> cd_bufferSize := 0 \<rparr>);
       caen_call dr Deactivate;
       caen_call dr DeleteDriver;
       assign (\<lambda>d. d\<lparr> cd_dgtz := False \<rparr>);
       release_link held
     }
   }"

section \<open>The boards of a system\<close>

text \<open>
  Several boards on one bus: each has its object and its driver, they share the hardware, the
  registry of link locks and the record of events.
\<close>

record 'h CaenWorld =
  cw_boards :: "nat \<Rightarrow> CaenDigitizer"
  cw_bus :: 'h
  cw_links :: LinkRegistry
  cw_log :: "(nat \<times> bus_event) list"
  cw_free :: "nat \<Rightarrow> bool"
  cw_waits :: nat

definition caen_view :: "nat \<Rightarrow> 'h CaenWorld \<Rightarrow> 'h CaenState" where
  "caen_view i w =
     \<lparr> cs_dev = cw_boards w i, cs_bus = cw_bus w, cs_trace = [], cs_free = cw_free w, cs_waits = cw_waits w \<rparr>"

definition on_caen :: "nat \<Rightarrow> ('h, 'a) caen \<Rightarrow> 'h CaenWorld \<Rightarrow> 'a \<times> 'h CaenWorld" where
  "on_caen i m w =
     (let (r, s) = run_state m (caen_view i w)
      in (r, w\<lparr> cw_boards := (cw_boards w)(i := cs_dev s), cw_bus := cs_bus s,
                cw_log := cw_log w @ map (Pair i) (cs_trace s), cw_waits := cs_waits s \<rparr>))"

definition caen_board :: "(nat \<Rightarrow> 'h Driver) \<Rightarrow> nat \<Rightarrow> BoardParams \<Rightarrow> 'h CaenWorld Digitizer" where
  "caen_board drv i p =
     \<lparr> dg_name = bp_name p,
       dg_open = on_caen i (caen_open (drv i)),
       dg_configure = on_caen i (caen_configure (drv i)),
       dg_startMode = (\<lambda>w. caen_startMode (cw_boards w i)),
       dg_start = on_caen i (caen_start (drv i)),
       dg_arm = on_caen i (caen_arm (drv i)),
       dg_sendSWTrigger = on_caen i (caen_sendSWTrigger (drv i)),
       dg_read = on_caen i (caen_read (drv i)),
       dg_writeRegister = (\<lambda>a v. on_caen i (caen_writeRegister (drv i) a v)),
       dg_readRegister = (\<lambda>a. on_caen i (caen_readRegister (drv i) a)),
       dg_stop = on_caen i (caen_stop (drv i)),
       dg_close = (\<lambda>w. snd (on_caen i (caen_close (drv i)) w)),
       dg_info = (\<lambda>w. cd_info (cw_boards w i)),
       dg_connected = (\<lambda>w. fst (on_caen i (caen_connected (drv i)) w)) \<rparr>"

text \<open>The constructor, as a run makes board \<open>i\<close>.\<close>

definition make_caen :: "(nat \<Rightarrow> 'h Driver) \<Rightarrow> nat \<Rightarrow> BoardParams \<Rightarrow> 'h CaenWorld \<Rightarrow> 'h CaenWorld Digitizer \<times> 'h CaenWorld" where
  "make_caen drv i p w =
     (let (d, reg) = CaenDigitizer_new p (cw_links w)
      in (caen_board drv i p, w\<lparr> cw_boards := (cw_boards w)(i := d), cw_links := reg \<rparr>))"

section \<open>Symbolic execution\<close>

named_theorems caen_exec \<open>what the primitive programs do to the state\<close>

lemma field_exec [caen_exec]: "run_state (field f) s = (f (cs_dev s), s)"
  by (simp add: field_def)

lemma assign_exec [caen_exec]: "run_state (assign f) s = ((), s\<lparr> cs_dev := f (cs_dev s) \<rparr>)"
  by (simp add: assign_def)

lemma note_exec [caen_exec]: "run_state (note_event e) s = ((), s\<lparr> cs_trace := cs_trace s @ [e] \<rparr>)"
  by (simp add: note_event_def)

lemma active_exec [caen_exec]: "run_state (caen_active dr) s = (dr_active dr (cs_bus s), s)"
  by (simp add: caen_active_def)

lemma connected_exec [caen_exec]:
  "run_state (caen_connected dr) s = (cd_dgtz (cs_dev s) \<and> dr_active dr (cs_bus s), s)"
  by (simp add: caen_connected_def caen_exec)

lemma parse_exec [caen_exec]: "run_state (parse_dump dr path) s = (dr_dump dr path (cs_bus s), s)"
  by (simp add: parse_dump_def)

lemma acquire_exec [caen_exec]:
  "run_state acquireLinkForTeardown s =
     (cs_free s (cs_waits s),
      s\<lparr> cs_waits := cs_waits s + 1,
         cs_trace := cs_trace s @ [if cs_free s (cs_waits s) then LinkLocked else LinkTimeout] \<rparr>)"
  by (simp add: acquireLinkForTeardown_def Let_def)

text \<open>
  Every program of the adapter is told apart by what it may do: \<open>triple P m Q\<close> is partial only
  in name, since programs always return.
\<close>

definition triple :: "('h CaenState \<Rightarrow> bool) \<Rightarrow> ('h, 'a) caen \<Rightarrow> ('a \<Rightarrow> 'h CaenState \<Rightarrow> bool) \<Rightarrow> bool" where
  "triple P m Q \<longleftrightarrow> (\<forall>s. P s \<longrightarrow> (\<forall>r s'. run_state m s = (r, s') \<longrightarrow> Q r s'))"

lemma tripleI: "(\<And>s r s'. P s \<Longrightarrow> run_state m s = (r, s') \<Longrightarrow> Q r s') \<Longrightarrow> triple P m Q"
  by (simp add: triple_def)

lemma tripleD: "triple P m Q \<Longrightarrow> P s \<Longrightarrow> Q (fst (run_state m s)) (snd (run_state m s))"
  by (simp add: triple_def)

lemma triple_bind: "triple P m Q \<Longrightarrow> (\<And>r. triple (Q r) (f r) R) \<Longrightarrow> triple P (m \<bind> f) R"
  unfolding triple_def by (fastforce split: prod.splits)

lemma triple_return: "triple (Q x) (State_Monad.return x) Q"
  by (simp add: triple_def)

lemma triple_weaken:
  "triple P' m Q' \<Longrightarrow> (\<And>s. P s \<Longrightarrow> P' s) \<Longrightarrow> (\<And>r s. Q' r s \<Longrightarrow> Q r s) \<Longrightarrow> triple P m Q"
  unfolding triple_def by blast

lemma triple_if:
  "(b \<Longrightarrow> triple P m Q) \<Longrightarrow> (\<not> b \<Longrightarrow> triple P n Q) \<Longrightarrow> triple P (if b then m else n) Q"
  by simp

section \<open>The interface\<close>

lemma close_gone: "\<not> cd_dgtz (cs_dev (snd (run_state (caen_close dr) s)))"
  by (simp add: caen_close_def caen_exec release_link_def split: prod.split)

lemma close_again: "\<not> cd_dgtz (cs_dev s) \<Longrightarrow> run_state (caen_close dr) s = ((), s)"
  by (simp add: caen_close_def caen_exec)

lemma caen_view_gone: "\<not> cd_dgtz (cw_boards (snd (on_caen i (caen_close dr) w)) i)"
  using close_gone [of dr "caen_view i w"] by (simp add: on_caen_def split_beta)

lemma on_caen_still:
  "run_state m (caen_view i w) = (r, caen_view i w) \<Longrightarrow> on_caen i m w = (r, w)"
  by (simp add: on_caen_def caen_view_def)

interpretation caen_closable: closable_digitizer "caen_board drv i p"
proof unfold_locales
  fix w a v
  let ?w = "dg_close (caen_board drv i p) w"
  have g: "\<not> cd_dgtz (cs_dev (caen_view i ?w))"
    using caen_view_gone by (simp add: caen_board_def caen_view_def)
  then show "dg_close (caen_board drv i p) ?w = ?w"
    using on_caen_still [OF close_again [OF g], of "drv i"] by (simp add: caen_board_def)
  show "dg_writeRegister (caen_board drv i p) a v ?w = (False, ?w)"
    using g on_caen_still [of "caen_writeRegister (drv i) a v" i ?w False]
    by (simp add: caen_board_def caen_writeRegister_def caen_exec)
  show "dg_readRegister (caen_board drv i p) a ?w = (None, ?w)"
    using g on_caen_still [of "caen_readRegister (drv i) a" i ?w None]
    by (simp add: caen_board_def caen_readRegister_def caen_exec)
  show "\<not> dg_connected (caen_board drv i p) ?w"
    using g by (simp add: caen_board_def on_caen_def caen_exec)
qed

end
