(* ===== verification/Caen_Protocol.thy ===== *)
theory Caen_Protocol
  imports Caen_Digitizer
begin

text \<open>
  How the adapter uses the driver: the protocol of driver object and readout buffer that every
  sequence of operations follows.
\<close>

section \<open>The protocol of the driver\<close>

text \<open>
  What may happen when: calls need a driver object, there is at most one object and at most one
  readout buffer, only the buffer that is held is read into and freed, and the object goes last.
  The state is whether there is an object, and the buffer.
\<close>

fun legal_event :: "bool \<times> nat option \<Rightarrow> bus_event \<Rightarrow> (bool \<times> nat option) option" where
  "legal_event (alive, buf) (BusCall c r) =
     (case c of
        NewDriver \<Rightarrow> if alive then None else Some (True, buf)
      | DeleteDriver \<Rightarrow> if alive \<and> buf = None then Some (False, None) else None
      | MallocReadoutBuffer \<Rightarrow> if alive \<and> buf = None then Some (True, rp_buffer r) else None
      | FreeReadoutBuffer p \<Rightarrow> if alive \<and> buf = Some p then Some (True, None) else None
      | ReadData p \<Rightarrow> if alive \<and> buf = Some p then Some (True, buf) else None
      | _ \<Rightarrow> if alive then Some (True, buf) else None)"
| "legal_event st LinkLocked = Some st"
| "legal_event st LinkUnlocked = Some st"
| "legal_event st LinkTimeout = Some st"

definition legal :: "bus_event list \<Rightarrow> (bool \<times> nat option) option" where
  "legal es = foldM legal_event (False, None) es"

lemma legal_snoc: "legal es = Some st \<Longrightarrow> legal (es @ [e]) = legal_event st e"
  by (simp add: legal_def foldM_append)

lemma legal_app: "legal es = Some st \<Longrightarrow> legal (es @ fs) = foldM legal_event st fs"
  by (simp add: legal_def foldM_append)

text \<open>The events so far agree with the object: what it holds is what it has been given.\<close>

definition agree :: "'h CaenState \<Rightarrow> bool" where
  "agree s \<longleftrightarrow> legal (cs_trace s) = Some (cd_dgtz (cs_dev s), readoutBuffer (cs_dev s)) \<and>
     (cd_running (cs_dev s) \<longrightarrow> cd_dgtz (cs_dev s)) \<and> (readoutBuffer (cs_dev s) \<noteq> None \<longrightarrow> cd_dgtz (cs_dev s))"

definition hold :: "bool \<Rightarrow> 'h CaenState \<Rightarrow> bool" where
  "hold b s \<longleftrightarrow> agree s \<and> cd_dgtz (cs_dev s) \<and> (b \<longrightarrow> readoutBuffer (cs_dev s) \<noteq> None)"

fun plain_call :: "driver_call \<Rightarrow> bool" where
  "plain_call NewDriver \<longleftrightarrow> False"
| "plain_call DeleteDriver \<longleftrightarrow> False"
| "plain_call MallocReadoutBuffer \<longleftrightarrow> False"
| "plain_call (FreeReadoutBuffer p) \<longleftrightarrow> False"
| "plain_call (ReadData p) \<longleftrightarrow> False"
| "plain_call c \<longleftrightarrow> True"

abbreviation keeps :: "('h CaenState \<Rightarrow> bool) \<Rightarrow> ('h, 'a) caen \<Rightarrow> bool" where
  "keeps I m \<equiv> triple I m (\<lambda>_. I)"

named_theorems keeps_intros \<open>programs that keep the protocol\<close>

lemma keeps_bind [keeps_intros]: "keeps I m \<Longrightarrow> (\<And>r. keeps I (f r)) \<Longrightarrow> keeps I (m \<bind> f)"
  by (rule triple_bind)

lemma keeps_return [keeps_intros]: "keeps I (State_Monad.return x)"
  by (simp add: triple_def)

lemma keeps_if [keeps_intros]: "keeps I m \<Longrightarrow> keeps I n \<Longrightarrow> keeps I (if b then m else n)"
  by simp

lemma keeps_option [keeps_intros]:
  "keeps I m \<Longrightarrow> (\<And>x. keeps I (f x)) \<Longrightarrow> keeps I (case v of None \<Rightarrow> m | Some x \<Rightarrow> f x)"
  by (cases v) simp_all

lemma keeps_field [keeps_intros]: "keeps I (field f)"
  by (simp add: triple_def caen_exec)

lemma keeps_active [keeps_intros]: "keeps I (caen_active dr)" "keeps I (caen_connected dr)" "keeps I (parse_dump dr path)"
  by (simp_all add: triple_def caen_exec)

lemma keeps_call [keeps_intros]: "plain_call c \<Longrightarrow> keeps (hold b) (caen_call dr c)"
  by (cases c) (auto simp: triple_def caen_call_def hold_def agree_def Let_def legal_snoc split: prod.splits)

lemma keeps_assign [keeps_intros]:
  "(\<And>d. cd_dgtz (f d) = cd_dgtz d \<and> readoutBuffer (f d) = readoutBuffer d) \<Longrightarrow> keeps (hold b) (assign f)"
  by (simp add: triple_def caen_exec hold_def agree_def)

lemma keeps_note [keeps_intros]: "keeps (hold b) (note_event LinkLocked)" "keeps (hold b) (note_event LinkUnlocked)"
  by (simp_all add: triple_def caen_exec hold_def agree_def legal_snoc)

lemma keeps_acquire [keeps_intros]: "keeps (hold b) acquireLinkForTeardown"
  by (simp add: triple_def caen_exec hold_def agree_def legal_snoc)

lemma keeps_release [keeps_intros]: "keeps (hold b) (release_link held)"
  unfolding release_link_def by (intro keeps_intros)

lemma keeps_with_link [keeps_intros]: "keeps (hold b) m \<Longrightarrow> keeps (hold b) (with_link m)"
  unfolding with_link_def by (intro keeps_intros)

lemma hold_False: "hold b s \<Longrightarrow> hold False s"
  by (simp add: hold_def)

lemma hold_agree: "hold b s \<Longrightarrow> agree s"
  by (simp add: hold_def)

section \<open>The programs keep to it\<close>

lemma keeps_read_back [keeps_intros]: "keeps (hold b) (read_back dr a)"
  unfolding read_back_def by (intro keeps_intros) simp_all

lemma keeps_refresh [keeps_intros]: "keeps (hold b) (refreshBoardInfo dr)"
  unfolding refreshBoardInfo_def read_identity_def read_settings_def Let_def
  by (intro keeps_intros) simp_all

lemma new_driver_hold: "triple agree (new_driver dr) (\<lambda>_. hold False)"
  by (rule tripleI)
    (auto simp: new_driver_def caen_exec caen_call_def Let_def agree_def hold_def legal_snoc split: prod.splits if_splits)

lemma activate_rest:
  "keeps (hold False) (do {
     set_errcode 0;
     p \<leftarrow> field cd_params;
     caen_call dr (Activate (connType p) (linkNum p) (node p) (vmeBase p));
     e \<leftarrow> field cd_errcode;
     up \<leftarrow> caen_active dr;
     if e \<noteq> 0 \<or> \<not> up then State_Monad.return False
     else do { refreshBoardInfo dr; State_Monad.return True }
   })"
  by (intro keeps_intros) simp_all

lemma activate_hold: "triple agree (activate dr) (\<lambda>_. hold False)"
  unfolding activate_def by (rule triple_bind [OF new_driver_hold activate_rest])

lemma keeps_write_entry [keeps_intros]: "keeps (hold b) (write_entry dr e)"
  unfolding write_entry_def split_beta by (cases e) (auto split: option.split intro!: keeps_intros)

lemma keeps_write_entries [keeps_intros]: "keeps (hold b) (write_entries dr es)"
  by (induction es) (auto intro!: keeps_intros)

lemma keeps_program [keeps_intros]: "keeps (hold b) (program_board dr path)"
  unfolding program_board_def applyRegisterDump_def by (intro keeps_intros) simp_all

lemma free_buffer_hold:
  assumes f: "\<And>d. cd_dgtz (f d) = cd_dgtz d" "\<And>d. readoutBuffer (f d) = readoutBuffer d"
  shows "triple (hold b) (free_buffer dr f) (\<lambda>_ s. hold False s \<and> readoutBuffer (cs_dev s) = None)"
proof (rule tripleI)
  fix s r s'
  assume h: "hold b s" and run: "run_state (free_buffer dr f) s = (r, s')"
  show "hold False s' \<and> readoutBuffer (cs_dev s') = None"
  proof (cases "readoutBuffer (cs_dev s)")
    case None
    then show ?thesis using h run by (simp add: free_buffer_def caen_exec hold_def)
  next
    case (Some p)
    obtain q k where c: "dr_call dr (FreeReadoutBuffer p) (cs_bus s) = (q, k)" by fastforce
    have "legal (cs_trace s @ [BusCall (FreeReadoutBuffer p) q]) = Some (True, None)"
      using h Some by (simp add: hold_def agree_def legal_snoc)
    then show ?thesis
      using run h Some c f by (auto simp: free_buffer_def caen_exec caen_call_def Let_def hold_def agree_def)
  qed
qed

lemma hold_return: "triple (hold b) (State_Monad.return False) hold"
  by (simp add: triple_def hold_def)

lemma alloc_buffer_hold: "triple (hold b) (alloc_buffer dr) hold"
  unfolding alloc_buffer_def
proof (rule triple_bind [OF free_buffer_hold])
  show "triple (\<lambda>s. hold False s \<and> readoutBuffer (cs_dev s) = None) (do {
     set_errcode 0;
     r \<leftarrow> caen_call dr MallocReadoutBuffer;
     assign (\<lambda>d. d\<lparr> readoutBuffer := rp_buffer r, cd_bufferSize := rp_word r \<rparr>);
     e \<leftarrow> field cd_errcode;
     State_Monad.return (e = 0 \<and> rp_buffer r \<noteq> None)
   }) hold"
    by (rule tripleI)
      (auto simp: caen_exec caen_call_def Let_def agree_def hold_def legal_snoc split: prod.splits)
qed simp_all

lemma applyConfig_hold: "triple (hold b) (applyConfig dr) hold"
  unfolding applyConfig_def
proof (intro triple_bind [OF keeps_field] triple_if triple_bind [OF keeps_program])
  fix r path ok
  assume "\<not> (\<not> r)" "\<not> (\<not> ok)"
  show "triple (hold b) (alloc_buffer dr) hold" by (rule alloc_buffer_hold)
qed (rule hold_return)+

lemma keeps_start [keeps_intros]: "keeps (hold b) (caen_start dr)" "keeps (hold b) (caen_arm dr)"
  unfolding caen_start_def caen_arm_def by (intro keeps_intros; simp)+

lemma keeps_resume [keeps_intros]: "keeps (hold b) (resume dr)"
  unfolding resume_def by (intro keeps_intros; simp)

lemma drop_link_hold: "triple (hold b) (drop_link dr) (\<lambda>_. hold False)"
  unfolding drop_link_def
proof (intro triple_bind [OF keeps_field] triple_if triple_bind [OF free_buffer_hold])
  show "triple (\<lambda>s. hold False s \<and> readoutBuffer (cs_dev s) = None)
      (do { caen_call dr Deactivate; State_Monad.return () }) (\<lambda>_. hold False)"
    by (rule triple_weaken [where P' = "hold False" and Q' = "\<lambda>_. hold False"])
      (intro keeps_intros, simp_all)
qed (auto simp: triple_def hold_def)

lemma reconnect_hold: "triple (hold b) (reconnect dr) hold"
  unfolding reconnect_def
proof (rule triple_bind [OF drop_link_hold], rule triple_bind [OF triple_weaken [OF activate_hold]], rule hold_agree,
    assumption, assumption, rule triple_if)
  fix ok
  show "triple (hold False) (do {
       ok \<leftarrow> applyConfig dr;
       if \<not> ok then State_Monad.return False else do { refreshBoardInfo dr; resume dr }
     }) hold"
  proof (rule triple_bind [OF applyConfig_hold], rule triple_if)
    fix ok
    assume "\<not> \<not> ok"
    then show "triple (hold ok) (do { refreshBoardInfo dr; resume dr }) hold"
      by (auto intro!: triple_weaken [where P' = "hold True" and Q' = "\<lambda>_. hold True"] keeps_intros simp: hold_def)
  qed (auto simp: triple_def)
qed (auto simp: triple_def)

lemma read_buffer_hold: "triple (hold True) (read_buffer dr) (\<lambda>_. hold False)"
  by (rule tripleI)
    (auto simp: read_buffer_def caen_exec caen_call_def Let_def agree_def hold_def legal_snoc split: prod.splits)

text \<open>An operation that needs a driver object does nothing without one.\<close>

lemma guarded_agree:
  assumes "triple (hold False) m (\<lambda>_. hold False)"
  shows "triple agree (do { have \<leftarrow> field cd_dgtz; if \<not> have then State_Monad.return x else m }) (\<lambda>_. agree)"
proof (rule tripleI)
  fix s r s'
  assume a: "agree s" and run: "run_state (do { have \<leftarrow> field cd_dgtz; if \<not> have then State_Monad.return x else m }) s = (r, s')"
  show "agree s'"
  proof (cases "cd_dgtz (cs_dev s)")
    case True
    then have "hold False s" using a by (simp add: hold_def)
    then have "hold False s'" using tripleD [OF assms, of s] run True by (simp add: caen_exec)
    then show ?thesis by (rule hold_agree)
  qed (use a run in \<open>simp add: caen_exec\<close>)
qed

lemma configure_agree: "triple agree (caen_configure dr) (\<lambda>_. agree)"
proof -
  have c: "triple (hold False) (applyConfig dr) (\<lambda>_. hold False)"
    by (rule triple_weaken [OF applyConfig_hold]) (auto intro: hold_False)
  have b: "triple (hold False) (caen_configure dr) (\<lambda>_. hold False)"
    unfolding caen_configure_def
    by (intro keeps_bind [OF c] keeps_if keeps_bind [OF keeps_refresh] keeps_bind [OF keeps_assign] keeps_return) simp
  show ?thesis
  proof (rule tripleI)
    fix s r s'
    assume a: "agree s" and run: "run_state (caen_configure dr) s = (r, s')"
    show "agree s'"
    proof (cases "cd_dgtz (cs_dev s)")
      case True
      then have "hold False s" using a by (simp add: hold_def)
      from tripleD [OF b this] show ?thesis using run by (simp add: hold_def)
    qed (use a run in \<open>simp add: caen_configure_def applyConfig_def caen_exec\<close>)
  qed
qed

lemma with_link_hold:
  assumes "triple (hold a) m (\<lambda>_. hold b)"
  shows "triple (hold a) (with_link m) (\<lambda>_. hold b)"
proof -
  have u: "keeps (hold b) (do { note_event LinkUnlocked; State_Monad.return r })" for r
    by (intro keeps_intros)
  show ?thesis
    unfolding with_link_def by (rule triple_bind [OF keeps_note(1) triple_bind [OF assms u]])
qed

lemma read_agree: "triple agree (caen_read dr) (\<lambda>_. agree)"
proof (rule tripleI)
  let ?body = "do {
       up \<leftarrow> caen_connected dr;
       ok \<leftarrow> (if up then State_Monad.return True else reconnect dr);
       if \<not> ok then State_Monad.return None else read_buffer dr
     }"
  have r: "triple (hold True) (if up then State_Monad.return True else reconnect dr) hold" for up
    by (simp add: triple_return reconnect_hold)
  have e: "triple (hold ok) (if \<not> ok then State_Monad.return None else read_buffer dr) (\<lambda>_. hold False)" for ok
    by (cases ok) (simp_all add: read_buffer_hold keeps_return)
  have "triple (hold True) ?body (\<lambda>_. hold False)"
    by (rule triple_bind [OF keeps_active(2)], rule triple_bind [OF r e])
  then have "triple (hold True) (with_link ?body) (\<lambda>_. hold False)"
    by (rule with_link_hold)
  fix s r s'
  assume a: "agree s" and run: "run_state (caen_read dr) s = (r, s')"
  show "agree s'"
  proof (cases "cd_dgtz (cs_dev s) \<and> readoutBuffer (cs_dev s) \<noteq> None")
    case True
    then have "hold True s" using a by (simp add: hold_def)
    from tripleD [OF \<open>triple (hold True) (with_link ?body) (\<lambda>_. hold False)\<close> this] show ?thesis
      using run True by (simp add: caen_read_def caen_exec hold_def)
  qed (use a run in \<open>auto simp: caen_read_def caen_exec\<close>)
qed

lemma small_agree:
  "triple agree (caen_start dr) (\<lambda>_. agree)" "triple agree (caen_arm dr) (\<lambda>_. agree)"
  "triple agree (caen_sendSWTrigger dr) (\<lambda>_. agree)" "triple agree (caen_writeRegister dr a v) (\<lambda>_. agree)"
  "triple agree (caen_readRegister dr a) (\<lambda>_. agree)" "triple agree (caen_stop dr) (\<lambda>_. agree)"
  unfolding caen_start_def caen_arm_def caen_sendSWTrigger_def caen_writeRegister_def caen_readRegister_def caen_stop_def
  by (rule guarded_agree, intro keeps_intros; simp)+

lemma keeps_stop [keeps_intros]: "keeps (hold b) (caen_stop dr)"
  unfolding caen_stop_def by (intro keeps_intros) simp_all

lemma close_stops:
  assumes "hold False s"
    and "run_state (do {
       running \<leftarrow> field cd_running;
       if running then do { caen_stop dr; State_Monad.return () } else State_Monad.return ()
     }) s = (r, s')"
  shows "hold False s' \<and> \<not> cd_running (cs_dev s')"
proof -
  have "keeps (hold False) (do {
       running \<leftarrow> field cd_running;
       if running then do { caen_stop dr; State_Monad.return () } else State_Monad.return ()
     })" by (intro keeps_intros)
  from tripleD [OF this assms(1)] have "hold False s'" using assms(2) by simp
  moreover have "\<not> cd_running (cs_dev s')"
    using assms
    by (auto simp: caen_stop_def caen_exec caen_call_def release_link_def hold_def Let_def split: if_splits prod.splits)
  ultimately show ?thesis by simp
qed

lemma close_end:
  assumes "hold False s" and "\<not> cd_running (cs_dev s)"
    and "run_state (do {
       held \<leftarrow> acquireLinkForTeardown;
       free_buffer dr (\<lambda>d. d\<lparr> cd_bufferSize := 0 \<rparr>);
       caen_call dr Deactivate;
       caen_call dr DeleteDriver;
       assign (\<lambda>d. d\<lparr> cd_dgtz := False \<rparr>);
       release_link held
     }) s = (r, s')"
  shows "agree s' \<and> \<not> cd_dgtz (cs_dev s')"
proof -
  obtain held s1 where a: "run_state acquireLinkForTeardown s = (held, s1)" by fastforce
  then have 1: "hold False s1" "\<not> cd_running (cs_dev s1)"
    using tripleD [OF keeps_acquire assms(1)] assms(2) by (auto simp: acquire_exec)
  obtain s2 where f: "run_state (free_buffer dr (\<lambda>d. d\<lparr> cd_bufferSize := 0 \<rparr>)) s1 = ((), s2)"
    by (cases "run_state (free_buffer dr (\<lambda>d. d\<lparr> cd_bufferSize := 0 \<rparr>)) s1") simp
  have 2: "hold False s2" "readoutBuffer (cs_dev s2) = None"
    using tripleD [OF free_buffer_hold 1(1), of "\<lambda>d. d\<lparr> cd_bufferSize := 0 \<rparr>" dr] f by simp_all
  have r2: "\<not> cd_running (cs_dev s2)"
    using f 1(2) by (auto simp: free_buffer_def caen_exec caen_call_def Let_def split: option.splits prod.splits if_splits)
  show ?thesis
    using assms(3) a f 2 r2
    by (auto simp: caen_exec caen_call_def Let_def release_link_def hold_def agree_def legal_app
        split: prod.splits if_splits)
qed

lemma close_agree: "triple agree (caen_close dr) (\<lambda>_ s. agree s \<and> \<not> cd_dgtz (cs_dev s))"
proof (rule tripleI)
  let ?stop = "do {
       running \<leftarrow> field cd_running;
       if running then do { caen_stop dr; State_Monad.return () } else State_Monad.return ()
     }"
  fix s r s'
  assume a: "agree s" and run: "run_state (caen_close dr) s = (r, s')"
  show "agree s' \<and> \<not> cd_dgtz (cs_dev s')"
  proof (cases "cd_dgtz (cs_dev s)")
    case True
    then have h: "hold False s" using a by (simp add: hold_def)
    obtain s1 where st: "run_state ?stop s = ((), s1)" by (cases "run_state ?stop s") simp
    have s1: "hold False s1" "\<not> cd_running (cs_dev s1)" using close_stops [OF h st] by simp_all
    then show ?thesis
      using close_end [OF s1, of dr r s'] run st True by (auto simp: caen_close_def caen_exec split: prod.splits)
  qed (use a run in \<open>simp add: caen_close_def caen_exec\<close>)
qed

section \<open>Sequences of operations\<close>

text \<open>
  The operations of the interface, and what other boards do to the bus in between.
\<close>

datatype 'h caen_op =
    OpOpen
  | OpConfigure
  | OpStart
  | OpArm
  | OpTrigger
  | OpRead
  | OpWriteRegister u32 u32
  | OpReadRegister u32
  | OpStop
  | OpClose
  | OpElsewhere "'h \<Rightarrow> 'h"

fun caen_do :: "'h Driver \<Rightarrow> 'h caen_op \<Rightarrow> 'h CaenState \<Rightarrow> 'h CaenState" where
  "caen_do dr OpOpen s = snd (run_state (caen_open dr) s)"
| "caen_do dr OpConfigure s = snd (run_state (caen_configure dr) s)"
| "caen_do dr OpStart s = snd (run_state (caen_start dr) s)"
| "caen_do dr OpArm s = snd (run_state (caen_arm dr) s)"
| "caen_do dr OpTrigger s = snd (run_state (caen_sendSWTrigger dr) s)"
| "caen_do dr OpRead s = snd (run_state (caen_read dr) s)"
| "caen_do dr (OpWriteRegister a v) s = snd (run_state (caen_writeRegister dr a v) s)"
| "caen_do dr (OpReadRegister a) s = snd (run_state (caen_readRegister dr a) s)"
| "caen_do dr OpStop s = snd (run_state (caen_stop dr) s)"
| "caen_do dr OpClose s = snd (run_state (caen_close dr) s)"
| "caen_do dr (OpElsewhere f) s = s\<lparr> cs_bus := f (cs_bus s) \<rparr>"

definition caen_run :: "'h Driver \<Rightarrow> 'h caen_op list \<Rightarrow> 'h CaenState \<Rightarrow> 'h CaenState" where
  "caen_run dr ops s = fold (caen_do dr) ops s"

definition caen_fresh :: "BoardParams \<Rightarrow> LinkRegistry \<Rightarrow> 'h \<Rightarrow> (nat \<Rightarrow> bool) \<Rightarrow> 'h CaenState" where
  "caen_fresh p reg h free =
     \<lparr> cs_dev = fst (CaenDigitizer_new p reg), cs_bus = h, cs_trace = [], cs_free = free, cs_waits = 0 \<rparr>"

lemma caen_do_agree: "agree s \<Longrightarrow> agree (caen_do dr op s)"
proof (cases op)
  case OpOpen
  then show "agree s \<Longrightarrow> ?thesis" using tripleD [OF activate_hold] hold_agree by (simp add: caen_open_def) blast
next
  case (OpElsewhere f)
  then show "agree s \<Longrightarrow> ?thesis" by (simp add: agree_def)
qed (use tripleD [OF configure_agree] tripleD [OF small_agree(1)] tripleD [OF small_agree(2)] tripleD [OF small_agree(3)]
    tripleD [OF small_agree(4)] tripleD [OF small_agree(5)] tripleD [OF small_agree(6)] tripleD [OF read_agree]
    tripleD [OF close_agree, THEN conjunct1] in \<open>simp_all\<close>)

lemma caen_run_agree: "agree s \<Longrightarrow> agree (caen_run dr ops s)"
  unfolding caen_run_def by (induction ops arbitrary: s) (simp_all add: caen_do_agree)

lemma caen_fresh_agree: "agree (caen_fresh p reg h free)"
  by (simp add: agree_def caen_fresh_def legal_def CaenDigitizer_new_def split: prod.split)

text \<open>
  C26. The adapter keeps the typestate of the driver: whatever sequence of operations is called on
  a board, in whatever order, with whatever the driver and the other boards on the bus answer or
  do, no call goes to a driver object that does not exist, no object and no readout buffer is
  created while there is one, only the buffer that was allocated is read into and freed, and a
  buffer is never left behind. The object always knows what it holds. Closing returns both.
\<close>

theorem driver_protocol:
  "let s = caen_run dr ops (caen_fresh p reg h free); s' = caen_do dr OpClose s
   in legal (cs_trace s) = Some (cd_dgtz (cs_dev s), readoutBuffer (cs_dev s)) \<and>
      legal (cs_trace s') = Some (False, None) \<and> \<not> cd_running (cs_dev s')"
proof -
  define s where "s = caen_run dr ops (caen_fresh p reg h free)"
  have a: "agree s" unfolding s_def by (rule caen_run_agree [OF caen_fresh_agree])
  have "agree (caen_do dr OpClose s) \<and> \<not> cd_dgtz (cs_dev (caen_do dr OpClose s))"
    using tripleD [OF close_agree a] by simp
  with a show ?thesis by (auto simp: agree_def Let_def s_def [symmetric])
qed

end
