(* ===== verification/Caen_Link.thy ===== *)
theory Caen_Link
  imports Caen_Protocol
begin

text \<open>
  The link that several boards share: the registry gives boards behind one bridge one mutex, the
  operations that run during acquisition touch the bus only while they hold it, and so no two
  boards of a link are ever inside a bus cycle at once. And what becomes of a board that a
  reconnection did not bring back.
\<close>

section \<open>Programs that only call\<close>

fun is_call :: "bus_event \<Rightarrow> bool" where
  "is_call (BusCall c r) \<longleftrightarrow> True"
| "is_call _ \<longleftrightarrow> False"

definition inside :: "bus_event list \<Rightarrow> 'h CaenState \<Rightarrow> bool" where
  "inside t s \<longleftrightarrow> (\<exists>l. cs_trace s = t @ l \<and> list_all is_call l)"

lemma inside_call [keeps_intros]: "keeps (inside t) (caen_call dr c)"
  by (auto simp: triple_def caen_call_def inside_def Let_def split: prod.splits)

lemma inside_assign [keeps_intros]: "keeps (inside t) (assign f)"
  by (simp add: triple_def caen_exec inside_def)

lemma inside_refresh [keeps_intros]: "keeps (inside t) (refreshBoardInfo dr)"
  unfolding refreshBoardInfo_def read_identity_def read_settings_def read_back_def Let_def
  by (intro keeps_intros)

lemma inside_activate [keeps_intros]: "keeps (inside t) (activate dr)"
  unfolding activate_def new_driver_def by (intro keeps_intros)

lemma inside_entries [keeps_intros]: "keeps (inside t) (write_entries dr es)"
proof (induction es)
  case (Cons e es)
  have "keeps (inside t) (write_entry dr e)"
    unfolding write_entry_def by (cases e) (auto split: option.split intro!: keeps_intros)
  then show ?case using Cons by (auto intro!: keeps_intros)
qed (auto intro!: keeps_intros)

lemma inside_config [keeps_intros]: "keeps (inside t) (applyConfig dr)"
  unfolding applyConfig_def program_board_def applyRegisterDump_def alloc_buffer_def free_buffer_def
  by (intro keeps_intros)

lemma inside_resume [keeps_intros]: "keeps (inside t) (resume dr)"
  unfolding resume_def caen_arm_def by (intro keeps_intros)

lemma inside_reconnect [keeps_intros]: "keeps (inside t) (reconnect dr)"
  unfolding reconnect_def drop_link_def free_buffer_def by (intro keeps_intros)

lemma inside_read_buffer [keeps_intros]: "keeps (inside t) (read_buffer dr)"
  unfolding read_buffer_def by (intro keeps_intros)

section \<open>The cycles of an operation\<close>

text \<open>A sequence of bus cycles: calls happen between taking and releasing the link only.\<close>

fun bracketed :: "bool \<Rightarrow> bus_event list \<Rightarrow> bool" where
  "bracketed b [] \<longleftrightarrow> \<not> b"
| "bracketed b (LinkLocked # es) \<longleftrightarrow> \<not> b \<and> bracketed True es"
| "bracketed b (LinkUnlocked # es) \<longleftrightarrow> b \<and> bracketed False es"
| "bracketed b (LinkTimeout # es) \<longleftrightarrow> False"
| "bracketed b (BusCall c r # es) \<longleftrightarrow> b \<and> bracketed b es"

lemma bracketed_app: "bracketed b es \<Longrightarrow> bracketed False fs \<Longrightarrow> bracketed b (es @ fs)"
  by (induction b es rule: bracketed.induct) auto

lemma bracketed_calls: "list_all is_call l \<Longrightarrow> bracketed True (l @ [LinkUnlocked])"
proof (induction l)
  case (Cons e l)
  then show ?case by (cases e) auto
qed simp

lemma with_link_cycle:
  assumes "\<And>t. keeps (inside t) m" and "run_state (with_link m) s = (r, s')"
  shows "\<exists>l. cs_trace s' = cs_trace s @ l \<and> bracketed False l"
proof -
  let ?s = "s\<lparr> cs_trace := cs_trace s @ [LinkLocked] \<rparr>"
  obtain r1 s1 where m: "run_state m ?s = (r1, s1)" by (metis surj_pair)
  have "inside (cs_trace ?s) ?s" by (simp add: inside_def)
  from tripleD [OF assms(1) this] m obtain l where l: "cs_trace s1 = cs_trace ?s @ l" "list_all is_call l"
    by (auto simp: inside_def)
  then show ?thesis
    using assms(2) m bracketed_calls [OF l(2)]
    by (intro exI [of _ "LinkLocked # l @ [LinkUnlocked]"]) (auto simp: with_link_def caen_exec)
qed

lemma guarded_cycle:
  assumes "\<And>t. keeps (inside t) m"
    and "run_state (do { have \<leftarrow> field cd_dgtz; if \<not> have then State_Monad.return x else with_link m }) s = (r, s')"
  shows "\<exists>l. cs_trace s' = cs_trace s @ l \<and> bracketed False l"
  using assms(2) with_link_cycle [OF assms(1), of s]
  by (cases "cd_dgtz (cs_dev s)") (auto simp: caen_exec intro!: exI [of _ "[]"])

lemma read_cycle:
  assumes "run_state (caen_read dr) s = (r, s')"
  shows "\<exists>l. cs_trace s' = cs_trace s @ l \<and> bracketed False l"
proof (cases "cd_dgtz (cs_dev s) \<and> readoutBuffer (cs_dev s) \<noteq> None")
  case True
  have "keeps (inside t) (do {
       up \<leftarrow> caen_connected dr;
       ok \<leftarrow> (if up then State_Monad.return True else reconnect dr);
       if \<not> ok then State_Monad.return None else read_buffer dr
     })" for t by (intro keeps_intros)
  from with_link_cycle [OF this] show ?thesis using assms True by (simp add: caen_read_def caen_exec)
next
  case False
  then show ?thesis using assms by (intro exI [of _ "[]"]) (auto simp: caen_read_def caen_exec)
qed

lemma register_cycle:
  "run_state (caen_writeRegister dr a v) s = (b, s') \<Longrightarrow> \<exists>l. cs_trace s' = cs_trace s @ l \<and> bracketed False l"
  "run_state (caen_readRegister dr a) s = (x, s') \<Longrightarrow> \<exists>l. cs_trace s' = cs_trace s @ l \<and> bracketed False l"
  unfolding caen_writeRegister_def caen_readRegister_def by (erule guarded_cycle [rotated], intro keeps_intros)+

lemma stop_cycle:
  assumes "run_state (caen_stop dr) s = (r, s')" and "LinkTimeout \<notin> set (cs_trace s')"
  shows "\<exists>l. cs_trace s' = cs_trace s @ l \<and> bracketed False l"
  using assms
  by (auto simp: caen_stop_def caen_exec caen_call_def release_link_def Let_def split: prod.splits if_splits)

section \<open>Boards that share a link\<close>

text \<open>The boards of a system, made one after the other.\<close>

fun make_boards :: "BoardParams list \<Rightarrow> LinkRegistry \<Rightarrow> CaenDigitizer list" where
  "make_boards [] reg = []"
| "make_boards (p # ps) reg = (let (d, reg) = CaenDigitizer_new p reg in d # make_boards ps reg)"

definition link_key :: "BoardParams \<Rightarrow> int \<times> int" where
  "link_key p = (connType p, linkNum p)"

lemma find_slot_Some: "find_slot k reg = Some m \<Longrightarrow> m < length reg \<and> reg ! m = k"
  by (induction reg arbitrary: m) (auto split: if_splits)

lemma find_slot_None: "find_slot k reg = None \<Longrightarrow> k \<notin> set reg"
  by (induction reg) (auto split: if_splits)

lemma linkMutex_slot:
  assumes "linkMutex c l reg = (m, reg')" and "distinct reg"
  shows "m < length reg' \<and> reg' ! m = (c, l) \<and> distinct reg' \<and> (\<exists>new. reg' = reg @ new)"
  using assms find_slot_Some [of "(c, l)" reg] find_slot_None [of "(c, l)" reg]
  by (auto simp: linkMutex_def split: option.splits)

lemma make_boards_slots:
  assumes "distinct reg"
  shows "length (make_boards ps reg) = length ps \<and>
    (\<exists>new. distinct (reg @ new) \<and>
       (\<forall>i < length ps. ioMutex (make_boards ps reg ! i) < length (reg @ new) \<and>
          (reg @ new) ! ioMutex (make_boards ps reg ! i) = link_key (ps ! i)))"
  using assms
proof (induction ps arbitrary: reg)
  case Nil
  then show ?case by (intro conjI exI [of _ "[]"]) simp_all
next
  case (Cons p ps)
  obtain m reg1 where l: "linkMutex (connType p) (linkNum p) reg = (m, reg1)" by fastforce
  note s = linkMutex_slot [OF l Cons.prems]
  then obtain n1 where n1: "reg1 = reg @ n1" by blast
  obtain n2 where n2: "distinct (reg1 @ n2)" "length (make_boards ps reg1) = length ps"
    "\<forall>i < length ps. ioMutex (make_boards ps reg1 ! i) < length (reg1 @ n2) \<and>
       (reg1 @ n2) ! ioMutex (make_boards ps reg1 ! i) = link_key (ps ! i)"
    using Cons.IH [of reg1] s by blast
  have b: "\<exists>d. ioMutex d = m \<and> make_boards (p # ps) reg = d # make_boards ps reg1"
    using l by (simp add: CaenDigitizer_new_def)
  then obtain d where d: "ioMutex d = m" "make_boards (p # ps) reg = d # make_boards ps reg1" by blast
  have "m < length (reg1 @ n2) \<and> (reg1 @ n2) ! m = link_key p"
    using s by (simp add: nth_append link_key_def)
  then show ?case
    using n1 n2 d by (intro conjI exI [of _ "n1 @ n2"]) (auto simp: less_Suc_eq_0_disj simp del: append_assoc
        simp add: append_assoc [symmetric])
qed

lemma same_mutex:
  assumes "i < length ps" and "j < length ps"
  shows "ioMutex (make_boards ps [] ! i) = ioMutex (make_boards ps [] ! j) \<longleftrightarrow> link_key (ps ! i) = link_key (ps ! j)"
proof -
  obtain reg where r: "distinct reg"
    "\<forall>i < length ps. ioMutex (make_boards ps [] ! i) < length reg \<and>
       reg ! ioMutex (make_boards ps [] ! i) = link_key (ps ! i)"
    using make_boards_slots [of "[]" ps] by auto
  then show ?thesis using assms nth_eq_iff_index_eq [OF r(1)] by metis
qed

section \<open>Interleaving\<close>

text \<open>
  What a thread does to a board while a run goes on: reads, online register accesses, and stops
  that obtain the link in time. What the other threads do in between is in the driver's answers,
  which may be anything.
\<close>

inductive bus_user :: "'h Driver \<Rightarrow> bus_event list \<Rightarrow> bool" for dr where
  idle: "bus_user dr []"
| read: "run_state (caen_read dr) s = (r, s') \<Longrightarrow> cs_trace s' = cs_trace s @ l \<Longrightarrow> bus_user dr es \<Longrightarrow> bus_user dr (l @ es)"
| write_register: "run_state (caen_writeRegister dr a v) s = (b, s') \<Longrightarrow> cs_trace s' = cs_trace s @ l \<Longrightarrow>
    bus_user dr es \<Longrightarrow> bus_user dr (l @ es)"
| read_register: "run_state (caen_readRegister dr a) s = (x, s') \<Longrightarrow> cs_trace s' = cs_trace s @ l \<Longrightarrow>
    bus_user dr es \<Longrightarrow> bus_user dr (l @ es)"
| stop: "run_state (caen_stop dr) s = (b, s') \<Longrightarrow> cs_trace s' = cs_trace s @ l \<Longrightarrow> LinkTimeout \<notin> set (cs_trace s') \<Longrightarrow>
    bus_user dr es \<Longrightarrow> bus_user dr (l @ es)"

lemma bus_user_bracketed: "bus_user dr es \<Longrightarrow> bracketed False es"
proof (induction rule: bus_user.induct)
  case (read s r s' l es)
  then show ?case using read_cycle [OF read(1)] bracketed_app by fastforce
next
  case (write_register a v s b s' l es)
  then show ?case using register_cycle(1) [OF write_register(1)] bracketed_app by fastforce
next
  case (read_register a s x s' l es)
  then show ?case using register_cycle(2) [OF read_register(1)] bracketed_app by fastforce
next
  case (stop s b s' l es)
  then show ?case using stop_cycle [OF stop(1,3)] bracketed_app by fastforce
qed simp

text \<open>
  The interleaving: \<open>lk_holder\<close> the board that holds each mutex, \<open>lk_todo\<close> what each board's
  threads have still to do, \<open>lk_log\<close> what has happened. A mutex is taken only when it is free.
\<close>

record LinkState =
  lk_holder :: "nat \<Rightarrow> nat option"
  lk_todo :: "nat \<Rightarrow> bus_event list"
  lk_log :: "(nat \<times> bus_event) list"

inductive link_step :: "(nat \<Rightarrow> nat) \<Rightarrow> LinkState \<Rightarrow> LinkState \<Rightarrow> bool" for mtx where
  take: "lk_todo s i = LinkLocked # es \<Longrightarrow> lk_holder s (mtx i) = None \<Longrightarrow>
    link_step mtx s \<lparr> lk_holder = (lk_holder s)(mtx i \<mapsto> i), lk_todo = (lk_todo s)(i := es),
                      lk_log = lk_log s @ [(i, LinkLocked)] \<rparr>"
| give: "lk_todo s i = LinkUnlocked # es \<Longrightarrow>
    link_step mtx s \<lparr> lk_holder = (lk_holder s)(mtx i := None), lk_todo = (lk_todo s)(i := es),
                      lk_log = lk_log s @ [(i, LinkUnlocked)] \<rparr>"
| act: "lk_todo s i = e # es \<Longrightarrow> e \<noteq> LinkLocked \<Longrightarrow> e \<noteq> LinkUnlocked \<Longrightarrow>
    link_step mtx s \<lparr> lk_holder = lk_holder s, lk_todo = (lk_todo s)(i := es), lk_log = lk_log s @ [(i, e)] \<rparr>"

inductive link_run :: "(nat \<Rightarrow> nat) \<Rightarrow> (nat \<Rightarrow> bus_event list) \<Rightarrow> LinkState \<Rightarrow> bool" for mtx todo where
  start: "link_run mtx todo \<lparr> lk_holder = (\<lambda>_. None), lk_todo = todo, lk_log = [] \<rparr>"
| step: "link_run mtx todo s \<Longrightarrow> link_step mtx s s' \<Longrightarrow> link_run mtx todo s'"

text \<open>
  A serial record: cycle after cycle, each of one board. The state is the board whose cycle it
  is; \<open>None\<close> for a record that is not serial.
\<close>

fun serial_event :: "nat option \<Rightarrow> nat \<times> bus_event \<Rightarrow> nat option option" where
  "serial_event None (i, e) = (if e = LinkLocked then Some (Some i) else None)"
| "serial_event (Some j) (i, e) =
     (if i \<noteq> j \<or> e = LinkLocked then None else if e = LinkUnlocked then Some None else Some (Some j))"

abbreviation serial :: "(nat \<times> bus_event) list \<Rightarrow> nat option option" where
  "serial l \<equiv> foldM serial_event None l"

definition link_inv :: "(nat \<Rightarrow> nat) \<Rightarrow> LinkState \<Rightarrow> bool" where
  "link_inv mtx s \<longleftrightarrow>
     (\<forall>i. bracketed (lk_holder s (mtx i) = Some i) (lk_todo s i)) \<and>
     (\<forall>m. serial (filter (\<lambda>e. mtx (fst e) = m) (lk_log s)) = Some (lk_holder s m)) \<and>
     (\<forall>m i. lk_holder s m = Some i \<longrightarrow> mtx i = m)"

lemma link_invI:
  assumes "\<And>i. bracketed (h (mtx i) = Some i) (todo i)"
    and "\<And>m. serial (filter (\<lambda>e. mtx (fst e) = m) l) = Some (h m)"
    and "\<And>m i. h m = Some i \<Longrightarrow> mtx i = m"
  shows "link_inv mtx \<lparr> lk_holder = h, lk_todo = todo, lk_log = l \<rparr>"
  using assms by (auto simp: link_inv_def)

lemma link_step_inv:
  assumes "link_step mtx s s'" and "link_inv mtx s"
  shows "link_inv mtx s'"
proof -
  have b: "bracketed (lk_holder s (mtx j) = Some j) (lk_todo s j)" for j
    using assms(2) by (simp add: link_inv_def)
  have l: "serial (filter (\<lambda>e. mtx (fst e) = m) (lk_log s)) = Some (lk_holder s m)" for m
    using assms(2) by (simp add: link_inv_def)
  have m: "lk_holder s k = Some j \<longrightarrow> mtx j = k" for j k
    using assms(2) by (simp add: link_inv_def)
  show ?thesis
    using assms(1)
  proof cases
    case (take i es)
    have o: "bracketed False (lk_todo s j)" if "mtx j = mtx i" for j using b [of j] take(3) that by simp
    have "bracketed True es" using b [of i] take(2) by simp
    then show ?thesis unfolding take(1)
      by (intro link_invI) (use b l take(3) o m in \<open>auto simp: foldM_append split: if_splits\<close>)
  next
    case (give i es)
    have h: "lk_holder s (mtx i) = Some i" "bracketed False es" using b [of i] give(2) by simp_all
    have o: "bracketed False (lk_todo s j)" if "mtx j = mtx i" "j \<noteq> i" for j using b [of j] h that by simp
    show ?thesis unfolding give(1)
    proof (rule link_invI)
      show "bracketed (((lk_holder s)(mtx i := None)) (mtx j) = Some j) (((lk_todo s)(i := es)) j)" for j
        using h o [of j] b [of j] by (cases "j = i") auto
      show "serial (filter (\<lambda>e. mtx (fst e) = k) (lk_log s @ [(i, LinkUnlocked)])) = Some (((lk_holder s)(mtx i := None)) k)" for k
        using l [of k] h(1) by (auto simp: foldM_append)
      show "((lk_holder s)(mtx i := None)) k = Some j \<Longrightarrow> mtx j = k" for k j
        using m [of k j] by (simp split: if_splits)
    qed
  next
    case (act i e es)
    then obtain c r where e: "e = BusCall c r" and h: "lk_holder s (mtx i) = Some i" "bracketed True es"
      using b [of i] by (cases e) auto
    show ?thesis unfolding act(1) e
    proof (rule link_invI)
      show "bracketed (lk_holder s (mtx j) = Some j) (((lk_todo s)(i := es)) j)" for j
        using h b [of j] by (cases "j = i") auto
      show "serial (filter (\<lambda>e. mtx (fst e) = k) (lk_log s @ [(i, BusCall c r)])) = Some (lk_holder s k)" for k
        using l [of k] h(1) by (auto simp: foldM_append)
    qed (use m in blast)
  qed
qed

lemma link_run_inv:
  assumes "link_run mtx todo s" and "\<And>i. bracketed False (todo i)"
  shows "link_inv mtx s"
  using assms(1)
proof induction
  case start
  then show ?case using assms(2) by (simp add: link_inv_def)
next
  case (step s s')
  then show ?case using link_step_inv by blast
qed

text \<open>Only boards that exist act.\<close>

lemma link_run_boards:
  assumes "link_run mtx todo s" and "\<And>i. n \<le> i \<Longrightarrow> todo i = []"
  shows "list_all (\<lambda>e. fst e < n) (lk_log s)"
proof -
  have "list_all (\<lambda>e. fst e < n) (lk_log s) \<and> (\<forall>i \<ge> n. lk_todo s i = [])"
    using assms(1)
  proof induction
    case (step s s')
    from step.hyps(2) show ?case
    proof cases
      case (take i es)
      then have "i < n" using step.IH by (metis list.distinct(1) not_le)
      then show ?thesis using take step.IH by simp
    next
      case (give i es)
      then have "i < n" using step.IH by (metis list.distinct(1) not_le)
      then show ?thesis using give step.IH by simp
    next
      case (act i e es)
      then have "i < n" using step.IH by (metis list.distinct(1) not_le)
      then show ?thesis using act step.IH by simp
    qed
  qed (use assms(2) in simp)
  then show ?thesis by simp
qed

lemma serial_key:
  assumes "list_all (\<lambda>e. fst e < length ps) l" and "\<forall>m. serial (filter (\<lambda>e. mtx (fst e) = m) l) = Some (h m)"
    and "\<And>i j. i < length ps \<Longrightarrow> j < length ps \<Longrightarrow> mtx i = mtx j \<longleftrightarrow> link_key (ps ! i) = link_key (ps ! j)"
  shows "\<exists>x. serial (filter (\<lambda>e. link_key (ps ! fst e) = k) l) = Some x"
proof (cases "\<exists>e \<in> set l. link_key (ps ! fst e) = k")
  case True
  then obtain e where e: "e \<in> set l" "link_key (ps ! fst e) = k" by blast
  then have "filter (\<lambda>x. link_key (ps ! fst x) = k) l = filter (\<lambda>x. mtx (fst x) = mtx (fst e)) l"
    using assms(1,3) by (intro filter_cong) (auto simp: list_all_iff)
  then show ?thesis using assms(2) by simp
next
  case False
  then have "filter (\<lambda>x. link_key (ps ! fst x) = k) l = []" by (auto simp: filter_empty_conv)
  then show ?thesis by simp
qed


section \<open>Reconnection\<close>

lemma drop_link_buffer: "cd_dgtz (cs_dev s) \<Longrightarrow>
  readoutBuffer (cs_dev (snd (run_state (drop_link dr) s))) = None \<and>
  cd_dgtz (cs_dev (snd (run_state (drop_link dr) s))) \<and>
  cd_params (cs_dev (snd (run_state (drop_link dr) s))) = cd_params (cs_dev s)"
  by (auto simp: drop_link_def free_buffer_def caen_exec caen_call_def Let_def split: option.splits prod.splits)

lemma activate_unreachable:
  assumes "cd_dgtz (cs_dev s)"
    and "\<And>h. \<not> dr_active dr (snd (dr_call dr (let p = cd_params (cs_dev s) in
        Activate (connType p) (linkNum p) (node p) (vmeBase p)) h))"
  shows "\<not> fst (run_state (activate dr) s) \<and>
    readoutBuffer (cs_dev (snd (run_state (activate dr) s))) = readoutBuffer (cs_dev s)"
  using assms
  by (auto simp: activate_def new_driver_def caen_exec caen_call_def Let_def split: prod.splits)
    (metis snd_conv)+

lemma reconnect_unreachable:
  assumes "cd_dgtz (cs_dev s)"
    and "\<And>h. \<not> dr_active dr (snd (dr_call dr (let p = cd_params (cs_dev s) in
        Activate (connType p) (linkNum p) (node p) (vmeBase p)) h))"
  shows "\<exists>s'. run_state (reconnect dr) s = (False, s') \<and> readoutBuffer (cs_dev s') = None"
proof -
  obtain s1 where d: "run_state (drop_link dr) s = ((), s1)" by (cases "run_state (drop_link dr) s") simp
  have 1: "readoutBuffer (cs_dev s1) = None" "cd_dgtz (cs_dev s1)" "cd_params (cs_dev s1) = cd_params (cs_dev s)"
    using drop_link_buffer [OF assms(1), of dr] d by simp_all
  obtain ok s2 where a: "run_state (activate dr) s1 = (ok, s2)" by (metis surj_pair)
  have "\<not> ok" "readoutBuffer (cs_dev s2) = None"
    using activate_unreachable [OF 1(2), of dr] assms(2) a 1 by simp_all
  then show ?thesis using d a by (simp add: reconnect_def)
qed

lemma read_without_buffer: "readoutBuffer (cs_dev s) = None \<Longrightarrow> run_state (caen_read dr) s = (None, s)"
  by (simp add: caen_read_def caen_exec)

lemma silent_forever:
  assumes "readoutBuffer (cs_dev s') = None \<or> \<not> cd_dgtz (cs_dev s')"
  shows "\<forall>dr' n h. fold (\<lambda>_. caen_do dr' OpRead) [0..<n] (s'\<lparr> cs_bus := h \<rparr>) = s'\<lparr> cs_bus := h \<rparr> \<and>
    run_state (caen_read dr') (s'\<lparr> cs_bus := h \<rparr>) = (None, s'\<lparr> cs_bus := h \<rparr>)"
proof (intro allI)
  fix dr' n h
  have r: "run_state (caen_read dr') (s'\<lparr> cs_bus := h \<rparr>) = (None, s'\<lparr> cs_bus := h \<rparr>)"
    using assms by (auto simp: caen_read_def caen_exec)
  moreover have "fold (\<lambda>_. caen_do dr' OpRead) [0..<n] (s'\<lparr> cs_bus := h \<rparr>) = s'\<lparr> cs_bus := h \<rparr>"
    by (induction n) (simp_all add: r)
  ultimately show "fold (\<lambda>_. caen_do dr' OpRead) [0..<n] (s'\<lparr> cs_bus := h \<rparr>) = s'\<lparr> cs_bus := h \<rparr> \<and>
    run_state (caen_read dr') (s'\<lparr> cs_bus := h \<rparr>) = (None, s'\<lparr> cs_bus := h \<rparr>)" by simp
qed

text \<open>
  C28. A reconnection that fails once is not tried again. When a read finds the board gone and
  opening it again does not succeed, the read fails, as it should; but the readout buffer was
  freed on the way, and from then on every read returns at once without a single call to the
  driver, whatever becomes of the board and its link: the board stays silent for the rest of the
  run, although the reader goes on asking after each pause.
\<close>

theorem failed_reconnect_is_final:
  assumes "\<not> dr_active dr (cs_bus s)"
    and "\<And>h. \<not> dr_active dr (snd (dr_call dr (let p = cd_params (cs_dev s) in
        Activate (connType p) (linkNum p) (node p) (vmeBase p)) h))"
  shows "\<exists>s'. run_state (caen_read dr) s = (None, s') \<and>
    (\<forall>dr' n h. fold (\<lambda>_. caen_do dr' OpRead) [0..<n] (s'\<lparr> cs_bus := h \<rparr>) = s'\<lparr> cs_bus := h \<rparr> \<and>
       run_state (caen_read dr') (s'\<lparr> cs_bus := h \<rparr>) = (None, s'\<lparr> cs_bus := h \<rparr>))"
proof (cases "cd_dgtz (cs_dev s) \<and> readoutBuffer (cs_dev s) \<noteq> None")
  case True
  let ?s = "s\<lparr> cs_trace := cs_trace s @ [LinkLocked] \<rparr>"
  obtain s' where r: "run_state (reconnect dr) ?s = (False, s')" "readoutBuffer (cs_dev s') = None"
    using reconnect_unreachable [of ?s dr] assms(2) True by auto
  let ?t = "s'\<lparr> cs_trace := cs_trace s' @ [LinkUnlocked] \<rparr>"
  have "run_state (caen_read dr) s = (None, ?t)"
    using True assms(1) r by (auto simp: caen_read_def with_link_def caen_exec)
  moreover have "readoutBuffer (cs_dev ?t) = None" using r(2) by simp
  ultimately show ?thesis using silent_forever [of ?t] by (intro exI [of _ ?t] conjI) simp_all
next
  case False
  then have "run_state (caen_read dr) s = (None, s)" by (auto simp: caen_read_def caen_exec)
  then show ?thesis using silent_forever [of s] False by (intro exI [of _ s] conjI) auto
qed

section \<open>Two boards behind one bridge\<close>

text \<open>A bus that answers every call without an error until the link is cut.\<close>

definition bus_reply :: Reply where
  "bus_reply = \<lparr> rp_error = 0, rp_word = 0, rp_firmware = DPPFirmware_PHA,
     rp_info = \<lparr> li_ModelName = ''V1724'', li_FamilyCode = 0, li_ADC_NBits = 14, li_SerialNumber = 1,
       li_ROC_FirmwareRel = '''', li_AMC_FirmwareRel = '''', li_FormFactor = 0, li_PCB_Revision = 0, li_License = '''' \<rparr>,
     rp_buffer = Some 1, rp_data = [1, 2, 3, 4] \<rparr>"

definition demo_driver :: "bool Driver" where
  "demo_driver = \<lparr> dr_call = (\<lambda>c up. (bus_reply, up)), dr_active = id, dr_dump = (\<lambda>_ _. None) \<rparr>"

definition demo_params :: BoardParams where
  "demo_params = \<lparr> bp_name = ''b'', connType = 0, linkNum = 0, node = 0, vmeBase = 0x32100000, configPath = '''' \<rparr>"

definition demo_open :: "bool CaenState" where
  "demo_open = caen_run demo_driver [OpOpen, OpConfigure, OpStart, OpElsewhere (\<lambda>_. False)]
     (caen_fresh demo_params [] True (\<lambda>_. True))"

text \<open>The same bus once the board has lost its power.\<close>

definition dead_driver :: "bool Driver" where
  "dead_driver = demo_driver\<lparr> dr_call := (\<lambda>c up. (bus_reply, False)) \<rparr>"

lemmas demo_bus = caen_run_def caen_fresh_def caen_open_def activate_def new_driver_def refreshBoardInfo_def
  read_identity_def read_settings_def read_back_def caen_configure_def applyConfig_def program_board_def
  alloc_buffer_def free_buffer_def caen_start_def caen_exec caen_call_def demo_driver_def demo_params_def
  bus_reply_def CaenDigitizer_new_def linkMutex_def

theorem failed_reconnect_is_final_witness:
  "\<exists>s'. run_state (caen_read dead_driver) demo_open = (None, s') \<and> readoutBuffer (cs_dev demo_open) = Some 1 \<and>
     run_state (caen_read demo_driver) (s'\<lparr> cs_bus := True \<rparr>) = (None, s'\<lparr> cs_bus := True \<rparr>)"
proof -
  have "\<not> cs_bus demo_open" "readoutBuffer (cs_dev demo_open) = Some 1"
    by (simp_all add: demo_open_def demo_bus Let_def)
  moreover have "\<not> dr_active dead_driver h" if "\<not> h" for h using that by (simp add: dead_driver_def demo_driver_def)
  moreover have "snd (dr_call dead_driver c h) = False" for c h by (simp add: dead_driver_def)
  ultimately show ?thesis using failed_reconnect_is_final [of dead_driver demo_open] by fastforce
qed

definition demo_cycle :: "bus_event list" where
  "demo_cycle = [LinkLocked, BusCall (ReadData 1) bus_reply, LinkUnlocked]"


lemma demo_cycle_user: "bus_user demo_driver (demo_cycle @ [])"
proof (rule bus_user.read)
  let ?d = "(fst (CaenDigitizer_new demo_params []))\<lparr> cd_dgtz := True, readoutBuffer := Some 1 \<rparr>"
  let ?s = "\<lparr> cs_dev = ?d, cs_bus = True, cs_trace = [], cs_free = (\<lambda>_. True), cs_waits = 0 \<rparr>"
  show "run_state (caen_read demo_driver) ?s = (fst (run_state (caen_read demo_driver) ?s), snd (run_state (caen_read demo_driver) ?s))"
    by simp
  show "cs_trace (snd (run_state (caen_read demo_driver) ?s)) = cs_trace ?s @ demo_cycle"
    by (simp add: caen_read_def with_link_def read_buffer_def caen_exec caen_call_def Let_def demo_driver_def
        demo_cycle_def bus_reply_def)
qed (rule bus_user.idle)

definition demo_todo :: "nat \<Rightarrow> bus_event list" where
  "demo_todo i = (if i < 2 then demo_cycle else [])"


end
