(* ===== verification/Command_Line.thy ===== *)
theory Command_Line
  imports Daq_Control C_Numbers
begin

text \<open>
  \<open>caendaq_cli\<close>: the command line of the standalone program, and its \<open>main\<close> over the model of
  \<open>Daq\<close>. Usage, error and progress messages are not modelled.
\<close>

section \<open>Options\<close>

definition BoardSpec_init :: BoardSpec where
  "BoardSpec_init =
     \<lparr> bsp_params = \<lparr> bp_name = ''board'', connType = 0, linkNum = 0, node = 0, vmeBase = 0, configPath = '''' \<rparr>,
       bsp_mock = False, bsp_decode = False, bsp_write = True, mockRate = 200, mockWaveforms = False,
       mockFailEvery = 0, mockDpp = PSD, mockStartMode = 0 \<rparr>"

record CliOptions =
  co_dir :: string
  co_run :: u32
  co_maxSize :: nat
  co_writeHead :: bool
  co_decode :: bool
  co_runSeconds :: u32
  co_mockRate :: u32
  co_useCaen :: bool
  co_spec :: BoardSpec

abbreviation set_params :: "(BoardParams \<Rightarrow> BoardParams) \<Rightarrow> CliOptions \<Rightarrow> CliOptions" where
  "set_params f o' \<equiv> o'\<lparr> co_spec := (co_spec o')\<lparr> bsp_params := f (bsp_params (co_spec o')) \<rparr> \<rparr>"

definition CliOptions_init :: CliOptions where
  "CliOptions_init =
     \<lparr> co_dir = ''./data'', co_run = 0, co_maxSize = 0, co_writeHead = True, co_decode = False, co_runSeconds = 0,
       co_mockRate = 200, co_useCaen = False,
       co_spec = BoardSpec_init\<lparr> bsp_params := (bsp_params BoardSpec_init)\<lparr> bp_name := ''V1730'' \<rparr>, bsp_mock := True \<rparr> \<rparr>"

definition parseU64 :: "string \<Rightarrow> nat" where
  "parseU64 s = strtoull 0 s"

text \<open>\<open>static_cast\<close> to a 32-bit unsigned and signed integer.\<close>

definition to_u32 :: "nat \<Rightarrow> u32" where
  "to_u32 n = of_nat n"

definition to_i32 :: "nat \<Rightarrow> int" where
  "to_i32 n = sint (of_nat n :: u32)"

section \<open>Parsing\<close>

text \<open>
  One option and the values it takes: the options and the arguments that are left, or \<open>None\<close> when
  the argument is none of these options or too few values follow.
\<close>

definition cli_option :: "CliOptions \<Rightarrow> string \<Rightarrow> string list \<Rightarrow> (CliOptions \<times> string list) option" where
  "cli_option c a others =
     (let need = (\<lambda>n. n \<le> length others) in
      if a = ''--run'' \<and> need 1 then Some (c\<lparr> co_run := to_u32 (parseU64 (others ! 0)) \<rparr>, drop 1 others)
      else if a = ''--dir'' \<and> need 1 then Some (c\<lparr> co_dir := others ! 0 \<rparr>, drop 1 others)
      else if a = ''--board'' \<and> need 1 then Some (set_params (\<lambda>p. p\<lparr> bp_name := others ! 0 \<rparr>) c, drop 1 others)
      else if a = ''--dpp'' \<and> need 1
      then Some (c\<lparr> co_spec := (co_spec c)\<lparr> mockDpp :=
                   (if others ! 0 = ''pha'' \<or> others ! 0 = ''PHA'' \<or> others ! 0 = ''DPP-PHA'' then PHA else PSD) \<rparr> \<rparr>, drop 1 others)
      else if a = ''--config'' \<and> need 1 then Some (set_params (\<lambda>p. p\<lparr> configPath := others ! 0 \<rparr>) c, drop 1 others)
      else if a = ''--maxsize'' \<and> need 1 then Some (c\<lparr> co_maxSize := parseU64 (others ! 0) \<rparr>, drop 1 others)
      else if a = ''--seconds'' \<and> need 1 then Some (c\<lparr> co_runSeconds := to_u32 (parseU64 (others ! 0)) \<rparr>, drop 1 others)
      else if a = ''--rate'' \<and> need 1 then Some (c\<lparr> co_mockRate := to_u32 (parseU64 (others ! 0)) \<rparr>, drop 1 others)
      else if a = ''--no-header'' then Some (c\<lparr> co_writeHead := False \<rparr>, others)
      else if a = ''--decode'' then Some (c\<lparr> co_decode := True \<rparr>, others)
      else if a = ''--caen'' \<and> need 4
      then Some (set_params (\<lambda>p. p\<lparr> connType := to_i32 (parseU64 (others ! 0)), linkNum := to_i32 (parseU64 (others ! 1)),
                                     node := to_i32 (parseU64 (others ! 2)), vmeBase := to_u32 (parseU64 (others ! 3)) \<rparr>)
                   (c\<lparr> co_useCaen := True, co_spec := (co_spec c)\<lparr> bsp_mock := False \<rparr> \<rparr>), drop 4 others)
      else None)"

datatype cli_request = CliRun CliOptions | CliHelp | CliBad string

lemma cli_option_shrinks: "cli_option c a others = Some (c', others') \<Longrightarrow> length others' \<le> length others"
  by (auto simp: cli_option_def Let_def split: if_splits)

text \<open>After the loop \<open>main\<close> copies two of the options into the board's specification.\<close>

function parse_args :: "CliOptions \<Rightarrow> string list \<Rightarrow> cli_request" where
  "parse_args c [] = CliRun (c\<lparr> co_spec := (co_spec c)\<lparr> bsp_decode := co_decode c, mockRate := co_mockRate c \<rparr> \<rparr>)"
| "parse_args c (a # others) =
     (case cli_option c a others of
        Some (c', others') \<Rightarrow> parse_args c' others'
      | None \<Rightarrow> if a = ''-h'' \<or> a = ''--help'' then CliHelp else CliBad a)"
  by pat_completeness auto
termination
  by (relation "measure (\<lambda>(c, as). length as)") (auto dest: cli_option_shrinks simp: le_imp_less_Suc)

section \<open>The program\<close>

definition cli_daq_options :: "CliOptions \<Rightarrow> DaqOptions" where
  "cli_daq_options c = DaqOptions_init\<lparr> do_maxFileBytes := co_maxSize c, do_writeHeader := co_writeHead c \<rparr>"

text \<open>
  The waiting loop: \<open>signal i\<close> is whether a signal has come by its \<open>i\<close>-th test, \<open>waited i\<close> the
  seconds since the start after the \<open>i\<close>-th pause. The result is the number of pauses; a loop that
  nothing ends does not return.
\<close>

partial_function (option) cli_wait :: "(nat \<Rightarrow> bool) \<Rightarrow> (nat \<Rightarrow> nat) \<Rightarrow> u32 \<Rightarrow> nat \<Rightarrow> nat option" where
  "cli_wait signal waited secs i =
     (if signal i then Some i
      else if secs \<noteq> 0 \<and> waited i \<ge> unat secs then Some (i + 1)
      else cli_wait signal waited secs (i + 1))"

text \<open>
  \<open>main\<close>: the exit code, and the \<open>Daq\<close> as it is left by its destructor, which stops it. \<open>envs\<close>,
  \<open>enve\<close> and \<open>envd\<close> are what the start, the stop and the destructor meet, \<open>live\<close> what the run
  does to board, queue, file and world in between.
\<close>

definition cli_exit ::
  "(rat \<Rightarrow> rat) \<Rightarrow> 'w DaqEnv \<Rightarrow> nat \<Rightarrow> 'w Daq \<Rightarrow> Disk \<Rightarrow> 'w \<Rightarrow> (nat \<times> 'w Daq option \<times> Disk \<times> 'w) option" where
  "cli_exit lg envd code d disk w = do {
     (d, disk, w) \<leftarrow> daq_stop lg envd d disk w;
     Some (code, Some d, disk, w)
   }"

definition cli_main ::
  "(rat \<Rightarrow> rat) \<Rightarrow> 'w Backend \<Rightarrow> 'w DaqEnv \<Rightarrow> 'w DaqEnv \<Rightarrow> 'w DaqEnv \<Rightarrow> (nat \<Rightarrow> bool) \<Rightarrow> (nat \<Rightarrow> nat)
     \<Rightarrow> (nat \<Rightarrow> 'w Daq \<times> Disk \<times> 'w \<Rightarrow> 'w Daq \<times> Disk \<times> 'w) \<Rightarrow> string list \<Rightarrow> Disk \<Rightarrow> 'w
     \<Rightarrow> (nat \<times> 'w Daq option \<times> Disk \<times> 'w) option" where
  "cli_main lg bk envs enve envd signal waited live args disk w =
     (case parse_args CliOptions_init args of
        CliHelp \<Rightarrow> Some (0, None, disk, w)
      | CliBad a \<Rightarrow> Some (2, None, disk, w)
      | CliRun c \<Rightarrow>
          let (i, d, w) = addBoard bk (co_spec c) (Daq_new (co_dir c) (co_run c) (cli_daq_options c)) w
          in if i < 0 then cli_exit lg envd 1 d disk w
             else do {
               (ok, d, disk, w) \<leftarrow> daq_start lg envs d disk w;
               if \<not> ok then cli_exit lg envd 1 d disk w
               else do {
                 n \<leftarrow> cli_wait signal waited (co_runSeconds c) 0;
                 let (d, disk, w) = live n (d, disk, w);
                 (d, disk, w) \<leftarrow> daq_stop lg enve d disk w;
                 cli_exit lg envd 0 d disk w
               }
             })"

text \<open>The waiting loop returns exactly when a signal comes or the requested time passes.\<close>

lemma cli_wait_le:
  "cli_wait signal waited secs i = Some n \<Longrightarrow> \<exists>j \<ge> i. signal j \<or> (secs \<noteq> 0 \<and> waited j \<ge> unat secs)"
proof (induction rule: cli_wait.raw_induct [rotated, consumes 1])
  case (1 f signal waited secs i y)
  show ?case
  proof (cases "signal i \<or> (secs \<noteq> 0 \<and> waited i \<ge> unat secs)")
    case False
    then have "f signal waited secs (i + 1) = Some y" using 1(2) by (auto split: if_splits)
    from 1(1) [OF this] show ?thesis by (meson add_leD1)
  qed blast
qed

lemma cli_wait_ends:
  assumes "signal j \<or> (secs \<noteq> 0 \<and> waited j \<ge> unat secs)" and "i \<le> j"
  shows "\<exists>n. cli_wait signal waited secs i = Some n"
  using assms(2)
proof (induction "j - i" arbitrary: i)
  case 0
  then have "j = i" by simp
  then show ?case using assms(1) by (subst cli_wait.simps) auto
next
  case (Suc k)
  then have "\<exists>n. cli_wait signal waited secs (i + 1) = Some n" by simp
  then show ?case by (subst cli_wait.simps) auto
qed

lemma cli_wait_returns:
  "(\<exists>n. cli_wait signal waited secs 0 = Some n) \<longleftrightarrow> (\<exists>j. signal j \<or> (secs \<noteq> 0 \<and> waited j \<ge> unat secs))"
proof
  assume "\<exists>n. cli_wait signal waited secs 0 = Some n"
  then obtain n where "cli_wait signal waited secs 0 = Some n" by (rule exE)
  from cli_wait_le [OF this] show "\<exists>j. signal j \<or> (secs \<noteq> 0 \<and> waited j \<ge> unat secs)" by (elim exE conjE) (rule exI)
next
  assume "\<exists>j. signal j \<or> (secs \<noteq> 0 \<and> waited j \<ge> unat secs)"
  then obtain j where "signal j \<or> (secs \<noteq> 0 \<and> waited j \<ge> unat secs)" by (rule exE)
  then show "\<exists>n. cli_wait signal waited secs 0 = Some n"
    by (rule cli_wait_ends [where signal = signal and waited = waited and secs = secs and j = j]) simp
qed

section \<open>Writing options down\<close>

definition cli_args :: "CliOptions \<Rightarrow> string list" where
  "cli_args c =
     (let p = bsp_params (co_spec c) in
      [''--run'', nat_str (unat (co_run c)), ''--dir'', co_dir c, ''--board'', bp_name p,
       ''--dpp'', (if mockDpp (co_spec c) = PHA then ''DPP-PHA'' else ''DPP-PSD''), ''--config'', configPath p,
       ''--maxsize'', nat_str (co_maxSize c), ''--seconds'', nat_str (unat (co_runSeconds c)),
       ''--rate'', nat_str (unat (co_mockRate c))]
      @ (if co_writeHead c then [] else [''--no-header''])
      @ (if co_decode c then [''--decode''] else [])
      @ (if co_useCaen c
         then [''--caen'', nat_str (nat (connType p)), nat_str (nat (linkNum p)), nat_str (nat (node p)),
               nat_str (unat (vmeBase p))]
         else []))"

text \<open>The options the command line can express.\<close>

definition expressible :: "CliOptions \<Rightarrow> bool" where
  "expressible c \<longleftrightarrow>
     (let s = co_spec c; p = bsp_params s in
      co_maxSize c < 2 ^ 64 \<and> bsp_mock s = (\<not> co_useCaen c) \<and> bsp_decode s = co_decode c \<and> bsp_write s \<and>
      mockRate s = co_mockRate c \<and> \<not> mockWaveforms s \<and> mockFailEvery s = 0 \<and> mockDpp s \<in> {PHA, PSD} \<and>
      mockStartMode s = 0 \<and>
      (if co_useCaen c
       then {connType p, linkNum p, node p} \<subseteq> {0 ..< 2 ^ 31}
       else connType p = 0 \<and> linkNum p = 0 \<and> node p = 0 \<and> vmeBase p = 0))"

lemma parse_u32 [simp]: "to_u32 (parseU64 (nat_str (unat w))) = w"
proof -
  have "unat w < 2 ^ 64" by (rule less_trans [OF unat_u32_less]) simp
  then show ?thesis by (simp add: parseU64_def to_u32_def strtoull_nat_str)
qed

lemma parse_u64 [simp]: "n < 2 ^ 64 \<Longrightarrow> parseU64 (nat_str n) = n"
  by (simp add: parseU64_def strtoull_nat_str)

lemma parse_i32 [simp]:
  assumes "0 \<le> x" and "x < 2147483648"
  shows "to_i32 (nat x) = x"
proof -
  have "sint (word_of_int x :: u32) = signed_take_bit 31 x" by (simp add: signed_of_int)
  also have "\<dots> = x" using assms by (intro signed_take_bit_int_eq_self) simp_all
  finally show ?thesis using assms by (simp add: to_i32_def)
qed

text \<open>
  C39. The command line says what it means: options written as arguments are parsed back to the
  same options, for every expressible configuration of mock or real board, whatever the texts of
  directory, name and configuration path are (also when they look like options), and for all
  values of the numbers up to their full width.
\<close>

theorem cli_roundtrip:
  assumes "expressible c"
  shows "parse_args CliOptions_init (cli_args c) = CliRun c"
proof -
  obtain dir n sz wh dec secs hz caen spec where c: "c = \<lparr> co_dir = dir, co_run = n, co_maxSize = sz, co_writeHead = wh,
      co_decode = dec, co_runSeconds = secs, co_mockRate = hz, co_useCaen = caen, co_spec = spec \<rparr>"
    by (cases c) auto
  obtain p fake d wr mr wave fail dpp mode where s: "spec = \<lparr> bsp_params = p, bsp_mock = fake, bsp_decode = d, bsp_write = wr,
      mockRate = mr, mockWaveforms = wave, mockFailEvery = fail, mockDpp = dpp, mockStartMode = mode \<rparr>"
    by (cases spec) auto
  obtain name conn link nd base path where p: "p = \<lparr> bp_name = name, connType = conn, linkNum = link, node = nd,
      vmeBase = base, configPath = path \<rparr>" by (cases p) auto
  have e: "sz < 2 ^ 64" "fake = (\<not> caen)" "d = dec" "wr" "mr = hz" "\<not> wave" "fail = 0" "dpp = PHA \<or> dpp = PSD" "mode = 0"
    "caen \<Longrightarrow> 0 \<le> conn \<and> conn < 2 ^ 31 \<and> 0 \<le> link \<and> link < 2 ^ 31 \<and> 0 \<le> nd \<and> nd < 2 ^ 31"
    "\<not> caen \<Longrightarrow> conn = 0 \<and> link = 0 \<and> nd = 0 \<and> base = 0"
    using assms by (auto simp: expressible_def c s p Let_def)
  show ?thesis
    using e
    by (cases caen; cases wh; cases dec)
      (auto simp: cli_args_def c s p Let_def CliOptions_init_def BoardSpec_init_def cli_option_def nth_Cons')
qed

definition demo_cli :: CliOptions where
  "demo_cli = CliOptions_init\<lparr> co_run := 4294967295, co_dir := ''--help'', co_maxSize := 18446744073709551615,
     co_writeHead := False, co_decode := True, co_runSeconds := 10, co_useCaen := True,
     co_spec := (co_spec CliOptions_init)\<lparr> bsp_mock := False, bsp_decode := True, mockDpp := PHA,
       bsp_params := \<lparr> bp_name = ''V1724'', connType = 5, linkNum = 2147483647, node = 1, vmeBase = 0x32100000,
                      configPath = '''' \<rparr> \<rparr> \<rparr>"

theorem cli_roundtrip_witness: "parse_args CliOptions_init (cli_args demo_cli) = CliRun demo_cli \<and> co_dir demo_cli = ''--help''"
proof -
  have "expressible demo_cli"
    by (simp add: expressible_def demo_cli_def CliOptions_init_def BoardSpec_init_def)
  from cli_roundtrip [OF this] show ?thesis by (simp add: demo_cli_def)
qed

text \<open>
  A number that is not one is read as 0, without an error: \<open>strtoull\<close> is called without an end
  pointer, so what follows the digits is ignored, and so is a value that has none.
\<close>

lemma bad_number_is_zero:
  "parse_args CliOptions_init [''--seconds'', ''ten''] = parse_args CliOptions_init [''--seconds'', ''0'']"
  by (simp add: cli_option_def Let_def parseU64_def strtoull_def signed_part_def is_space_def number_base_def
      digits_value_def digit_of_def)

end
