(* ===== verification/Py_Bindings.thy ===== *)
theory Py_Bindings
  imports Daq_Control
begin

text \<open>
  The Python module: what the bindings compute between Python and \<open>Daq\<close>. A Python value is a
  datatype, a dictionary an association list in insertion order; an index out of range, which
  raises \<open>IndexError\<close>, is \<open>None\<close>. Bindings that only name a method of \<open>Daq\<close>, the
  documentation strings and the release of the interpreter lock are not modelled.
\<close>

section \<open>Values and names\<close>

datatype py_value =
    PyNone
  | PyBool bool
  | PyInt int
  | PyFloat rat
  | PyStr string
  | PyList "py_value list"
  | PyDict "(string \<times> py_value) list"

definition py_startModeName :: "u32 \<Rightarrow> string" where
  "py_startModeName mode =
     (if mode = kStartModeSW then ''SW controlled''
      else if mode = kStartModeSInGpi then ''S-IN/GPI controlled''
      else if mode = kStartModeFirstTrig then ''First trigger controlled''
      else if mode = kStartModeLVDS then ''LVDS controlled''
      else ''unknown'')"

fun dppName :: "DppType \<Rightarrow> string" where
  "dppName Std = ''Standard''"
| "dppName PHA = ''DPP-PHA''"
| "dppName PSD = ''DPP-PSD''"
| "dppName CI = ''DPP-CI''"
| "dppName ZLE = ''DPP-ZLE''"
| "dppName QDC = ''DPP-QDC''"
| "dppName DAW = ''DPP-DAW''"
| "dppName NotDpp = ''unknown''"

section \<open>Construction\<close>

definition py_DAQ ::
  "string \<Rightarrow> u32 \<Rightarrow> nat \<Rightarrow> bool \<Rightarrow> string \<Rightarrow> int \<Rightarrow> string \<Rightarrow> int \<Rightarrow> int \<Rightarrow> 'w Daq" where
  "py_DAQ output_dir run_no max_file_bytes write_header host port pfx interval_ms first_interval_ms =
     (let opt = DaqOptions_init\<lparr> do_maxFileBytes := max_file_bytes, do_writeHeader := write_header,
                  do_graphiteHost := host, do_graphitePort := port \<rparr>;
          opt = (if pfx \<noteq> [] then opt\<lparr> do_graphitePrefix := pfx \<rparr> else opt)
      in Daq_new output_dir run_no
           (opt\<lparr> do_statsIntervalMs := interval_ms, do_statsFirstIntervalMs := first_interval_ms \<rparr>))"

definition py_spec ::
  "BoardParams \<Rightarrow> bool \<Rightarrow> bool \<Rightarrow> bool \<Rightarrow> u32 \<Rightarrow> bool \<Rightarrow> u32 \<Rightarrow> string \<Rightarrow> u32 \<Rightarrow> BoardSpec" where
  "py_spec p mock dec wr hz waves fail dpp mode =
     \<lparr> bsp_params = p, bsp_mock = mock, bsp_decode = dec, bsp_write = wr, mockRate = hz, mockWaveforms = waves,
       mockFailEvery = fail,
       mockDpp = (if dpp = ''DPP-PHA'' \<or> dpp = ''PHA'' \<or> dpp = ''pha'' then PHA else PSD),
       mockStartMode = mode \<rparr>"

definition py_add_board ::
  "'w Backend \<Rightarrow> BoardParams \<Rightarrow> bool \<Rightarrow> bool \<Rightarrow> bool \<Rightarrow> u32 \<Rightarrow> bool \<Rightarrow> u32 \<Rightarrow> string \<Rightarrow> u32
     \<Rightarrow> 'w Daq \<Rightarrow> 'w \<Rightarrow> int \<times> 'w Daq \<times> 'w" where
  "py_add_board bk p mock dec wr hz waves fail dpp mode d w =
     addBoard bk (py_spec p mock dec wr hz waves fail dpp mode) d w"

section \<open>Reading a register and a board\<close>

definition py_read_register :: "'w Daq \<Rightarrow> int \<Rightarrow> u32 \<Rightarrow> 'w \<Rightarrow> py_value \<times> 'w" where
  "py_read_register d board a w =
     (case daq_readRegister d board a w of
        (None, w) \<Rightarrow> (PyNone, w)
      | (Some v, w) \<Rightarrow> (PyInt (uint v), w))"

definition py_board_info :: "'w Daq \<Rightarrow> int \<Rightarrow> py_value" where
  "py_board_info d board =
     (let bi = daq_boardInfo d board; mode = acquisitionControl bi AND 0x3 in
      PyDict
        [(''model_name'', PyStr (modelName bi)),
         (''model'', PyInt (uint (model bi))),
         (''family_code'', PyInt (uint (familyCode bi))),
         (''form_factor'', PyInt (uint (formFactor bi))),
         (''channels'', PyInt (uint (bi_channels bi))),
         (''adc_bits'', PyInt (uint (adcNBits bi))),
         (''serial_number'', PyInt (uint (serialNumber bi))),
         (''pcb_revision'', PyInt (uint (pcbRevision bi))),
         (''board_reg_id'', PyInt (uint (boardRegId bi))),
         (''dpp_type'', PyStr (dppName (dppType bi))),
         (''dpp_code'', PyInt (uint (dpp_code (dppType bi)))),
         (''ns_per_sample'', PyInt (uint (nsPerSample bi))),
         (''ns_per_timetag'', PyInt (uint (nsPerTimetag bi))),
         (''roc_firmware'', PyStr (rocFirmware bi)),
         (''amc_firmware'', PyStr (amcFirmware bi)),
         (''license'', PyStr (license bi)),
         (''channel_enable_mask'', PyInt (uint (channelEnableMask bi))),
         (''acquisition_control'', PyInt (uint (acquisitionControl bi))),
         (''board_configuration'', PyInt (uint (boardConfiguration bi))),
         (''front_panel_io_control'', PyInt (uint (frontPanelIOControl bi))),
         (''global_trigger_mask'', PyInt (uint (globalTriggerMask bi))),
         (''trg_out_enable_mask'', PyInt (uint (trgOutEnableMask bi))),
         (''run_delay'', PyInt (uint (runDelay bi))),
         (''start_mode'', PyInt (uint mode)),
         (''start_mode_name'', PyStr (py_startModeName mode)),
         (''sync_role'', PyStr (toString (syncRole bi))),
         (''ps_per_tick'', PyInt (int (timeStampPs bi))),
         (''conn_type'', PyInt (bi_connType bi)),
         (''link_num'', PyInt (bi_linkNum bi)),
         (''node'', PyInt (bi_node bi)),
         (''vme_base'', PyInt (uint (bi_vmeBase bi)))])"

section \<open>Spectra\<close>

text \<open>
  An array of \<open>shape\<close> rows and columns over a buffer in row-major order, numpy's default.
\<close>

record PyArray =
  pa_rows :: nat
  pa_cols :: nat
  pa_data :: "u32 list"

definition pa_at :: "PyArray \<Rightarrow> nat \<Rightarrow> nat \<Rightarrow> u32 option" where
  "pa_at a x y = (if x < pa_rows a \<and> y < pa_cols a then Some (pa_data a ! (x * pa_cols a + y)) else None)"

text \<open>
  The bindings pass the board argument twice: as the index of the board in the run, and as the
  board id its store is keyed by. Both it and the channel are narrowed to \<open>uint16_t\<close>.
\<close>

definition to_u16 :: "int \<Rightarrow> nat" where
  "to_u16 x = nat (x mod 2 ^ 16)"

definition py_spectrum :: "(HistogramStore \<Rightarrow> nat \<Rightarrow> nat \<Rightarrow> 'a list) \<Rightarrow> 'w Daq \<Rightarrow> int \<Rightarrow> int \<Rightarrow> 'a list option" where
  "py_spectrum f d b ch = map_option (\<lambda>h. f h (to_u16 b) (to_u16 ch)) (daq_histograms d b)"

definition py_energy :: "'w Daq \<Rightarrow> int \<Rightarrow> int \<Rightarrow> u32 list option" where
  "py_energy = py_spectrum hist_energy"

definition py_qshort :: "'w Daq \<Rightarrow> int \<Rightarrow> int \<Rightarrow> u32 list option" where
  "py_qshort = py_spectrum hist_qshort"

definition py_qlong :: "'w Daq \<Rightarrow> int \<Rightarrow> int \<Rightarrow> u32 list option" where
  "py_qlong = py_spectrum hist_qlong"

definition py_interval :: "'w Daq \<Rightarrow> int \<Rightarrow> int \<Rightarrow> u32 list option" where
  "py_interval = py_spectrum hist_interval"

definition py_waveform :: "'w Daq \<Rightarrow> int \<Rightarrow> int \<Rightarrow> u16 list option" where
  "py_waveform = py_spectrum waveform"

definition py_psd :: "'w Daq \<Rightarrow> int \<Rightarrow> int \<Rightarrow> PyArray option" where
  "py_psd d b ch =
     map_option (\<lambda>flat. if flat = [] then \<lparr> pa_rows = 0, pa_cols = 0, pa_data = [] \<rparr>
                        else \<lparr> pa_rows = kPsdXBins, pa_cols = kPsdYBins, pa_data = flat \<rparr>)
       (py_spectrum hist_psd d b ch)"

definition py_channel_events :: "'w Daq \<Rightarrow> int \<Rightarrow> int \<Rightarrow> u64 option" where
  "py_channel_events d b ch = map_option (\<lambda>h. hist_events h (to_u16 b) (to_u16 ch)) (daq_histograms d b)"

definition py_active_channels :: "'w Daq \<Rightarrow> int \<Rightarrow> (nat \<times> nat) list option" where
  "py_active_channels d b = map_option channels (daq_histograms d b)"

definition wave_kind :: "string \<Rightarrow> WaveKind" where
  "wave_kind s = (if s = ''good'' then Good else if s = ''pileup'' then Pileup
                  else if s = ''saturated'' then Saturated else Any)"

definition py_waveform_of :: "'w Daq \<Rightarrow> int \<Rightarrow> int \<Rightarrow> string \<Rightarrow> u16 list option" where
  "py_waveform_of d b ch kind = py_spectrum (\<lambda>h bid c. waveform_kind h bid c (wave_kind kind)) d b ch"

section \<open>Hits\<close>

text \<open>The tap of a board, in its decode stage when it has one.\<close>

definition map_hits :: "(HitTap \<Rightarrow> HitTap) \<Rightarrow> 'w BoardRunner \<Rightarrow> 'w BoardRunner" where
  "map_hits f r =
     (case br_stage r of
        None \<Rightarrow> r\<lparr> br_hits := f (br_hits r) \<rparr>
      | Some s \<Rightarrow> r\<lparr> br_stage := Some (s\<lparr> sg_hits := f (sg_hits s) \<rparr>) \<rparr>)"

definition at_runner :: "'w Daq \<Rightarrow> int \<Rightarrow> ('w BoardRunner \<Rightarrow> 'w BoardRunner) \<Rightarrow> 'w Daq option" where
  "at_runner d b f =
     (case runner_at d b of
        None \<Rightarrow> None
      | Some r \<Rightarrow> Some (d\<lparr> dq_runners := (dq_runners d)[nat b := f r] \<rparr>))"

definition py_enable_hits :: "'w Daq \<Rightarrow> int \<Rightarrow> bool \<Rightarrow> nat \<Rightarrow> 'w Daq option" where
  "py_enable_hits d b on cap =
     at_runner d b (map_hits (\<lambda>t. setEnabled on (if cap \<noteq> 0 then setCapacity cap t else t)))"

definition py_take_hits :: "'w Daq \<Rightarrow> int \<Rightarrow> (Hit list \<times> 'w Daq) option" where
  "py_take_hits d b = do {
     t \<leftarrow> daq_hits d b;
     d \<leftarrow> at_runner d b (map_hits (snd \<circ> tap_take));
     Some (fst (tap_take t), d)
   }"

definition py_hits_dropped :: "'w Daq \<Rightarrow> int \<Rightarrow> u64 option" where
  "py_hits_dropped d b = map_option tap_dropped (daq_hits d b)"

section \<open>Rates\<close>

definition py_channel_stats :: "ChannelRate \<Rightarrow> py_value" where
  "py_channel_stats c =
     PyDict [(''board'', PyInt (int (cr_board c))), (''channel'', PyInt (int (cr_ch c))),
             (''event_rate'', PyFloat (cr_events c)), (''pileup_rate'', PyFloat (cr_pileup c)),
             (''lost_rate'', PyFloat (cr_lost c)), (''satu_rate'', PyFloat (cr_satu c))]"

definition py_board_stats :: "BoardRate \<Rightarrow> py_value" where
  "py_board_stats b =
     PyDict [(''name'', PyStr (brt_name b)), (''board_id'', PyInt (int (brt_regId b))),
             (''write_rate'', PyFloat (writeRate b)), (''board_failures'', PyInt (int (brt_boardFail b))),
             (''failed'', PyBool (brt_boardFail b > 0)),
             (''channels'', PyList (map py_channel_stats (brt_channels b)))]"

definition py_stats :: "'w Daq \<Rightarrow> py_value" where
  "py_stats d = PyList (map py_board_stats (daq_stats d))"

section \<open>The PSD array\<close>

lemma tally_nth: "is \<noteq> [] \<Longrightarrow> k < n \<Longrightarrow> tally n is ! k = of_nat (count_list is k)"
  by (simp add: tally_def)

lemma count_list_map: "count_list (map f xs) v = length (filter (\<lambda>x. f x = v) xs)"
  by (induction xs) auto

lemma psd_index_bins:
  assumes "y < kPsdYBins"
  shows "psd_index e = x * kPsdYBins + y \<longleftrightarrow> psd_xbin (qlong e) = x \<and> psd_ybin (qshort e) (qlong e) = y"
proof
  assume e: "psd_index e = x * kPsdYBins + y"
  have n: "kPsdYBins \<noteq> 0" using assms by simp
  have "psd_index e div kPsdYBins = psd_xbin (qlong e)"
    using n psd_bins_less(2) [of "qshort e" "qlong e"] by (simp add: psd_index_def del: psd_bins_less)
  moreover have "psd_index e mod kPsdYBins = psd_ybin (qshort e) (qlong e)" by (simp add: psd_index_def)
  moreover have "(x * kPsdYBins + y) div kPsdYBins = x" "(x * kPsdYBins + y) mod kPsdYBins = y" using assms by simp_all
  ultimately show "psd_xbin (qlong e) = x \<and> psd_ybin (qshort e) (qlong e) = y" using e by simp
qed (simp add: psd_index_def)

lemma no_events_no_psd:
  assumes "foldM (fill lg) [] es = Some m" and "\<forall>e \<in> set es. fields16 e" and "bid < 2 ^ 16" and "c < 2 ^ 16"
    and "own_events bid c es = []"
  shows "hist_psd m bid c = []"
  using fills_find [OF assms(2,1,3,4)] assms(5) by (simp add: hist_psd_def snapshot_def)

text \<open>
  C38. What Python sees as element \<open>[x, y]\<close> of a channel's PSD array is what the online analysis
  means by it, provided the board's register id is its index: the number, modulo \<open>2^32\<close>, of the
  channel's charged events whose long gate falls into bin \<open>x\<close> and whose PSD ratio falls into bin
  \<open>y\<close>. The axes are not exchanged by the reshaping of the flat histogram, and a channel that has
  had a charged event has the full array. For a board whose events carry another id than its
  index the array is empty, whatever it has measured.
\<close>

theorem psd_array_exact:
  assumes "daq_histograms d b = Some m" and "foldM (fill lg) [] es = Some m" and "\<forall>e \<in> set es. fields16 e"
    and "0 \<le> b" "b < 2 ^ 16" "0 \<le> ch" "ch < 2 ^ 16" and "x < kPsdXBins" and "y < kPsdYBins"
  shows "\<exists>a. py_psd d b ch = Some a \<and>
    ((\<exists>e \<in> set (own_events (nat b) (nat ch) es). qlong e > 0) \<longrightarrow>
       pa_rows a = kPsdXBins \<and> pa_cols a = kPsdYBins \<and> length (pa_data a) = kPsdXBins * kPsdYBins \<and>
       pa_at a x y = Some (of_nat (length (filter (\<lambda>e. qlong e > 0 \<and> psd_xbin (qlong e) = x \<and>
         psd_ybin (qshort e) (qlong e) = y) (own_events (nat b) (nat ch) es))))) \<and>
    ((\<forall>e \<in> set es. ev_board e \<noteq> nat b) \<longrightarrow> pa_rows a = 0 \<and> pa_cols a = 0 \<and> pa_at a x y = None)"
proof -
  let ?own = "own_events (nat b) (nat ch) es"
  let ?is = "map psd_index (filter (\<lambda>e. qlong e > 0) ?own)"
  let ?h = "hist_psd m (nat b) (nat ch)"
  have n: "nat b < 2 ^ 16" "nat ch < 2 ^ 16" "to_u16 b = nat b" "to_u16 ch = nat ch"
    using assms(4-7) by (simp_all add: to_u16_def nat_less_iff)
  have full: "?h \<noteq> [] \<and> length ?h = kPsdXBins * kPsdYBins \<and> ?h ! (x * kPsdYBins + y) =
      of_nat (length (filter (\<lambda>e. qlong e > 0 \<and> psd_xbin (qlong e) = x \<and> psd_ybin (qshort e) (qlong e) = y) ?own))"
    if q: "\<exists>e \<in> set ?own. qlong e > 0"
  proof -
    have "?own \<noteq> []" and ne: "?is \<noteq> []" using q by (auto simp: filter_empty_conv)
    then have h: "?h = tally (kPsdXBins * kPsdYBins) ?is"
      using fills_find [OF assms(3,2) n(1,2)] by (simp add: hist_psd_def snapshot_def channel_of_def)
    have "0 < kPsdXBins * kPsdYBins" by (simp add: kPsdXBins_def kPsdYBins_def)
    moreover have len: "length ?h = kPsdXBins * kPsdYBins" using ne h by (simp add: tally_def)
    ultimately have "?h \<noteq> []" by (metis length_greater_0_conv)
    have "(x + 1) * kPsdYBins \<le> kPsdXBins * kPsdYBins" using assms(8) by (intro mult_le_mono1) simp
    then have "x * kPsdYBins + y < kPsdXBins * kPsdYBins" using assms(9) by simp
    then have "?h ! (x * kPsdYBins + y) = of_nat (count_list ?is (x * kPsdYBins + y))"
      unfolding h using tally_nth [OF ne] by blast
    moreover have "count_list ?is (x * kPsdYBins + y) = length (filter (\<lambda>e. qlong e > 0 \<and> psd_xbin (qlong e) = x \<and>
        psd_ybin (qshort e) (qlong e) = y) ?own)"
      using psd_index_bins [OF assms(9)] by (simp add: count_list_map conj_commute)
    ultimately show ?thesis using \<open>?h \<noteq> []\<close> len by simp
  qed
  have "?h = []" if "\<forall>e \<in> set es. ev_board e \<noteq> nat b"
    using that no_events_no_psd [OF assms(2,3) n(1,2)] by (simp add: own_events_def filter_empty_conv)
  then show ?thesis
    using full assms(1,8,9) n(3,4) by (auto simp: py_psd_def py_spectrum_def pa_at_def)
qed

definition psd_event :: DecodedEvent where
  "psd_event = DecodedEvent_init\<lparr> ev_board := 0, ev_channel := 0, timePs := 5, qshort := 10, qlong := 40000 \<rparr>"

definition psd_daq :: "RawBlock option list Daq" where
  "psd_daq = (Daq_new '''' 7 DaqOptions_init)\<lparr> dq_runners :=
     [(BoardRunner_new scripted BoardRunnerConfig_init False)\<lparr> br_histograms := the (foldM (fill id) [] [psd_event, psd_event]) \<rparr>] \<rparr>"

theorem psd_array_exact_witness:
  "\<exists>a. py_psd psd_daq 0 0 = Some a \<and> pa_at a 1250 (psd_ybin 10 40000) = Some 2"
proof -
  have ok: "\<forall>e \<in> set [psd_event, psd_event]. fields16 e"
    by (simp add: psd_event_def fields16_def DecodedEvent_init_def)
  obtain m where m: "foldM (fill id) [] [psd_event, psd_event] = Some m" using fills_spec [OF ok, of id] by blast
  have h: "daq_histograms psd_daq 0 = Some m"
    using m by (simp add: daq_histograms_def runner_at_def psd_daq_def Daq_new_def runner_histograms_def BoardRunner_new_def)
  have x: "psd_xbin 40000 = 1250" "1250 < kPsdXBins"
    by (simp_all add: psd_xbin_def kPsdXBins_def kQLongMax_def)
  have own: "own_events 0 0 [psd_event, psd_event] = [psd_event, psd_event]" "qlong psd_event = 40000" "qshort psd_event = 10"
    by (simp_all add: own_events_def psd_event_def DecodedEvent_init_def)
  obtain a where "py_psd psd_daq 0 0 = Some a" "pa_at a 1250 (psd_ybin 10 40000) =
      Some (of_nat (length (filter (\<lambda>e. qlong e > 0 \<and> psd_xbin (qlong e) = 1250 \<and>
        psd_ybin (qshort e) (qlong e) = psd_ybin 10 40000) [psd_event, psd_event])))"
    using psd_array_exact [OF h m ok _ _ _ _ x(2) psd_bins_less(2) [of 10 40000], of 0] own by auto
  then show ?thesis using own x by auto
qed

end
