(* ===== verification/Spec2Isabelle.thy ===== *)
theory Spec2Isabelle
  imports Decoder_Clock Daq_Run Caen_Link Command_Line Py_Bindings
begin

text \<open>
  Verification library of CaenDAQ, a data acquisition for CAEN digitizers written in C++.

  \<^bold>\<open>The program.\<close> A \<open>Daq\<close> owns the boards of a run. Every board is an \<open>IDigitizer\<close>, either a real
  one (\<open>CaenDigitizer\<close>, over the vendored CAEN driver) or a \<open>MockDigitizer\<close>. Its \<open>BoardRunner\<close> has a
  reader thread that takes buffers from the board and hands each to two queues: the write queue,
  which all boards share and the writer thread drains into part files (\<open>RawFileWriter\<close> with the
  header of \<open>DataFileHeader.hpp\<close>), and the queue of the board's \<open>DecodeStage\<close>, which decodes it
  (\<open>AggregateDecoder\<close> over the vendored format classes) and feeds the board's \<open>HistogramStore\<close> and
  \<open>HitTap\<close>. \<open>ClockSync\<close> aligns the clock chain before a run starts; \<open>StatsCollector\<close> turns counters
  into rates and sends them through \<open>GraphiteClient\<close>. \<open>caendaq_cli\<close> and the Python module drive
  \<open>Daq\<close>. Everything modelled is under \<open>src/src\<close>, \<open>src/include/caendaq\<close>, \<open>src/vendor/rureader\<close>,
  \<open>src/apps\<close> and \<open>src/python\<close>.
\<close>

section \<open>The theories and the code\<close>

text \<open>
  Foundations.

  \<^item> \<open>Prelude\<close>: word types, unsigned arithmetic with its wrap-around, checked reads of a word
    buffer, folds that can fail, decimal numerals.
  \<^item> \<open>Ordered_Map\<close>: \<open>std::map\<close> as a sorted association list; the locale \<open>keyed_store\<close> holds the laws
    its clients use, interpreted on this model.
  \<^item> \<open>Ieee_Double\<close>: \<open>double\<close> arithmetic as exact rationals, rounded to nearest even after every
    operation; the error bound of one operation.
  \<^item> \<open>C_Numbers\<close>: \<open>std::strtoul\<close> and \<open>std::strtoull\<close>.
  \<^item> \<open>Board_Model\<close>: \<open>BoardInfo\<close>, \<open>BoardParams\<close>, \<open>DecodedEvent\<close>, \<open>RawBlock\<close>, start modes.

  Decoding and analysis.

  \<^item> \<open>Data_Frame\<close> (\<open>Utils.h\<close>, \<open>DataFrame\<close>, \<open>DataFrameBuilder\<close> for PHA and PSD): from a format word to
    the layout of an event. Lemmas: supported frames have sane layouts.
  \<^item> \<open>Aggregate_Decoder\<close> (\<open>AggregateDecoder.cpp\<close>): \<open>registerBoard\<close>, \<open>unwrap\<close>, both unpackers and the
    buffer walk. A read outside the buffer is \<open>None\<close>, and so is a walk that does not end.
    \<open>Decoder_Props\<close> proves that neither happens and bounds every emitted field, \<open>Decoder_Clock\<close> that
    unwrapping recovers true times, \<open>X730_Aggregate\<close> that decoding inverts the x730 format.
  \<^item> \<open>Histogram_Store\<close> (\<open>HistogramStore.cpp\<close>): \<open>fill\<close>, which fails on a write out of bounds, and the
    snapshots. Lemmas: the store after any events is the tally of each channel's own events, from
    which the exactness of the spectra, the tiling of the intervals and the accuracy of the PSD
    bin follow.
  \<^item> \<open>Hit_Tap\<close> (\<open>HitTap.hpp\<close>): the bounded hit buffer, against the list of hits offered to it.
  \<^item> \<open>Block_Queue\<close> (\<open>BlockQueue.hpp\<close>): the bounded queue; its interleavings are an inductive step
    relation in which a blocked push is two steps. The locale \<open>closable_queue\<close> states the consumer's
    contract.
  \<^item> \<open>Decode_Stage\<close> (\<open>DecodeStage.cpp\<close>): the decode thread.

  Files.

  \<^item> \<open>File_Header\<close> (\<open>DataFileHeader.hpp\<close>) and \<open>File_Writer\<close> (\<open>RawFileWriter.cpp\<close>), over an explicit
    disk whose every call may fail. Lemmas: an invariant of the part files, from which follow their
    content, their size and that no other file is touched.
  \<^item> \<open>Writer_Thread\<close> (\<open>Daq::writerLoop\<close>, \<open>Daq::teardownWriter\<close>).

  Boards.

  \<^item> \<open>Digitizer\<close> (\<open>IDigitizer.hpp\<close>): the virtual interface as a record of functions over a world that
    is a type parameter; the locale \<open>closable_digitizer\<close> is what a runner relies on, interpreted on
    the mock board and on the real one.
  \<^item> \<open>Mock_Digitizer\<close> (\<open>MockDigitizer.cpp\<close>).
  \<^item> \<open>Caen_Digitizer\<close> (\<open>CaenDigitizer.cpp\<close>): state-monad programs over the driver's calls, every one
    recorded in a trace with its answer. \<open>Caen_Protocol\<close> proves, with triples composed along the
    programs, the protocol of driver object and readout buffer; \<open>Caen_Link\<close> the mutual exclusion of
    the boards behind one bridge and what becomes of a board that is not reconnected.
  \<^item> \<open>Board_Runner\<close> (\<open>BoardRunner.cpp\<close>): the reader loop, the drain and the stop of one board.
  \<^item> \<open>Clock_Sync\<close> (\<open>ClockSync.cpp\<close>): chain order, re-alignment, check. The locale \<open>footprint\<close> collects
    what a procedure over register callbacks does to a world, interpreted on a log of the bus.

  The run.

  \<^item> \<open>Daq_Control\<close> (\<open>Daq.cpp\<close>): \<open>addBoard\<close>, \<open>prepare\<close>, \<open>start\<close> with its roll-back, \<open>stop\<close>, statistics,
    register access and counters. \<open>Daq_Props\<close> proves orders, roll-back and termination over boards
    that log their calls. \<open>Daq_Run\<close> composes readers, writer, decode and control threads into one
    step relation; its invariant gives that the file holds exactly what was counted.
  \<^item> \<open>Stats_Collector\<close> and \<open>Graphite_Client\<close> (\<open>StatsCollector.cpp\<close>, \<open>GraphiteClient.cpp\<close>): rates,
    formatting, the timed loop; the socket client over the system's calls, which may answer anything.
  \<^item> \<open>Command_Line\<close> (\<open>caendaq_cli.cpp\<close>): option parsing and \<open>main\<close> over \<open>Daq\<close>.
  \<^item> \<open>Py_Bindings\<close> (\<open>bindings.cpp\<close>): what the bindings compute between Python and \<open>Daq\<close>.
\<close>

section \<open>How it is modelled\<close>

text \<open>
  A class is a record, a method a function that returns the record updated, an early return or
  an error a value of its result. Fixed-width integers are words, or natural numbers with the
  wrap-around written out. Memory the code indexes is a list, and an access outside it is \<open>None\<close>,
  so that the safety theorems say that \<open>None\<close> does not occur.

  \<^bold>\<open>Loops.\<close> A loop the code does not bound is a \<^theory_text>\<open>partial_function\<close> in the option monad:
  \<open>decode_loop\<close>, \<open>drain_loop\<close>, \<open>wait_ready\<close>, \<open>waitWritable\<close>, \<open>writer_loop\<close> and \<open>cli_wait\<close>. No fuel is used.
  That they return is proved: always for the decoder and the clock synchronisation, once the queue
  is closed for the consumers, and exactly when a signal comes or the time passes for the command
  line. \<open>waitWritable\<close> starts again with its full timeout after each interruption, so it returns only
  if the interruptions end. Two bounds are the code's own: a stopped reader takes at most 1000 more
  buffers (\<open>kMaxReads\<close>), and a new file is given one of at most 99999 further names (\<open>first_free\<close>);
  \<open>disk_ready\<close> is the hypothesis that so many names are not taken, counting the parts of the run.

  \<^bold>\<open>Threads.\<close> An operation the code runs under a mutex is one step. \<open>Block_Queue\<close>, \<open>Caen_Link\<close> and
  \<open>Daq_Run\<close> interleave such steps by inductive relations. In the sequential models of a thread what
  the others do between two of its steps is an input (\<open>PushEnv\<close>, \<open>ReaderTick\<close>, \<open>StopEnv\<close>, \<open>WriterTick\<close>,
  \<open>DaqEnv\<close>), about which a theorem assumes, by name, only what those threads do: that they leave
  well-formed queues behind, and that a closed queue is left to the writer.

  \<^bold>\<open>Parameters.\<close> The CAEN driver and the objects it hands out (\<open>Driver\<close>), how a board object is made
  (\<open>Backend\<close>), the operating system's socket calls (\<open>Net\<close>), the success of every disk call (\<open>Disk\<close>),
  clock readings, sleeping, the parsing of a register file into its entries, and \<open>std::log10\<close>.
  They are arbitrary unless a theorem names a hypothesis, and every witness instantiates them.
\<close>

section \<open>Not modelled\<close>

text \<open>
  \<^item> Log lines (\<open>Log.hpp\<close>), error texts and what \<open>caendaq_cli\<close> prints: output only.
  \<^item> The vendored driver \<open>class_caen_dgtz\<close>: third-party code over a closed library; the code above
    it is proved correct for all its answers.
  \<^item> The Windows branches of \<open>GraphiteClient.cpp\<close>: they name the same calls of another socket
    library; the POSIX branches are modelled.
  \<^item> In \<open>bindings.cpp\<close> the bindings that only name a method of \<open>Daq\<close>, module constants, documentation
    strings and the release of the interpreter lock.
  \<^item> The memory model: data races are not excluded by a theorem; atomics and sections under a mutex
    are steps.
  \<^item> Real time: a sleep is an input, and no theorem speaks of how long a call takes.
  \<^item> The test programs.
\<close>

end
